(* ===== verification/Prelude.thy ===== *)
theory Prelude
  imports Main "HOL-Library.Word"
begin

text \<open>
  What every component of the development shares: the result type of a C++ function that can
  go wrong, machine bytes and little-endian words as they lie in memory, overwriting part of an
  array, and the collections of rewrite rules the component proofs use.
\<close>

section \<open>Named collections\<close>

named_theorems res_simps \<open>how a computation that may abort proceeds\<close>
named_theorems mem_simps \<open>reading and writing arrays of bytes\<close>
named_theorems frame_simps \<open>which parts of the state an operation leaves alone\<close>

section \<open>Abnormal ends\<close>

text \<open>
  A function of the program either returns a value or ends the process: by undefined behaviour
  that the model detects (\<open>Fault\<close>), by an exception nobody catches, or by calling
  \<open>exit\<close>. Every definition of the development that can do so returns a \<open>res\<close>.
\<close>

datatype fault =
    Null_deref        \<comment> \<open>a null pointer (or a null member-function pointer) is used\<close>
  | Out_of_bounds     \<comment> \<open>an array is read or written outside its extent\<close>
  | Use_after_free    \<comment> \<open>a heap block is used, or freed, after it was freed\<close>
  | Uninit_read       \<comment> \<open>a byte that was never written is read as a value\<close>
  | Bad_alloc         \<comment> \<open>\<open>new[]\<close> is asked for a negative size\<close>
  | Uncaught          \<comment> \<open>an exception nobody catches\<close>
  | Bad_range         \<comment> \<open>a range whose end cannot be reached from its start\<close>

datatype abort = Fault fault | Exit int

type_synonym 'a res = "abort + 'a"

definition bind_res :: "'a res \<Rightarrow> ('a \<Rightarrow> 'b res) \<Rightarrow> 'b res" where
  "bind_res m f = (case m of Inl e \<Rightarrow> Inl e | Inr x \<Rightarrow> f x)"

lemma bind_res_Inl [simp, res_simps]: "bind_res (Inl e) f = Inl e"
  by (simp add: bind_res_def)

lemma bind_res_Inr [simp, res_simps]: "bind_res (Inr x) f = f x"
  by (simp add: bind_res_def)

lemma bind_res_eq_Inr [res_simps]:
  "bind_res m f = Inr y \<longleftrightarrow> (\<exists>x. m = Inr x \<and> f x = Inr y)"
  by (cases m) simp_all

lemma bind_res_assoc: "bind_res (bind_res m f) g = bind_res m (\<lambda>x. bind_res (f x) g)"
  by (cases m) simp_all

lemma bind_res_cong [fundef_cong]:
  "m = m' \<Longrightarrow> (\<And>x. m' = Inr x \<Longrightarrow> f x = f' x) \<Longrightarrow> bind_res m f = bind_res m' f'"
  by (cases m') simp_all

section \<open>Bytes and words in memory\<close>

type_synonym byte = "8 word"
type_synonym u8 = "8 word"
type_synonym u16 = "16 word"
type_synonym u32 = "32 word"
type_synonym u64 = "64 word"

text \<open>A byte of allocated memory; \<open>None\<close> until it is first written.\<close>

type_synonym cell = "byte option"

text \<open>The little-endian image of a number in \<open>n\<close> bytes, and its inverse.\<close>

primrec le_bytes :: "nat \<Rightarrow> nat \<Rightarrow> byte list" where
  "le_bytes 0 v = []"
| "le_bytes (Suc n) v = of_nat (v mod 256) # le_bytes n (v div 256)"

primrec le_val :: "byte list \<Rightarrow> nat" where
  "le_val [] = 0"
| "le_val (b # bs) = unat b + 256 * le_val bs"

lemma length_le_bytes [simp, mem_simps]: "length (le_bytes n v) = n"
  by (induction n arbitrary: v) simp_all

lemma unat_byte_less: "unat (b :: byte) < 256"
  using unsigned_less [of b] by simp

lemma unat_of_nat_byte: "n < 256 \<Longrightarrow> unat (of_nat n :: byte) = n"
  by (simp add: unat_of_nat take_bit_nat_eq_self)

lemma le_val_le_bytes: "v < 256 ^ n \<Longrightarrow> le_val (le_bytes n v) = v"
proof (induction n arbitrary: v)
  case 0
  then show ?case by simp
next
  case (Suc n)
  have "v div 256 < 256 ^ n"
    using Suc.prems by (simp add: less_mult_imp_div_less)
  then have "le_val (le_bytes n (v div 256)) = v div 256"
    by (rule Suc.IH)
  moreover have "unat (of_nat (v mod 256) :: byte) = v mod 256"
    by (rule unat_of_nat_byte) simp
  ultimately show ?case by simp
qed

lemma le_val_less: "le_val bs < 256 ^ length bs"
proof (induction bs)
  case Nil
  then show ?case by simp
next
  case (Cons b bs)
  then show ?case
    using unat_byte_less [of b] by simp
qed

lemma le_bytes_le_val: "length bs = n \<Longrightarrow> le_bytes n (le_val bs) = bs"
proof (induction bs arbitrary: n)
  case Nil
  then show ?case by simp
next
  case (Cons b bs)
  then show ?case
    using unat_byte_less [of b] by auto
qed

lemma unat_of_nat_u64: "n < 2 ^ 64 \<Longrightarrow> unat (of_nat n :: u64) = n"
  by (simp add: unat_of_nat take_bit_nat_eq_self)

lemma le_val_u64: "le_val (le_bytes 8 (unat (w :: u64))) = unat w"
  by (rule le_val_le_bytes) (use unsigned_less [of w] in simp)

section \<open>Overwriting part of an array\<close>

definition overwrite :: "nat \<Rightarrow> 'a list \<Rightarrow> 'a list \<Rightarrow> 'a list" where
  "overwrite off new xs = take off xs @ new @ drop (off + length new) xs"

lemma length_overwrite [simp, mem_simps]:
  "off + length new \<le> length xs \<Longrightarrow> length (overwrite off new xs) = length xs"
  by (simp add: overwrite_def)

lemma take_overwrite [mem_simps]:
  "n \<le> off \<Longrightarrow> off \<le> length xs \<Longrightarrow> take n (overwrite off new xs) = take n xs"
  by (simp add: overwrite_def min_absorb1)

lemma take_overwrite_full [mem_simps]:
  "off \<le> length xs \<Longrightarrow> take (off + length new) (overwrite off new xs) = take off xs @ new"
  by (simp add: overwrite_def min_absorb2)

lemma drop_overwrite [mem_simps]:
  "off + length new \<le> n \<Longrightarrow> off + length new \<le> length xs
   \<Longrightarrow> drop n (overwrite off new xs) = drop n xs"
  by (simp add: overwrite_def)

lemma overwrite_Nil [simp, mem_simps]: "overwrite off [] xs = xs"
  by (simp add: overwrite_def)

lemma overwrite_all [mem_simps]: "length new = length xs \<Longrightarrow> overwrite 0 new xs = new"
  by (simp add: overwrite_def)

section \<open>Lists\<close>

lemma nth_list_update_if: "(xs[i := x]) ! j = (if i = j \<and> i < length xs then x else xs ! j)"
  by (cases "i < length xs") (simp_all add: nth_list_update list_update_beyond)

lemma distinct_remove_suffix: "distinct (xs @ ys) \<Longrightarrow> distinct ys"
  by simp

section \<open>Loops that run for ever\<close>

text \<open>
  The contract between a loop and its body: a state predicate under which one round always
  returns, and which it preserves. Any number of rounds then returns as well.
\<close>

primrec iterate_res :: "('s \<Rightarrow> 's res) \<Rightarrow> nat \<Rightarrow> 's \<Rightarrow> 's res" where
  "iterate_res f 0 s = Inr s"
| "iterate_res f (Suc n) s = bind_res (f s) (iterate_res f n)"

locale safe_loop =
  fixes step :: "'s \<Rightarrow> 's res" and ok :: "'s \<Rightarrow> bool"
  assumes step_ok: "ok s \<Longrightarrow> \<exists>s'. step s = Inr s' \<and> ok s'"
begin

lemma rounds_ok: "ok s \<Longrightarrow> \<exists>s'. iterate_res step n s = Inr s' \<and> ok s'"
proof (induction n arbitrary: s)
  case 0
  then show ?case by simp
next
  case (Suc n)
  then obtain s1 where "step s = Inr s1" "ok s1"
    using step_ok by blast
  then show ?case
    using Suc.IH by simp
qed

lemma rounds_no_abort: "ok s \<Longrightarrow> iterate_res step n s \<noteq> Inl e"
  using rounds_ok [of s n] by auto

lemma rounds_split:
  "iterate_res step (m + n) s = bind_res (iterate_res step m s) (iterate_res step n)"
  by (induction m arbitrary: s) (simp_all add: bind_res_assoc, metis bind_res_assoc)

end

end
