(* ===== verification/Xfly_Comm.thy ===== *)
theory Xfly_Comm
  imports Prelude
begin

text \<open>
  \<open>_include/xfly_comm.h\<close>: the package header that precedes every message on the wire, the
  states of the receive machine and the size limits. The header is read the way
  \<open>wait_request_handler_proc_p1\<close> reads it: the bytes of \<open>dataHeadInfo\<close> are cast to the
  packed struct on a little-endian machine, and \<open>ntohs\<close> puts the length into host order.
\<close>

unbundle bit_operations_syntax

section \<open>Constants\<close>

definition PKG_MAX_LENGTH :: nat where "PKG_MAX_LENGTH = 30000"

definition PKG_HD_INIT :: u8 where "PKG_HD_INIT = 0"

definition PKG_HD_RECVING :: u8 where "PKG_HD_RECVING = 1"

definition PKG_BD_INIT :: u8 where "PKG_BD_INIT = 2"

definition PKG_BD_RECVING :: u8 where "PKG_BD_RECVING = 3"

definition DATA_BUFSIZE :: nat where "DATA_BUFSIZE = 20"

lemmas pkg_state_defs =
  PKG_HD_INIT_def PKG_HD_RECVING_def PKG_BD_INIT_def PKG_BD_RECVING_def

lemma pkg_states_distinct [simp]:
  "PKG_HD_INIT \<noteq> PKG_HD_RECVING" "PKG_HD_INIT \<noteq> PKG_BD_INIT" "PKG_HD_INIT \<noteq> PKG_BD_RECVING"
  "PKG_HD_RECVING \<noteq> PKG_HD_INIT" "PKG_HD_RECVING \<noteq> PKG_BD_INIT" "PKG_HD_RECVING \<noteq> PKG_BD_RECVING"
  "PKG_BD_INIT \<noteq> PKG_HD_INIT" "PKG_BD_INIT \<noteq> PKG_HD_RECVING" "PKG_BD_INIT \<noteq> PKG_BD_RECVING"
  "PKG_BD_RECVING \<noteq> PKG_HD_INIT" "PKG_BD_RECVING \<noteq> PKG_HD_RECVING" "PKG_BD_RECVING \<noteq> PKG_BD_INIT"
  by (simp_all add: pkg_state_defs)

section \<open>The package header\<close>

text \<open>\<open>COMM_PKG_HEADER\<close>, packed to 1-byte alignment: 2 + 2 + 4 bytes.\<close>

record COMM_PKG_HEADER =
  pkgLen :: u16
  msgCode :: u16
  crc32 :: u32

definition sizeof_COMM_PKG_HEADER :: nat where "sizeof_COMM_PKG_HEADER = 8"

text \<open>The cast \<open>(LPCOMM_PKG_HEADER)p\<close> of eight bytes, on a little-endian machine.\<close>

definition header_of_bytes :: "byte list \<Rightarrow> COMM_PKG_HEADER" where
  "header_of_bytes bs =
     \<lparr>pkgLen = of_nat (le_val (take 2 bs)),
      msgCode = of_nat (le_val (take 2 (drop 2 bs))),
      crc32 = of_nat (le_val (take 4 (drop 4 bs)))\<rparr>"

text \<open>The bytes of the struct in memory.\<close>

definition bytes_of_header :: "COMM_PKG_HEADER \<Rightarrow> byte list" where
  "bytes_of_header h =
     le_bytes 2 (unat (pkgLen h)) @ le_bytes 2 (unat (msgCode h)) @ le_bytes 4 (unat (crc32 h))"

definition ntohs :: "u16 \<Rightarrow> u16" where
  "ntohs w = push_bit 8 w OR drop_bit 8 w"

definition htons :: "u16 \<Rightarrow> u16" where
  "htons w = push_bit 8 w OR drop_bit 8 w"

lemma header_roundtrip: "header_of_bytes (bytes_of_header h) = h"
proof -
  have "le_val (le_bytes 2 (unat (w :: u16))) = unat w" for w
    by (rule le_val_le_bytes) (use unsigned_less [of w] in simp)
  moreover have "le_val (le_bytes 4 (unat (w :: u32))) = unat w" for w
    by (rule le_val_le_bytes) (use unsigned_less [of w] in simp)
  ultimately show ?thesis
    by (cases h) (simp add: header_of_bytes_def bytes_of_header_def)
qed

lemma length_bytes_of_header [simp]: "length (bytes_of_header h) = sizeof_COMM_PKG_HEADER"
  by (simp add: bytes_of_header_def sizeof_COMM_PKG_HEADER_def)

lemma ntohs_htons: "ntohs (htons w) = w"
  by (rule bit_word_eqI) (auto simp: ntohs_def htons_def bit_simps)

text \<open>
  The length a header announces, as \<open>e_pkgLen\<close>: the first two bytes of the wire format are
  the big-endian length.
\<close>

definition e_pkgLen_of :: "byte list \<Rightarrow> nat" where
  "e_pkgLen_of bs = unat (ntohs (pkgLen (header_of_bytes bs)))"

lemma e_pkgLen_of_less: "e_pkgLen_of bs < 65536"
  using unsigned_less [of "ntohs (pkgLen (header_of_bytes bs))"] by (simp add: e_pkgLen_of_def)

lemma e_pkgLen_of_take: "2 \<le> n \<Longrightarrow> e_pkgLen_of (take n bs) = e_pkgLen_of bs"
  by (simp add: e_pkgLen_of_def header_of_bytes_def min_absorb1)

text \<open>The first two bytes of a package are its length, most significant byte first.\<close>

lemma unat_of_nat_u16: "n < 65536 \<Longrightarrow> unat (of_nat n :: u16) = n"
  by (simp add: unat_of_nat take_bit_nat_eq_self)

lemma ntohs_of_nat:
  assumes "a < 256" "b < 256"
  shows "unat (ntohs (of_nat (a + 256 * b))) = 256 * a + b"
proof -
  let ?w = "of_nat (a + 256 * b) :: u16"
  have w: "unat ?w = a + 256 * b"
    by (rule unat_of_nat_u16) (use assms in simp)
  have "push_bit 8 ?w = of_nat (256 * a)"
  proof -
    have "push_bit 8 ?w = of_nat (256 * a + 65536 * b)"
      by (simp add: push_bit_eq_mult algebra_simps)
    also have "\<dots> = of_nat (256 * a)"
    proof -
      have "(65536 :: u16) * of_nat b = 0 * of_nat b"
        by (rule arg_cong [where f = "\<lambda>x. x * of_nat b"]) simp
      then show ?thesis by simp
    qed
    finally show ?thesis .
  qed
  moreover have "drop_bit 8 ?w = of_nat b"
  proof -
    have "unat (drop_bit 8 ?w) = unat (of_nat b :: u16)"
      unfolding unat_drop_bit_eq w using assms by (simp add: drop_bit_eq_div unat_of_nat_u16)
    then show ?thesis by (simp only: word_unat_eq_iff)
  qed
  moreover have "ntohs ?w = push_bit 8 ?w + drop_bit 8 ?w"
    unfolding ntohs_def by (rule disjunctive_add [symmetric]) (auto simp: bit_push_bit_iff bit_drop_bit_eq dest: bit_imp_le_length)
  ultimately have "ntohs ?w = of_nat (256 * a + b)"
    by simp
  moreover have "unat (of_nat (256 * a + b) :: u16) = 256 * a + b"
    by (rule unat_of_nat_u16) (use assms in simp)
  ultimately show ?thesis by (simp only:)
qed

lemma e_pkgLen_of_be: "2 \<le> length bs \<Longrightarrow> e_pkgLen_of bs = 256 * unat (bs ! 0) + unat (bs ! 1)"
proof -
  assume "2 \<le> length bs"
  then obtain x y zs where bs: "bs = x # y # zs"
    by (cases bs; cases "tl bs") auto
  show ?thesis
    using ntohs_of_nat [OF unat_byte_less unat_byte_less, of x y]
    by (simp add: bs e_pkgLen_of_def header_of_bytes_def numeral_2_eq_2)
qed
end
