(* ===== verification/Xfly_Memory.thy ===== *)
theory Xfly_Memory
  imports Prelude
begin

text \<open>
  \<open>misc/xfly_memory.cpp\<close>: the \<open>Memory\<close> singleton, through which the server allocates and
  frees message buffers with \<open>new char[n]\<close> and \<open>delete[]\<close>. The heap is a map from block
  addresses to blocks of cells. A block is given an address that was never used before, so a
  dangling pointer never aliases a live block and its use is detected. The locale
  \<open>block_allocator\<close> states what the users of \<open>Memory\<close> rely on.
\<close>

type_synonym addr = nat

record heap_state =
  heap :: "addr \<rightharpoonup> cell list"
  next_addr :: addr

section \<open>Operations\<close>

definition AllocMemory :: "int \<Rightarrow> bool \<Rightarrow> 's heap_state_scheme \<Rightarrow> (addr \<times> 's heap_state_scheme) res" where
  "AllocMemory memCount ifmemset s =
     (if memCount < 0 then Inl (Fault Bad_alloc)
      else let tmpData = next_addr s;
               block = replicate (nat memCount) (if ifmemset then Some 0 else None)
           in Inr (tmpData, s\<lparr>heap := (heap s)(tmpData \<mapsto> block), next_addr := Suc tmpData\<rparr>))"

text \<open>\<open>delete[]\<close> of a null pointer does nothing; of a block that is not live it is undefined.\<close>

definition FreeMemory :: "addr option \<Rightarrow> 's heap_state_scheme \<Rightarrow> 's heap_state_scheme res" where
  "FreeMemory point s =
     (case point of
        None \<Rightarrow> Inr s
      | Some a \<Rightarrow>
          (case heap s a of
             None \<Rightarrow> Inl (Fault Use_after_free)
           | Some block \<Rightarrow> Inr (s\<lparr>heap := (heap s)(a := None)\<rparr>)))"

text \<open>Writing bytes at an offset of a block (\<open>memcpy\<close>, a store through a cast pointer).\<close>

definition store_bytes ::
  "addr \<Rightarrow> nat \<Rightarrow> byte list \<Rightarrow> 's heap_state_scheme \<Rightarrow> 's heap_state_scheme res" where
  "store_bytes a off bs s =
     (case heap s a of
        None \<Rightarrow> Inl (Fault Use_after_free)
      | Some block \<Rightarrow>
          if off + length bs \<le> length block
          then Inr (s\<lparr>heap := (heap s)(a \<mapsto> overwrite off (map Some bs) block)\<rparr>)
          else Inl (Fault Out_of_bounds))"

text \<open>Reading bytes at an offset of a block.\<close>

definition load_bytes :: "addr \<Rightarrow> nat \<Rightarrow> nat \<Rightarrow> 's heap_state_scheme \<Rightarrow> byte list res" where
  "load_bytes a off n s =
     (case heap s a of
        None \<Rightarrow> Inl (Fault Use_after_free)
      | Some block \<Rightarrow>
          if off + n \<le> length block
          then let cs = take n (drop off block)
               in if list_all (\<lambda>c. c \<noteq> None) cs then Inr (map the cs) else Inl (Fault Uninit_read)
          else Inl (Fault Out_of_bounds))"

section \<open>Invariant and behaviour\<close>

definition heap_wf :: "'s heap_state_scheme \<Rightarrow> bool" where
  "heap_wf s \<longleftrightarrow> (\<forall>a \<in> dom (heap s). a < next_addr s)"

lemma AllocMemory_Inr:
  "0 \<le> n \<Longrightarrow> AllocMemory n z s = Inr (next_addr s,
     s\<lparr>heap := (heap s)(next_addr s \<mapsto> replicate (nat n) (if z then Some 0 else None)),
       next_addr := Suc (next_addr s)\<rparr>)"
  by (simp add: AllocMemory_def Let_def)

lemma FreeMemory_None [simp, res_simps]: "FreeMemory None s = Inr s"
  by (simp add: FreeMemory_def)

lemma FreeMemory_live:
  "a \<in> dom (heap s) \<Longrightarrow> FreeMemory (Some a) s = Inr (s\<lparr>heap := (heap s)(a := None)\<rparr>)"
  by (auto simp: FreeMemory_def)

lemma FreeMemory_dead: "heap s a = None \<Longrightarrow> FreeMemory (Some a) s = Inl (Fault Use_after_free)"
  by (simp add: FreeMemory_def)

lemma store_bytes_Inr:
  "heap s a = Some block \<Longrightarrow> off + length bs \<le> length block
   \<Longrightarrow> store_bytes a off bs s = Inr (s\<lparr>heap := (heap s)(a \<mapsto> overwrite off (map Some bs) block)\<rparr>)"
  by (simp add: store_bytes_def)

text \<open>Reading back what was written.\<close>

lemma load_store_bytes:
  assumes "store_bytes a off bs s = Inr s'"
  shows "load_bytes a off (length bs) s' = Inr bs"
proof -
  obtain block where block: "heap s a = Some block" "off + length bs \<le> length block"
      "s' = s\<lparr>heap := (heap s)(a \<mapsto> overwrite off (map Some bs) block)\<rparr>"
    using assms by (auto simp: store_bytes_def split: option.splits if_splits)
  have "take (length bs) (drop off (overwrite off (map Some bs) block)) = map Some bs"
    using block(2) by (simp add: overwrite_def min_absorb2)
  then show ?thesis
    using block by (simp add: load_bytes_def Let_def list_all_iff o_def)
qed

section \<open>The interface\<close>

text \<open>
  What the callers of \<open>Memory\<close> rely on: an allocation returns a block that was not live, a
  free makes exactly its block dead, and freeing a live block always succeeds.
\<close>

locale block_allocator =
  fixes alloc :: "int \<Rightarrow> bool \<Rightarrow> 's \<Rightarrow> (addr \<times> 's) res"
    and free :: "addr option \<Rightarrow> 's \<Rightarrow> 's res"
    and live :: "'s \<Rightarrow> addr set"
    and wf :: "'s \<Rightarrow> bool"
  assumes alloc_fresh: "wf s \<Longrightarrow> alloc n z s = Inr (a, s') \<Longrightarrow> a \<notin> live s"
    and alloc_live: "wf s \<Longrightarrow> alloc n z s = Inr (a, s') \<Longrightarrow> live s' = insert a (live s)"
    and alloc_wf: "wf s \<Longrightarrow> alloc n z s = Inr (a, s') \<Longrightarrow> wf s'"
    and alloc_total: "0 \<le> n \<Longrightarrow> \<exists>a s'. alloc n z s = Inr (a, s')"
    and free_total: "a \<in> live s \<Longrightarrow> \<exists>s'. free (Some a) s = Inr s'"
    and free_live: "free (Some a) s = Inr s' \<Longrightarrow> live s' = live s - {a}"
    and free_wf: "wf s \<Longrightarrow> free p s = Inr s' \<Longrightarrow> wf s'"
begin

text \<open>Freeing a list of blocks one after the other, as the queue-clearing loops do.\<close>

primrec free_list :: "addr list \<Rightarrow> 's \<Rightarrow> 's res" where
  "free_list [] s = Inr s"
| "free_list (a # as) s = bind_res (free (Some a) s) (free_list as)"

lemma free_list_total:
  "distinct as \<Longrightarrow> set as \<subseteq> live s
   \<Longrightarrow> \<exists>s'. free_list as s = Inr s' \<and> live s' = live s - set as"
proof (induction as arbitrary: s)
  case Nil
  then show ?case by simp
next
  case (Cons a as)
  then obtain s1 where s1: "free (Some a) s = Inr s1"
    using free_total [of a s] by auto
  have "set as \<subseteq> live s1"
    using Cons.prems free_live [OF s1] by auto
  then obtain s2 where "free_list as s1 = Inr s2" "live s2 = live s1 - set as"
    using Cons.IH [of s1] Cons.prems by auto
  then show ?case
    using s1 free_live [OF s1] by auto
qed

lemma free_list_wf: "wf s \<Longrightarrow> free_list as s = Inr s' \<Longrightarrow> wf s'"
  by (induction as arbitrary: s) (auto simp: bind_res_eq_Inr intro: free_wf)

lemma alloc_then_free:
  assumes "wf s" "alloc n z s = Inr (a, s1)"
  shows "\<exists>s2. free (Some a) s1 = Inr s2 \<and> live s2 = live s \<and> wf s2"
proof -
  have l1: "live s1 = insert a (live s)" "a \<notin> live s" "wf s1"
    using assms by (auto intro: alloc_wf dest: alloc_live alloc_fresh)
  then obtain s2 where "free (Some a) s1 = Inr s2"
    using free_total [of a s1] by auto
  then show ?thesis
    using l1 free_live [of a s1 s2] free_wf [of s1 "Some a" s2] by auto
qed

end

interpretation xm: block_allocator AllocMemory FreeMemory "\<lambda>s. dom (heap s)" heap_wf
proof unfold_locales
  fix s s' :: "'s heap_state_scheme" and n z a
  show "heap_wf s \<Longrightarrow> AllocMemory n z s = Inr (a, s') \<Longrightarrow> a \<notin> dom (heap s)"
    by (auto simp: AllocMemory_def heap_wf_def Let_def split: if_splits)
  show "heap_wf s \<Longrightarrow> AllocMemory n z s = Inr (a, s') \<Longrightarrow> dom (heap s') = insert a (dom (heap s))"
    by (auto simp: AllocMemory_def Let_def split: if_splits)
  show "heap_wf s \<Longrightarrow> AllocMemory n z s = Inr (a, s') \<Longrightarrow> heap_wf s'"
    by (auto simp: AllocMemory_def heap_wf_def Let_def less_Suc_eq split: if_splits)
  show "0 \<le> n \<Longrightarrow> \<exists>a s'. AllocMemory n z s = Inr (a, s')"
    by (simp add: AllocMemory_Inr)
  show "a \<in> dom (heap s) \<Longrightarrow> \<exists>s'. FreeMemory (Some a) s = Inr s'"
    by (simp add: FreeMemory_live)
  show "FreeMemory (Some a) s = Inr s' \<Longrightarrow> dom (heap s') = dom (heap s) - {a}"
    by (auto simp: FreeMemory_def split: option.splits if_splits)
next
  fix s s' :: "'s heap_state_scheme" and p
  show "heap_wf s \<Longrightarrow> FreeMemory p s = Inr s' \<Longrightarrow> heap_wf s'"
    by (cases p) (auto simp: FreeMemory_def heap_wf_def split: option.splits if_splits)
qed

end
