(* ===== verification/Socket_State.thy ===== *)
theory Socket_State
  imports Xfly_Comm Xfly_Memory
begin

text \<open>
  \<open>_include/xfly_socket.h\<close>: the data of the network component. A pointer to a connection is
  the index of the connection in the pool \<open>m_pconnections\<close> points to, a pointer to a listening
  object its index in \<open>m_listenSocketList\<close>; \<open>conn_addr\<close> gives the machine address of a pool
  element where the code turns the pointer into an integer. The operating system is a
  parameter: an \<open>os\<close> record of system calls over an opaque kernel state.
\<close>

section \<open>Error numbers and event bits (Linux)\<close>

abbreviation (input) EINTR :: int where "EINTR \<equiv> 4"
abbreviation (input) EAGAIN :: int where "EAGAIN \<equiv> 11"
abbreviation (input) EWOULDBLOCK :: int where "EWOULDBLOCK \<equiv> 11"
abbreviation (input) ENFILE :: int where "ENFILE \<equiv> 23"
abbreviation (input) EMFILE :: int where "EMFILE \<equiv> 24"
abbreviation (input) ENOSYS :: int where "ENOSYS \<equiv> 38"
abbreviation (input) ECONNABORTED :: int where "ECONNABORTED \<equiv> 103"
abbreviation (input) ECONNRESET :: int where "ECONNRESET \<equiv> 104"

abbreviation (input) EPOLLIN :: u32 where "EPOLLIN \<equiv> 1"
abbreviation (input) EPOLLOUT :: u32 where "EPOLLOUT \<equiv> 4"
abbreviation (input) EPOLLERR :: u32 where "EPOLLERR \<equiv> 8"
abbreviation (input) EPOLLHUP :: u32 where "EPOLLHUP \<equiv> 16"
abbreviation (input) EPOLLRDHUP :: u32 where "EPOLLRDHUP \<equiv> 8192"
abbreviation (input) EPOLL_CTL_ADD :: int where "EPOLL_CTL_ADD \<equiv> 1"

definition XFLY_LISTEN_BACKLOG :: int where "XFLY_LISTEN_BACKLOG = 511"

definition XFLY_MAX_EVENTS :: nat where "XFLY_MAX_EVENTS = 512"

section \<open>Connections and listening sockets\<close>

text \<open>The member functions an event handler pointer is ever set to.\<close>

datatype event_handler = Event_accept | Wait_request_handler

text \<open>
  Where \<open>precvbuf\<close> may point: nowhere, into the \<open>dataHeadInfo\<close> array of a connection, or into
  a block of the heap; each with an offset.
\<close>

datatype recv_ptr = Null_buf | Head_buf nat nat | Mem_buf addr nat

record listening =
  l_port :: int
  l_fd :: int
  l_connection :: "nat option"

record connection =
  c_fd :: int
  c_listening :: "nat option"
  c_instance :: bool
  c_iCurrsequence :: u64
  c_sockaddr :: "byte list"
  w_ready :: u8
  rhandler :: "event_handler option"
  whandler :: "event_handler option"
  curStat :: u8
  dataHeadInfo :: "byte list"
  precvbuf :: recv_ptr
  irecvlen :: u32
  ifnewrecvMem :: bool
  pnewMemPointer :: "addr option"
  c_data :: "nat option"

text \<open>\<open>memset(c, 0, sizeof(connection_t))\<close>.\<close>

definition zero_connection :: connection where
  "zero_connection =
     \<lparr>c_fd = 0, c_listening = None, c_instance = False, c_iCurrsequence = 0,
      c_sockaddr = replicate 16 0, w_ready = 0, rhandler = None, whandler = None,
      curStat = 0, dataHeadInfo = replicate DATA_BUFSIZE 0, precvbuf = Null_buf, irecvlen = 0,
      ifnewrecvMem = False, pnewMemPointer = None, c_data = None\<rparr>"

text \<open>
  \<open>sizeof(connection_t)\<close> and \<open>sizeof(STRUC_MSG_HEADER)\<close> with the x86-64 layout of the structs.
\<close>

definition sizeof_connection :: nat where "sizeof_connection = 144"

definition sizeof_STRUC_MSG_HEADER :: nat where "sizeof_STRUC_MSG_HEADER = 16"

section \<open>Log statements\<close>

datatype log_level = L_DBG | L_INF | L_WRN | L_ERR | L_OFF

text \<open>One constructor per log statement of the component, with the values it prints.\<close>

datatype log_msg =
    Create_socket_error
  | Setsockopt_error
  | Setnonblocking_error
  | Bind_error
  | Listen_failed
  | Listening_on int
  | Closed_port int
  | Epoll_create_error
  | Get_connection_error
  | Epoll_ctl_error
  | Epoll_wait_failed int
  | Epoll_wait_no_event
  | Get_connection_null
  | Close_error
  | Accept_close_failed
  | Accept_setnonblocking_failed
  | Recvproc_error
  | Package_complete
  | Sock_ntop_not_implemented

datatype log_entry = Log log_level log_msg | Log_poll bool

section \<open>The operating system\<close>

record epoll_event =
  ev_events :: u32
  ev_data :: u64

datatype recv_result = Recv_bytes "byte list" | Recv_err int

text \<open>
  \<open>Accepted s addr\<close>: the new descriptor and the peer's address, whose length is what the call
  stores in \<open>socklen\<close>.
\<close>

datatype accept_result = Accepted int "byte list" | Accept_err int

datatype wait_result = Wait_events "epoll_event list" | Wait_err int

record 'k os =
  sys_recv :: "int \<Rightarrow> int \<Rightarrow> 'k \<Rightarrow> recv_result \<times> 'k"
  sys_close :: "int \<Rightarrow> 'k \<Rightarrow> int \<times> 'k"
  sys_accept4 :: "int \<Rightarrow> 'k \<Rightarrow> accept_result \<times> 'k"
  sys_accept :: "int \<Rightarrow> 'k \<Rightarrow> accept_result \<times> 'k"
  sys_ioctl_fionbio :: "int \<Rightarrow> 'k \<Rightarrow> int \<times> 'k"
  sys_epoll_create :: "int \<Rightarrow> 'k \<Rightarrow> int \<times> 'k"
  sys_epoll_ctl :: "int \<Rightarrow> int \<Rightarrow> int \<Rightarrow> epoll_event \<Rightarrow> 'k \<Rightarrow> int \<times> 'k"
  sys_epoll_wait :: "int \<Rightarrow> nat \<Rightarrow> int \<Rightarrow> 'k \<Rightarrow> wait_result \<times> 'k"
  sys_socket :: "'k \<Rightarrow> int \<times> 'k"
  sys_setsockopt_reuseaddr :: "int \<Rightarrow> 'k \<Rightarrow> int \<times> 'k"
  sys_bind :: "int \<Rightarrow> u16 \<Rightarrow> 'k \<Rightarrow> int \<times> 'k"
  sys_listen :: "int \<Rightarrow> int \<Rightarrow> 'k \<Rightarrow> int \<times> 'k"

section \<open>The state of the component\<close>

text \<open>
  The members of \<open>CSocket\<close>, then what its functions reach outside the object: the heap (the
  record it extends), the static variable \<open>use_accept4\<close> of \<open>event_accept\<close>, the kernel and
  the log. \<open>m_pconnections\<close> is the address of the connection array (0 for null) and
  \<open>pool\<close> its elements.
\<close>

record 'k csocket = heap_state +
  m_worker_connections :: int
  m_listenPortCount :: int
  m_epollhandle :: int
  m_pconnections :: u64
  pool :: "connection list"
  m_pfree_connections :: "nat option"
  m_connection_n :: int
  m_free_connection_n :: int
  m_listenSocketList :: "listening list"
  m_iLenPkgHeader :: nat
  m_iLenMsgHeader :: nat
  m_MsgRecvQueue :: "addr option list"
  use_accept4 :: bool
  kern :: 'k
  logs :: "log_entry list"

definition put_log :: "log_level \<Rightarrow> log_msg \<Rightarrow> 'k csocket \<Rightarrow> 'k csocket" where
  "put_log lv m s = s\<lparr>logs := logs s @ [Log lv m]\<rparr>"

definition put_poll :: "bool \<Rightarrow> 'k csocket \<Rightarrow> 'k csocket" where
  "put_poll b s = s\<lparr>logs := logs s @ [Log_poll b]\<rparr>"

text \<open>Dereferencing and updating the connection a pointer refers to.\<close>

definition conn_at :: "'k csocket \<Rightarrow> nat \<Rightarrow> connection res" where
  "conn_at s i = (if i < length (pool s) then Inr (pool s ! i) else Inl (Fault Out_of_bounds))"

definition upd_conn :: "nat \<Rightarrow> (connection \<Rightarrow> connection) \<Rightarrow> 'k csocket \<Rightarrow> 'k csocket" where
  "upd_conn i f s = s\<lparr>pool := (pool s)[i := f (pool s ! i)]\<rparr>"

definition conn_addr :: "u64 \<Rightarrow> nat \<Rightarrow> u64" where
  "conn_addr base i = base + of_nat (sizeof_connection * i)"

lemma conn_at_Inr [simp, res_simps]: "i < length (pool s) \<Longrightarrow> conn_at s i = Inr (pool s ! i)"
  by (simp add: conn_at_def)

lemma conn_at_eq_Inr [res_simps]: "conn_at s i = Inr c \<longleftrightarrow> i < length (pool s) \<and> c = pool s ! i"
  by (auto simp: conn_at_def)

lemma put_log_frame [simp, frame_simps]:
  "heap (put_log l m s) = heap s" "next_addr (put_log l m s) = next_addr s"
  "pool (put_log l m s) = pool s" "m_pfree_connections (put_log l m s) = m_pfree_connections s"
  "m_free_connection_n (put_log l m s) = m_free_connection_n s"
  "m_connection_n (put_log l m s) = m_connection_n s"
  "m_pconnections (put_log l m s) = m_pconnections s"
  "m_epollhandle (put_log l m s) = m_epollhandle s"
  "m_worker_connections (put_log l m s) = m_worker_connections s"
  "m_listenPortCount (put_log l m s) = m_listenPortCount s"
  "m_listenSocketList (put_log l m s) = m_listenSocketList s"
  "m_iLenPkgHeader (put_log l m s) = m_iLenPkgHeader s"
  "m_iLenMsgHeader (put_log l m s) = m_iLenMsgHeader s"
  "m_MsgRecvQueue (put_log l m s) = m_MsgRecvQueue s"
  "use_accept4 (put_log l m s) = use_accept4 s" "kern (put_log l m s) = kern s"
  by (simp_all add: put_log_def)

lemma upd_conn_frame [simp, frame_simps]:
  "heap (upd_conn i f s) = heap s" "next_addr (upd_conn i f s) = next_addr s"
  "m_pfree_connections (upd_conn i f s) = m_pfree_connections s"
  "m_free_connection_n (upd_conn i f s) = m_free_connection_n s"
  "m_connection_n (upd_conn i f s) = m_connection_n s"
  "m_pconnections (upd_conn i f s) = m_pconnections s"
  "m_epollhandle (upd_conn i f s) = m_epollhandle s"
  "m_worker_connections (upd_conn i f s) = m_worker_connections s"
  "m_listenPortCount (upd_conn i f s) = m_listenPortCount s"
  "m_listenSocketList (upd_conn i f s) = m_listenSocketList s"
  "m_iLenPkgHeader (upd_conn i f s) = m_iLenPkgHeader s"
  "m_iLenMsgHeader (upd_conn i f s) = m_iLenMsgHeader s"
  "m_MsgRecvQueue (upd_conn i f s) = m_MsgRecvQueue s"
  "use_accept4 (upd_conn i f s) = use_accept4 s" "kern (upd_conn i f s) = kern s"
  "logs (upd_conn i f s) = logs s"
  by (simp_all add: upd_conn_def)

lemma pool_upd_conn [simp]: "pool (upd_conn i f s) = (pool s)[i := f (pool s ! i)]"
  by (simp add: upd_conn_def)

end
