(* ===== verification/Socket_Conn.thy ===== *)
theory Socket_Conn
  imports Socket_State
begin

text \<open>
  \<open>net/xfly_socket_conn.cpp\<close>: the connection pool. The free connections form a linked list
  through their \<open>data\<close> members; \<open>get_connection\<close> takes its head and \<open>free_connection\<close> pushes
  onto it. The list of indices of the free connections, in order, is the abstract value of the
  pool (\<open>free_chain\<close>); the locale \<open>free_pool\<close> states the pool's contract over it.
\<close>

section \<open>Operations\<close>

definition get_connection :: "int \<Rightarrow> 'k csocket \<Rightarrow> (nat option \<times> 'k csocket) res" where
  "get_connection isock s =
     (case m_pfree_connections s of
        None \<Rightarrow> Inr (None, put_log L_ERR Get_connection_null s)
      | Some i \<Rightarrow>
          bind_res (conn_at s i) (\<lambda>c.
            let s1 = s\<lparr>m_pfree_connections := c_data c,
                       m_free_connection_n := m_free_connection_n s - 1\<rparr>;
                inst = c_instance c;
                seqno = c_iCurrsequence c;
                c1 = zero_connection
                       \<lparr>c_fd := isock,
                        curStat := PKG_HD_INIT,
                        precvbuf := Head_buf i 0,
                        irecvlen := of_nat sizeof_COMM_PKG_HEADER,
                        ifnewrecvMem := False,
                        pnewMemPointer := None,
                        c_instance := \<not> inst,
                        c_iCurrsequence := seqno + 1\<rparr>
            in Inr (Some i, upd_conn i (\<lambda>_. c1) s1)))"

definition free_connection :: "nat \<Rightarrow> 'k csocket \<Rightarrow> 'k csocket res" where
  "free_connection i s =
     bind_res (conn_at s i) (\<lambda>c.
       bind_res
         (if ifnewrecvMem c
          then bind_res (FreeMemory (pnewMemPointer c) s) (\<lambda>s1.
                 Inr (upd_conn i (\<lambda>c. c\<lparr>ifnewrecvMem := False, pnewMemPointer := None\<rparr>) s1))
          else Inr s)
         (\<lambda>s2. let s3 = upd_conn i (\<lambda>c. c\<lparr>c_data := m_pfree_connections s2,
                                           c_iCurrsequence := c_iCurrsequence c + 1\<rparr>) s2
               in Inr (s3\<lparr>m_pfree_connections := Some i,
                           m_free_connection_n := m_free_connection_n s3 + 1\<rparr>)))"

definition close_connection :: "'k os \<Rightarrow> nat \<Rightarrow> 'k csocket \<Rightarrow> 'k csocket res" where
  "close_connection os i s =
     bind_res (conn_at s i) (\<lambda>c.
       let (r, k) = sys_close os (c_fd c) (kern s);
           s1 = s\<lparr>kern := k\<rparr>;
           s2 = (if r = -1 then put_log L_ERR Close_error s1 else s1);
           s3 = upd_conn i (\<lambda>c. c\<lparr>c_fd := -1\<rparr>) s2
       in free_connection i s3)"

section \<open>The free list\<close>

primrec free_chain :: "connection list \<Rightarrow> nat option \<Rightarrow> nat list \<Rightarrow> bool" where
  "free_chain cs p [] \<longleftrightarrow> p = None"
| "free_chain cs p (i # is) \<longleftrightarrow> p = Some i \<and> i < length cs \<and> free_chain cs (c_data (cs ! i)) is"

lemma free_chain_update [simp]:
  "j \<notin> set is \<Longrightarrow> free_chain (cs[j := c]) p is = free_chain cs p is"
  by (induction "is" arbitrary: p) (auto simp: nth_list_update)

lemma free_chain_same_data:
  "(\<And>i. i \<in> set is \<Longrightarrow> c_data (ds ! i) = c_data (cs ! i)) \<Longrightarrow> length ds = length cs
   \<Longrightarrow> free_chain ds p is = free_chain cs p is"
  by (induction "is" arbitrary: p) auto

lemma free_chain_unique: "free_chain cs p is \<Longrightarrow> free_chain cs p js \<Longrightarrow> is = js"
proof (induction "is" arbitrary: p js)
  case Nil
  then show ?case by (cases js) auto
next
  case (Cons i "is")
  then show ?case by (cases js) auto
qed

lemma free_chain_bound: "free_chain cs p is \<Longrightarrow> i \<in> set is \<Longrightarrow> i < length cs"
  by (induction "is" arbitrary: p) auto

text \<open>
  The pool is well formed with free list \<open>is\<close>: the chain from \<open>m_pfree_connections\<close> visits
  exactly \<open>is\<close>, without repetition, and both counters agree with it. A connection is free
  exactly when its descriptor is \<open>-1\<close>, which is what the event loop tests.
\<close>

definition pool_wf :: "nat list \<Rightarrow> 'k csocket \<Rightarrow> bool" where
  "pool_wf is s \<longleftrightarrow>
     free_chain (pool s) (m_pfree_connections s) is \<and> distinct is \<and>
     m_free_connection_n s = int (length is) \<and>
     m_connection_n s = int (length (pool s)) \<and>
     (\<forall>i < length (pool s). c_fd (pool s ! i) = -1 \<longleftrightarrow> i \<in> set is)"

lemma pool_wf_unique: "pool_wf is s \<Longrightarrow> pool_wf js s \<Longrightarrow> is = js"
  by (auto simp: pool_wf_def dest: free_chain_unique)

lemma pool_wf_bound: "pool_wf is s \<Longrightarrow> i \<in> set is \<Longrightarrow> i < length (pool s)"
  by (auto simp: pool_wf_def dest: free_chain_bound)

section \<open>What the operations do\<close>

text \<open>The connection \<open>get_connection\<close> hands out, given the free one it found.\<close>

definition fresh_connection :: "nat \<Rightarrow> int \<Rightarrow> connection \<Rightarrow> connection" where
  "fresh_connection i isock c =
     zero_connection
       \<lparr>c_fd := isock, curStat := PKG_HD_INIT, precvbuf := Head_buf i 0,
        irecvlen := 8, ifnewrecvMem := False, pnewMemPointer := None,
        c_instance := \<not> c_instance c, c_iCurrsequence := c_iCurrsequence c + 1\<rparr>"

lemma get_connection_empty:
  "pool_wf [] s \<Longrightarrow> get_connection isock s = Inr (None, put_log L_ERR Get_connection_null s)"
  by (simp add: get_connection_def pool_wf_def)

lemma get_connection_Cons:
  assumes "pool_wf (i # is) s"
  shows "get_connection isock s =
     Inr (Some i, s\<lparr>m_pfree_connections := c_data (pool s ! i),
                    m_free_connection_n := int (length is),
                    pool := (pool s)[i := fresh_connection i isock (pool s ! i)]\<rparr>)"
  using assms
  by (simp add: get_connection_def pool_wf_def upd_conn_def fresh_connection_def
        sizeof_COMM_PKG_HEADER_def)

lemma get_connection_wf:
  assumes wf: "pool_wf (i # is) s" and fd: "isock \<noteq> -1"
    and get: "get_connection isock s = Inr (r, s')"
  shows "r = Some i \<and> pool_wf is s'"
proof -
  have s': "r = Some i" "s' = s\<lparr>m_pfree_connections := c_data (pool s ! i),
                    m_free_connection_n := int (length is),
                    pool := (pool s)[i := fresh_connection i isock (pool s ! i)]\<rparr>"
    using get get_connection_Cons [OF wf, of isock] by simp_all
  have "c_fd (pool s' ! j) = -1 \<longleftrightarrow> j \<in> set is" if "j < length (pool s')" for j
    using wf fd that s' by (cases "j = i") (auto simp: pool_wf_def fresh_connection_def)
  then show ?thesis
    using wf s' by (simp add: pool_wf_def)
qed

lemma free_connection_plain:
  assumes "i < length (pool s)" "\<not> ifnewrecvMem (pool s ! i)"
  shows "free_connection i s =
    Inr (s\<lparr>pool := (pool s)[i := (pool s ! i)\<lparr>c_data := m_pfree_connections s,
              c_iCurrsequence := c_iCurrsequence (pool s ! i) + 1\<rparr>],
           m_pfree_connections := Some i,
           m_free_connection_n := m_free_connection_n s + 1\<rparr>)"
  using assms by (simp add: free_connection_def upd_conn_def)

lemma free_connection_mem:
  assumes "i < length (pool s)" "ifnewrecvMem (pool s ! i)" "pnewMemPointer (pool s ! i) = Some a"
    "a \<in> dom (heap s)"
  shows "free_connection i s =
    Inr (s\<lparr>heap := (heap s)(a := None),
           pool := (pool s)[i := (pool s ! i)\<lparr>ifnewrecvMem := False, pnewMemPointer := None,
              c_data := m_pfree_connections s,
              c_iCurrsequence := c_iCurrsequence (pool s ! i) + 1\<rparr>],
           m_pfree_connections := Some i,
           m_free_connection_n := m_free_connection_n s + 1\<rparr>)"
  using assms by (simp add: free_connection_def FreeMemory_live upd_conn_def)

section \<open>The contract of the pool\<close>

text \<open>
  A pool of \<open>cap s\<close> connections with free list \<open>fl\<close>: taking one removes the head of the list
  and fails only on the empty list; giving one back puts it at the head.
\<close>

locale free_pool =
  fixes get :: "int \<Rightarrow> 's \<Rightarrow> (nat option \<times> 's) res"
    and release :: "nat \<Rightarrow> 's \<Rightarrow> 's res"
    and wf :: "nat list \<Rightarrow> 's \<Rightarrow> bool"
    and cap :: "'s \<Rightarrow> nat"
  assumes wf_distinct: "wf fl s \<Longrightarrow> distinct fl"
    and wf_bound: "wf fl s \<Longrightarrow> i \<in> set fl \<Longrightarrow> i < cap s"
    and get_none: "wf [] s \<Longrightarrow> \<exists>s'. get fd s = Inr (None, s') \<and> wf [] s' \<and> cap s' = cap s"
    and get_some: "wf (i # fl) s \<Longrightarrow> fd \<noteq> -1
        \<Longrightarrow> \<exists>s'. get fd s = Inr (Some i, s') \<and> wf fl s' \<and> cap s' = cap s"
    and release_used: "wf fl s \<Longrightarrow> i < cap s \<Longrightarrow> i \<notin> set fl
        \<Longrightarrow> \<exists>s'. release i s = Inr s' \<and> wf (i # fl) s' \<and> cap s' = cap s"
begin

text \<open>A connection given back is the next one handed out.\<close>

lemma release_then_get:
  assumes "wf fl s" "i < cap s" "i \<notin> set fl" "fd \<noteq> -1"
  shows "\<exists>s1 s2. release i s = Inr s1 \<and> get fd s1 = Inr (Some i, s2) \<and> wf fl s2"
proof -
  obtain s1 where "release i s = Inr s1" "wf (i # fl) s1"
    using release_used [OF assms(1-3)] by blast
  then show ?thesis
    using get_some [of i fl s1 fd] assms(4) by blast
qed

lemma get_then_release:
  assumes wf: "wf (i # fl) s" and fd: "fd \<noteq> -1"
  shows "\<exists>s1 s2. get fd s = Inr (Some i, s1) \<and> release i s1 = Inr s2 \<and> wf (i # fl) s2"
proof -
  obtain s1 where s1: "get fd s = Inr (Some i, s1)" "wf fl s1" "cap s1 = cap s"
    using get_some [OF wf fd] by blast
  have "i < cap s1" "i \<notin> set fl"
    using wf_bound [OF wf] wf_distinct [OF wf] s1(3) by auto
  then show ?thesis
    using s1 release_used [of fl s1 i] by blast
qed

text \<open>Taking a connection for each of a list of descriptors.\<close>

primrec get_all :: "int list \<Rightarrow> 's \<Rightarrow> (nat option list \<times> 's) res" where
  "get_all [] s = Inr ([], s)"
| "get_all (fd # fds) s =
     bind_res (get fd s) (\<lambda>(r, s1). bind_res (get_all fds s1) (\<lambda>(rs, s2). Inr (r # rs, s2)))"

lemma get_all_in_order:
  assumes "wf fl s" "-1 \<notin> set fds" "length fds \<le> length fl"
  shows "\<exists>s'. get_all fds s = Inr (map Some (take (length fds) fl), s') \<and>
              wf (drop (length fds) fl) s' \<and> cap s' = cap s"
  using assms
proof (induction fds arbitrary: fl s)
  case Nil
  then show ?case by simp
next
  case (Cons fd fds)
  then obtain i fl' where fl: "fl = i # fl'"
    by (cases fl) auto
  then obtain s1 where s1: "get fd s = Inr (Some i, s1)" "wf fl' s1" "cap s1 = cap s"
    using get_some [of i fl' s fd] Cons.prems by auto
  then show ?case
    using Cons.IH [of fl' s1] Cons.prems fl by auto
qed

lemma get_all_exhausts:
  assumes "wf fl s" "-1 \<notin> set fds" "length fds = length fl"
  shows "\<exists>s1 s2. get_all fds s = Inr (map Some fl, s1) \<and> get fd s1 = Inr (None, s2) \<and> wf [] s2"
proof -
  obtain s1 where s1: "get_all fds s = Inr (map Some fl, s1)" "wf [] s1"
    using get_all_in_order [OF assms(1,2)] assms(3) by auto
  then show ?thesis
    using get_none [of s1 fd] by blast
qed

end

end
