(* ===== verification/Socket_Event.thy ===== *)
theory Socket_Event
  imports Socket_Conn
begin

text \<open>
  Registering connections with epoll (\<open>setnonblocking\<close> and \<open>epoll_add_event\<close> of
  \<open>net/xfly_socket.cpp\<close>) and the tagged pointers the events carry: the address of the
  connection with its \<open>instance\<close> bit in the lowest, always zero, bit.
\<close>

section \<open>Operations\<close>

text \<open>
  The failure of \<open>ioctl\<close> is \<open>-1\<close>; the code compares its result with 1.
\<close>

definition setnonblocking :: "'k os \<Rightarrow> int \<Rightarrow> 'k csocket \<Rightarrow> bool \<times> 'k csocket" where
  "setnonblocking os sockfd s =
     (let (r, k) = sys_ioctl_fionbio os sockfd (kern s)
      in if r = 1 then (False, s\<lparr>kern := k\<rparr>) else (True, s\<lparr>kern := k\<rparr>))"

definition tag_ptr :: "u64 \<Rightarrow> bool \<Rightarrow> u64" where
  "tag_ptr c inst = c OR of_bool inst"

definition epoll_add_event ::
  "'k os \<Rightarrow> int \<Rightarrow> int \<Rightarrow> int \<Rightarrow> u32 \<Rightarrow> int \<Rightarrow> nat \<Rightarrow> 'k csocket \<Rightarrow> (int \<times> 'k csocket) res" where
  "epoll_add_event os fd readevent writeevent otherflag eventtype c s =
     bind_res (conn_at s c) (\<lambda>conn.
       let events0 = (if readevent = 1 then EPOLLIN OR EPOLLRDHUP else 0);
           events1 = (if otherflag \<noteq> 0 then events0 OR otherflag else events0);
           ev = \<lparr>ev_events = events1,
                 ev_data = tag_ptr (conn_addr (m_pconnections s) c) (c_instance conn)\<rparr>;
           (r, k) = sys_epoll_ctl os (m_epollhandle s) eventtype fd ev (kern s);
           s1 = s\<lparr>kern := k\<rparr>
       in if r = -1 then Inr (-1, put_log L_ERR Epoll_ctl_error s1) else Inr (1, s1))"

section \<open>Tagged pointers\<close>

text \<open>The two halves of the pointer an event carries (\<open>epoll_process_event\<close>).\<close>

definition ptr_instance :: "u64 \<Rightarrow> u64" where "ptr_instance c = c AND 1"

definition ptr_untag :: "u64 \<Rightarrow> u64" where "ptr_untag c = c AND NOT 1"

text \<open>The element of the connection array a pointer points to.\<close>

definition ptr_conn :: "u64 \<Rightarrow> nat \<Rightarrow> u64 \<Rightarrow> nat res" where
  "ptr_conn base n c =
     (let off = unat (c - base)
      in if off mod sizeof_connection = 0 \<and> off div sizeof_connection < n
         then Inr (off div sizeof_connection) else Inl (Fault Out_of_bounds))"

text \<open>What \<open>new connection_t[n]\<close> guarantees of its address: aligned, and the array does not wrap.\<close>

definition pool_placed :: "u64 \<Rightarrow> nat \<Rightarrow> bool" where
  "pool_placed base n \<longleftrightarrow> even base \<and> unat base + sizeof_connection * n < 2 ^ 64"

lemma even_conn_addr: "even base \<Longrightarrow> even (conn_addr base i)"
proof -
  assume "even base"
  moreover have "of_nat (sizeof_connection * i) = (2 :: u64) * of_nat (72 * i)"
    by (simp add: sizeof_connection_def)
  ultimately show ?thesis
    unfolding conn_addr_def by (metis dvd_add dvd_triv_left)
qed

lemma ptr_untag_tag: "even c \<Longrightarrow> ptr_untag (tag_ptr c b) = c"
  unfolding ptr_untag_def tag_ptr_def
  by (rule bit_word_eqI) (auto simp: bit_simps bit_0 intro: ccontr)

lemma ptr_instance_tag: "even c \<Longrightarrow> ptr_instance (tag_ptr c b) = of_bool b"
  unfolding ptr_instance_def tag_ptr_def
  by (rule bit_word_eqI) (auto simp: bit_simps bit_0)

lemma ptr_conn_addr:
  assumes "pool_placed base n" "i < n"
  shows "ptr_conn base n (conn_addr base i) = Inr i"
proof -
  have "sizeof_connection * i < 2 ^ 64"
    using assms by (auto simp: pool_placed_def sizeof_connection_def)
  then have "unat (of_nat (sizeof_connection * i) :: u64) = sizeof_connection * i"
    by (rule unat_of_nat_u64)
  then have "unat (conn_addr base i - base) = sizeof_connection * i"
    by (simp only: conn_addr_def add_diff_cancel_left')
  then show ?thesis
    using assms(2) by (simp add: ptr_conn_def sizeof_connection_def)
qed

text \<open>An event's pointer leads back to the connection it was registered for, and to its instance.\<close>

lemma tag_roundtrip:
  assumes "pool_placed base n" "i < n"
  shows "ptr_conn base n (ptr_untag (tag_ptr (conn_addr base i) b)) = Inr i"
    "ptr_instance (tag_ptr (conn_addr base i) b) = of_bool b"
  using assms ptr_conn_addr [OF assms] even_conn_addr [of base i]
  by (simp_all add: ptr_untag_tag ptr_instance_tag pool_placed_def)

end
