(* ===== verification/Socket_Accept.thy ===== *)
theory Socket_Accept
  imports Socket_Event
begin

text \<open>
  \<open>net/xfly_socket_accept.cpp\<close>: \<open>event_accept\<close>, the read handler of the listening connections,
  takes one client per call. The \<open>while\<close> loop goes round again only to fall back from
  \<open>accept4\<close> to \<open>accept\<close>, which clears \<open>use_accept4\<close> for good; \<open>accept_connection\<close> is the part
  of the body after a successful call.
\<close>

definition accept_connection ::
  "'k os \<Rightarrow> nat \<Rightarrow> int \<Rightarrow> byte list \<Rightarrow> 'k csocket \<Rightarrow> 'k csocket res" where
  "accept_connection os oldc sock mysockaddr s =
     bind_res (get_connection sock s) (\<lambda>(newc, s1).
       case newc of
         None \<Rightarrow>
           (let (r, k) = sys_close os sock (kern s1); s2 = s1\<lparr>kern := k\<rparr>
            in Inr (if r = -1 then put_log L_ERR Accept_close_failed s2 else s2))
       | Some i \<Rightarrow>
           if length mysockaddr > 16 then Inl (Fault Out_of_bounds)
           else
             let s2 = upd_conn i (\<lambda>c. c\<lparr>c_sockaddr := overwrite 0 mysockaddr (c_sockaddr c)\<rparr>) s1;
                 (ok, s3) = (if use_accept4 s2 then (True, s2) else setnonblocking os sock s2)
             in if \<not> ok
                then close_connection os i (put_log L_ERR Accept_setnonblocking_failed s3)
                else bind_res (conn_at s3 oldc) (\<lambda>old.
                  let s4 = upd_conn i (\<lambda>c. c\<lparr>c_listening := c_listening old, w_ready := 1,
                                             rhandler := Some Wait_request_handler\<rparr>) s3
                  in bind_res (epoll_add_event os sock 1 0 0 EPOLL_CTL_ADD i s4) (\<lambda>(r, s5).
                       if r = -1 then close_connection os i s5 else Inr s5)))"

function event_accept :: "'k os \<Rightarrow> nat \<Rightarrow> 'k csocket \<Rightarrow> 'k csocket res" where
  "event_accept os oldc s =
     bind_res (conn_at s oldc) (\<lambda>old.
       let (r, k) = (if use_accept4 s then sys_accept4 os (c_fd old) (kern s)
                     else sys_accept os (c_fd old) (kern s));
           s1 = s\<lparr>kern := k\<rparr>
       in case r of
            Accept_err err \<Rightarrow>
              if err = EAGAIN then Inr s1
              else if use_accept4 s1 \<and> err = ENOSYS
              then event_accept os oldc (s1\<lparr>use_accept4 := False\<rparr>)
              else Inr s1
          | Accepted sock mysockaddr \<Rightarrow> accept_connection os oldc sock mysockaddr s1)"
  by pat_completeness auto
termination
  by (relation "measure (\<lambda>(os, oldc, s). if use_accept4 s then 1 else 0)") auto

declare event_accept.simps [simp del]

end
