(* ===== verification/Socket_Request.thy ===== *)
theory Socket_Request
  imports Socket_Conn
begin

text \<open>
  \<open>net/xfly_socket_request.cpp\<close>: receiving packages. \<open>wait_request_handler\<close> is called when data
  is ready on a connection; it reads at most \<open>irecvlen\<close> bytes and advances the four-state
  receive machine; a complete package, prefixed by the message header, goes to
  \<open>m_MsgRecvQueue\<close>, which is cut back to 500 messages when it reaches 1000.
\<close>

section \<open>The message queue\<close>

text \<open>\<open>n\<close> rounds of the loops that take the front message off the queue and free it.\<close>

primrec pop_and_free :: "nat \<Rightarrow> 'k csocket \<Rightarrow> 'k csocket res" where
  "pop_and_free 0 s = Inr s"
| "pop_and_free (Suc n) s =
     (case m_MsgRecvQueue s of
        [] \<Rightarrow> Inl (Fault Out_of_bounds)
      | tmpMsgBuf # rest \<Rightarrow>
          bind_res (FreeMemory tmpMsgBuf (s\<lparr>m_MsgRecvQueue := rest\<rparr>)) (pop_and_free n))"

definition tmpoutMsgRecvQueue :: "'k csocket \<Rightarrow> 'k csocket res" where
  "tmpoutMsgRecvQueue s =
     (if m_MsgRecvQueue s = [] then Inr s
      else let size = int (length (m_MsgRecvQueue s))
           in if size < 1000 then Inr s
              else let cha = size - 500 in pop_and_free (nat cha) s)"

definition inMsgRecvQueue :: "addr option \<Rightarrow> 'k csocket \<Rightarrow> 'k csocket res" where
  "inMsgRecvQueue buf s =
     bind_res (tmpoutMsgRecvQueue (s\<lparr>m_MsgRecvQueue := m_MsgRecvQueue s @ [buf]\<rparr>)) (\<lambda>s1.
       Inr (put_log L_INF Package_complete s1))"

lemma FreeMemory_frame:
  assumes "FreeMemory p s = Inr s'"
  shows "m_MsgRecvQueue s' = m_MsgRecvQueue s" "pool s' = pool s"
    "s' = s\<lparr>heap := heap s'\<rparr>"
  using assms by (auto simp: FreeMemory_def split: option.splits)

text \<open>\<open>while (!m_MsgRecvQueue.empty())\<close> of \<open>xfly_socket.cpp\<close>; every round removes a message.\<close>

function clearMsgRecvQueue :: "'k csocket \<Rightarrow> 'k csocket res" where
  "clearMsgRecvQueue s =
     (case m_MsgRecvQueue s of
        [] \<Rightarrow> Inr s
      | tmpMempoint # rest \<Rightarrow>
          bind_res (FreeMemory tmpMempoint (s\<lparr>m_MsgRecvQueue := rest\<rparr>)) clearMsgRecvQueue)"
  by pat_completeness auto
termination
  by (relation "measure (\<lambda>s. length (m_MsgRecvQueue s))")
     (auto dest: FreeMemory_frame(1))

declare clearMsgRecvQueue.simps [simp del]

section \<open>Receiving\<close>

definition ptr_add :: "recv_ptr \<Rightarrow> nat \<Rightarrow> recv_ptr" where
  "ptr_add p n = (case p of Null_buf \<Rightarrow> Null_buf
                    | Head_buf i off \<Rightarrow> Head_buf i (off + n)
                    | Mem_buf a off \<Rightarrow> Mem_buf a (off + n))"

text \<open>What \<open>recv\<close> writes through the buffer pointer it is given.\<close>

definition recv_into :: "recv_ptr \<Rightarrow> byte list \<Rightarrow> 'k csocket \<Rightarrow> 'k csocket res" where
  "recv_into buff d s =
     (case buff of
        Null_buf \<Rightarrow> Inl (Fault Null_deref)
      | Head_buf i off \<Rightarrow>
          bind_res (conn_at s i) (\<lambda>c.
            if off + length d \<le> length (dataHeadInfo c)
            then Inr (upd_conn i (\<lambda>c. c\<lparr>dataHeadInfo := overwrite off d (dataHeadInfo c)\<rparr>) s)
            else Inl (Fault Out_of_bounds))
      | Mem_buf a off \<Rightarrow> store_bytes a off d s)"

definition recvproc ::
  "'k os \<Rightarrow> nat \<Rightarrow> recv_ptr \<Rightarrow> int \<Rightarrow> 'k csocket \<Rightarrow> (int \<times> 'k csocket) res" where
  "recvproc os i buff bufflen s =
     bind_res (conn_at s i) (\<lambda>c.
       let (r, k) = sys_recv os (c_fd c) bufflen (kern s);
           s1 = s\<lparr>kern := k\<rparr>
       in case r of
            Recv_bytes d \<Rightarrow>
              if d = []
              then bind_res (close_connection os i s1) (\<lambda>s2. Inr (-1, s2))
              else bind_res (recv_into buff d s1) (\<lambda>s2. Inr (int (length d), s2))
          | Recv_err e \<Rightarrow>
              if e = EAGAIN \<or> e = EWOULDBLOCK then Inr (-1, s1)
              else if e = EINTR then Inr (-1, s1)
              else let s2 = (if e = ECONNRESET then s1 else put_log L_ERR Recvproc_error s1)
                   in bind_res (close_connection os i s2) (\<lambda>s3. Inr (-1, s3)))"

definition wait_request_handler_proc_plast :: "nat \<Rightarrow> 'k csocket \<Rightarrow> 'k csocket res" where
  "wait_request_handler_proc_plast i s =
     bind_res (conn_at s i) (\<lambda>c.
       bind_res (inMsgRecvQueue (pnewMemPointer c) s) (\<lambda>s1.
         Inr (upd_conn i (\<lambda>c. c\<lparr>ifnewrecvMem := False,
                                pnewMemPointer := None,
                                curStat := PKG_HD_INIT,
                                precvbuf := Head_buf i 0,
                                irecvlen := of_nat (m_iLenPkgHeader s1)\<rparr>) s1)))"

text \<open>The three assignments that put the receive machine back to its initial state.\<close>

definition reset_receive :: "nat \<Rightarrow> 'k csocket \<Rightarrow> 'k csocket" where
  "reset_receive i s =
     upd_conn i (\<lambda>c. c\<lparr>curStat := PKG_HD_INIT,
                       precvbuf := Head_buf i 0,
                       irecvlen := of_nat (m_iLenPkgHeader s)\<rparr>) s"

definition wait_request_handler_proc_p1 :: "nat \<Rightarrow> 'k csocket \<Rightarrow> 'k csocket res" where
  "wait_request_handler_proc_p1 i s =
     bind_res (conn_at s i) (\<lambda>c.
       let e_pkgLen = e_pkgLen_of (dataHeadInfo c)
       in if e_pkgLen < m_iLenPkgHeader s then Inr (reset_receive i s)
          else if e_pkgLen > PKG_MAX_LENGTH - 1000 then Inr (reset_receive i s)
          else
            bind_res (AllocMemory (int (m_iLenMsgHeader s + e_pkgLen)) False s) (\<lambda>(pTmpBuffer, s1).
              let s2 = upd_conn i (\<lambda>c. c\<lparr>ifnewrecvMem := True,
                                         pnewMemPointer := Some pTmpBuffer\<rparr>) s1
              in bind_res (store_bytes pTmpBuffer 0
                             (le_bytes 8 (unat (conn_addr (m_pconnections s2) i))) s2) (\<lambda>s3.
                 bind_res (store_bytes pTmpBuffer 8
                             (le_bytes 8 (unat (c_iCurrsequence (pool s3 ! i)))) s3) (\<lambda>s4.
                 bind_res (store_bytes pTmpBuffer (m_iLenMsgHeader s4)
                             (take (m_iLenPkgHeader s4) (dataHeadInfo (pool s4 ! i))) s4) (\<lambda>s5.
                   if e_pkgLen = m_iLenPkgHeader s5 then wait_request_handler_proc_plast i s5
                   else Inr (upd_conn i (\<lambda>c. c\<lparr>curStat := PKG_BD_INIT,
                          precvbuf := Mem_buf pTmpBuffer (m_iLenMsgHeader s5 + m_iLenPkgHeader s5),
                          irecvlen := of_nat (e_pkgLen - m_iLenPkgHeader s5)\<rparr>) s5))))))"

text \<open>The two assignments that advance the buffer after an incomplete read.\<close>

definition advance_receive :: "nat \<Rightarrow> u8 \<Rightarrow> int \<Rightarrow> 'k csocket \<Rightarrow> 'k csocket" where
  "advance_receive i st reco s =
     upd_conn i (\<lambda>c. c\<lparr>curStat := st,
                       precvbuf := ptr_add (precvbuf c) (nat reco),
                       irecvlen := irecvlen c - of_int reco\<rparr>) s"

definition wait_request_handler :: "'k os \<Rightarrow> nat \<Rightarrow> 'k csocket \<Rightarrow> 'k csocket res" where
  "wait_request_handler os i s =
     bind_res (conn_at s i) (\<lambda>c0.
     bind_res (recvproc os i (precvbuf c0) (uint (irecvlen c0)) s) (\<lambda>(reco, s1).
       if reco \<le> 0 then Inr s1
       else bind_res (conn_at s1 i) (\<lambda>c.
         if curStat c = PKG_HD_INIT then
           (if reco = int (m_iLenPkgHeader s1) then wait_request_handler_proc_p1 i s1
            else Inr (advance_receive i PKG_HD_RECVING reco s1))
         else if curStat c = PKG_HD_RECVING then
           (if uint (irecvlen c) = reco then wait_request_handler_proc_p1 i s1
            else Inr (advance_receive i (curStat c) reco s1))
         else if curStat c = PKG_BD_INIT then
           (if reco = uint (irecvlen c) then wait_request_handler_proc_plast i s1
            else Inr (advance_receive i PKG_BD_RECVING reco s1))
         else if curStat c = PKG_BD_RECVING then
           (if reco = uint (irecvlen c) then wait_request_handler_proc_plast i s1
            else Inr (advance_receive i (curStat c) reco s1))
         else Inr s1)))"

end
