(* ===== verification/Socket_Epoll.thy ===== *)
theory Socket_Epoll
  imports Socket_Accept Socket_Request
begin

text \<open>
  The epoll half of \<open>net/xfly_socket.cpp\<close>: \<open>epoll_init\<close> builds the connection pool and registers
  the listening sockets, \<open>epoll_process_event\<close> waits for one batch of events and dispatches each
  to the read handler of its connection. The address and the uninitialised contents of
  \<open>new connection_t[n]\<close> are the parameters \<open>base\<close> and \<open>garbage\<close>.
\<close>

section \<open>Initialisation\<close>

text \<open>The loop that links the free connections, from the last to the first.\<close>

primrec link_free :: "nat \<Rightarrow> connection list \<Rightarrow> nat option \<Rightarrow> connection list \<times> nat option" where
  "link_free 0 cs nxt = (cs, nxt)"
| "link_free (Suc i) cs nxt =
     link_free i (cs[i := (cs ! i)\<lparr>c_data := nxt, c_fd := -1, c_instance := True,
                                  c_iCurrsequence := 0\<rparr>]) (Some i)"

text \<open>The loop that gives every listening socket a connection and adds it to epoll.\<close>

primrec add_listeners :: "'k os \<Rightarrow> nat list \<Rightarrow> 'k csocket \<Rightarrow> 'k csocket res" where
  "add_listeners os [] s = Inr s"
| "add_listeners os (pos # rest) s =
     (let fd = l_fd (m_listenSocketList s ! pos)
      in bind_res (get_connection fd s) (\<lambda>(r, s1).
           case r of
             None \<Rightarrow> Inl (Exit 2)
           | Some c \<Rightarrow>
               let s2 = upd_conn c (\<lambda>conn. conn\<lparr>c_listening := Some pos\<rparr>) s1;
                   s3 = s2\<lparr>m_listenSocketList := (m_listenSocketList s2)
                            [pos := (m_listenSocketList s2 ! pos)\<lparr>l_connection := Some c\<rparr>]\<rparr>;
                   s4 = upd_conn c (\<lambda>conn. conn\<lparr>rhandler := Some Event_accept\<rparr>) s3
               in bind_res (epoll_add_event os fd 1 0 0 EPOLL_CTL_ADD c s4) (\<lambda>(r, s5).
                    if r = -1 then Inl (Exit 2) else add_listeners os rest s5)))"

definition epoll_init ::
  "'k os \<Rightarrow> u64 \<Rightarrow> (nat \<Rightarrow> connection) \<Rightarrow> 'k csocket \<Rightarrow> (int \<times> 'k csocket) res" where
  "epoll_init os base garbage s =
     (let (h, k) = sys_epoll_create os (m_worker_connections s) (kern s);
          s1 = s\<lparr>kern := k, m_epollhandle := h\<rparr>
      in if h = -1 then Inl (Exit 2)
         else if m_worker_connections s1 < 0 then Inl (Fault Bad_alloc)
         else
           let n = m_worker_connections s1;
               (cs, nxt) = link_free (nat n) (map garbage [0..<nat n]) None;
               s2 = s1\<lparr>m_connection_n := n, m_pconnections := base, pool := cs,
                       m_pfree_connections := nxt, m_free_connection_n := n\<rparr>
           in bind_res (add_listeners os [0..<length (m_listenSocketList s2)] s2) (\<lambda>s3.
                Inr (1, s3)))"

section \<open>The event loop\<close>

definition call_handler :: "'k os \<Rightarrow> event_handler \<Rightarrow> nat \<Rightarrow> 'k csocket \<Rightarrow> 'k csocket res" where
  "call_handler os h c s =
     (case h of Event_accept \<Rightarrow> event_accept os c s
      | Wait_request_handler \<Rightarrow> wait_request_handler os c s)"

text \<open>The body of the loop over the events: one event. Write events have no action.\<close>

definition process_event :: "'k os \<Rightarrow> epoll_event \<Rightarrow> 'k csocket \<Rightarrow> 'k csocket res" where
  "process_event os ev s =
     (let instance_bit = ptr_instance (ev_data ev)
      in bind_res (ptr_conn (m_pconnections s) (length (pool s)) (ptr_untag (ev_data ev))) (\<lambda>c.
         bind_res (conn_at s c) (\<lambda>conn.
           if c_fd conn = -1 then Inr s
           else if of_bool (c_instance conn) \<noteq> instance_bit then Inr s
           else
             let revents0 = ev_events ev;
                 revents = (if revents0 AND (EPOLLERR OR EPOLLHUP) \<noteq> 0
                            then revents0 OR (EPOLLIN OR EPOLLOUT) else revents0)
             in if revents AND EPOLLIN \<noteq> 0
                then (case rhandler conn of
                        None \<Rightarrow> Inl (Fault Null_deref)
                      | Some h \<Rightarrow> call_handler os h c s)
                else Inr s)))"

primrec process_events :: "'k os \<Rightarrow> epoll_event list \<Rightarrow> 'k csocket \<Rightarrow> 'k csocket res" where
  "process_events os [] s = Inr s"
| "process_events os (e # es) s = bind_res (process_event os e s) (process_events os es)"

definition epoll_process_event :: "'k os \<Rightarrow> int \<Rightarrow> 'k csocket \<Rightarrow> (int \<times> 'k csocket) res" where
  "epoll_process_event os timer s =
     (let (r, k) = sys_epoll_wait os (m_epollhandle s) XFLY_MAX_EVENTS timer (kern s);
          s1 = s\<lparr>kern := k\<rparr>
      in case r of
           Wait_err e \<Rightarrow>
             if e = EINTR then Inr (1, put_log L_INF (Epoll_wait_failed e) s1)
             else Inr (0, put_log L_ERR (Epoll_wait_failed e) s1)
         | Wait_events es \<Rightarrow>
             if es = [] then
               (if timer \<noteq> -1 then Inr (1, s1) else Inr (0, put_log L_ERR Epoll_wait_no_event s1))
             else if XFLY_MAX_EVENTS < length es then Inl (Fault Out_of_bounds)
             else bind_res (process_events os es s1) (\<lambda>s2. Inr (1, s2)))"

text \<open>\<open>xfly_process_events_and_timer\<close> (\<open>proc/xfly_event.cpp\<close>): block until events arrive.\<close>

definition xfly_process_events_and_timer :: "'k os \<Rightarrow> 'k csocket \<Rightarrow> 'k csocket res" where
  "xfly_process_events_and_timer os s =
     bind_res (epoll_process_event os (-1) s) (\<lambda>(r, s1). Inr s1)"

end
