(* ===== verification/Framing.thy ===== *)
theory Framing
  imports Xfly_Comm
begin

text \<open>
  What the receive path promises, without buffers or states: \<open>deframe\<close> cuts a byte stream into
  packages. A header whose length field is out of range is skipped (its eight bytes only), and
  what is left at the end is an incomplete package. \<open>rx_accept\<close> is one step of the incremental
  reader; reading a stream in pieces of any size gives what \<open>deframe\<close> gives on the whole.
\<close>

definition bad_len :: "nat \<Rightarrow> bool" where
  "bad_len n \<longleftrightarrow> n < sizeof_COMM_PKG_HEADER \<or> n > PKG_MAX_LENGTH - 1000"

function deframe :: "byte list \<Rightarrow> byte list list \<times> byte list" where
  "deframe w =
     (if length w < 8 then ([], w)
      else if bad_len (e_pkgLen_of w) then deframe (drop 8 w)
      else if length w < e_pkgLen_of w then ([], w)
      else let (ms, r) = deframe (drop (e_pkgLen_of w) w) in (take (e_pkgLen_of w) w # ms, r))"
  by pat_completeness auto
termination
  by (relation "measure length") (auto simp: bad_len_def sizeof_COMM_PKG_HEADER_def)

declare deframe.simps [simp del]

text \<open>The residue of a stream is a proper prefix of a package.\<close>

definition residual :: "byte list \<Rightarrow> bool" where
  "residual p \<longleftrightarrow> length p < 8 \<or> \<not> bad_len (e_pkgLen_of p) \<and> length p < e_pkgLen_of p"

lemma deframe_residual: "residual p \<Longrightarrow> deframe p = ([], p)"
  by (auto simp: residual_def deframe.simps [of p])

lemma e_pkgLen_of_append: "8 \<le> length w \<Longrightarrow> e_pkgLen_of (w @ v) = e_pkgLen_of w"
  using e_pkgLen_of_take [of "length w" "w @ v"] by simp

lemma deframe_append:
  "deframe (w @ v) =
     (let (ms, r) = deframe w; (ms', r') = deframe (r @ v) in (ms @ ms', r'))"
proof (induction w rule: deframe.induct)
  case (1 w)
  consider (short) "length w < 8" | (bad) "8 \<le> length w" "bad_len (e_pkgLen_of w)"
    | (part) "8 \<le> length w" "\<not> bad_len (e_pkgLen_of w)" "length w < e_pkgLen_of w"
    | (full) "8 \<le> length w" "\<not> bad_len (e_pkgLen_of w)" "e_pkgLen_of w \<le> length w"
    by linarith
  then show ?case
  proof cases
    case short
    then show ?thesis by (simp add: deframe.simps [of w] split: prod.split)
  next
    case bad
    then have "deframe (w @ v) = deframe (drop 8 w @ v)" "deframe w = deframe (drop 8 w)"
      by (simp_all add: deframe.simps [of "w @ v"] deframe.simps [of w] e_pkgLen_of_append)
    then show ?thesis
      using bad "1.IH"(1) by simp
  next
    case part
    then show ?thesis by (simp add: deframe.simps [of w] split: prod.split)
  next
    case full
    then have "drop (e_pkgLen_of w) (w @ v) = drop (e_pkgLen_of w) w @ v"
      "take (e_pkgLen_of w) (w @ v) = take (e_pkgLen_of w) w"
      by simp_all
    then show ?thesis
      using full "1.IH"(2)
      by (simp add: deframe.simps [of "w @ v"] deframe.simps [of w] e_pkgLen_of_append
          split: prod.split)
  qed
qed

lemma deframe_result_residual: "deframe w = (ms, r) \<Longrightarrow> residual r"
proof (induction w arbitrary: ms rule: deframe.induct)
  case (1 w)
  then show ?case
    by (subst (asm) deframe.simps)
       (auto simp: residual_def Let_def split: if_splits prod.splits)
qed

text \<open>Every package \<open>deframe\<close> delivers is as long as its header says.\<close>

definition package_ok :: "byte list \<Rightarrow> bool" where
  "package_ok p \<longleftrightarrow> 8 \<le> length p \<and> length p = e_pkgLen_of p \<and> \<not> bad_len (length p)"

lemma deframe_packages_ok: "deframe w = (ms, r) \<Longrightarrow> m \<in> set ms \<Longrightarrow> package_ok m"
proof (induction w arbitrary: ms rule: deframe.induct)
  case (1 w)
  have take: "package_ok (take (e_pkgLen_of w) w)"
    if "\<not> bad_len (e_pkgLen_of w)" "e_pkgLen_of w \<le> length w"
    using that e_pkgLen_of_take [of "e_pkgLen_of w" w]
    by (simp add: package_ok_def bad_len_def sizeof_COMM_PKG_HEADER_def)
  show ?case
    using 1 take
    by (subst (asm) (3) deframe.simps)
       (auto simp: Let_def split: if_splits prod.splits)
qed

text \<open>A stream that is a sequence of well-formed packages is cut into exactly those.\<close>

lemma deframe_package:
  assumes "package_ok p"
  shows "deframe (p @ v) = (let (ms, r) = deframe v in (p # ms, r))"
proof -
  have "8 \<le> length p" "e_pkgLen_of p = length p" "\<not> bad_len (length p)"
    using assms by (auto simp: package_ok_def)
  then show ?thesis
    by (simp add: deframe.simps [of "p @ v"] e_pkgLen_of_append)
qed

lemma deframe_concat: "(\<forall>p \<in> set ps. package_ok p) \<Longrightarrow> deframe (concat ps) = (ps, [])"
  by (induction ps) (simp_all add: deframe.simps [of "[]"] deframe_package)

section \<open>The incremental reader\<close>

text \<open>
  \<open>need p\<close> bytes are missing from the header, or from the package, that \<open>p\<close> is a prefix of.
  \<open>rx_accept w\<close>: what the reader does when the bytes it holds have become \<open>w\<close>.
\<close>

definition need :: "byte list \<Rightarrow> nat" where
  "need p = (if length p < 8 then 8 - length p else e_pkgLen_of p - length p)"

definition rx_accept :: "byte list \<Rightarrow> byte list option \<times> byte list" where
  "rx_accept w =
     (if length w < 8 then (None, w)
      else if bad_len (e_pkgLen_of w) then (None, [])
      else if length w < e_pkgLen_of w then (None, w)
      else (Some w, []))"

lemma need_pos: "residual p \<Longrightarrow> 0 < need p"
  by (auto simp: residual_def need_def)

lemma rx_accept_residual: "residual p \<Longrightarrow> residual (snd (rx_accept (p @ d)))"
  by (auto simp: rx_accept_def residual_def)

lemma deframe_accept:
  assumes "residual p" "length d \<le> need p"
  shows "deframe (p @ d) =
    ((case fst (rx_accept (p @ d)) of None \<Rightarrow> [] | Some m \<Rightarrow> [m]), snd (rx_accept (p @ d)))"
proof (cases "length (p @ d) < 8")
  case True
  then show ?thesis by (simp add: rx_accept_def deframe.simps)
next
  case long: False
  show ?thesis
  proof (cases "bad_len (e_pkgLen_of (p @ d))")
    case True
    have "length p < 8"
    proof (rule ccontr)
      assume "\<not> length p < 8"
      then show False
        using assms(1) True by (simp add: residual_def e_pkgLen_of_append)
    qed
    then have "length (p @ d) = 8"
      using assms(2) long by (simp add: need_def)
    then show ?thesis
      using True by (simp add: rx_accept_def deframe.simps [of "p @ d"] deframe.simps [of "[]"])
  next
    case False
    have "length (p @ d) \<le> e_pkgLen_of (p @ d)"
    proof (cases "length p < 8")
      case True
      then have "length (p @ d) \<le> 8"
        using assms(2) by (simp add: need_def)
      moreover have "8 \<le> e_pkgLen_of (p @ d)"
        using False by (simp add: bad_len_def sizeof_COMM_PKG_HEADER_def)
      ultimately show ?thesis by linarith
    next
      case False
      then show ?thesis
        using assms by (auto simp: need_def residual_def e_pkgLen_of_append)
    qed
    then show ?thesis
      using long False
      by (auto simp: rx_accept_def deframe.simps [of "p @ d"] deframe.simps [of "[]"])
  qed
qed

text \<open>Reading a list of pieces, each no longer than what the reader asks for.\<close>

fun pieces_ok :: "byte list \<Rightarrow> byte list list \<Rightarrow> bool" where
  "pieces_ok p [] = True"
| "pieces_ok p (d # ds) \<longleftrightarrow> length d \<le> need p \<and> pieces_ok (snd (rx_accept (p @ d))) ds"

fun rx_run :: "byte list \<Rightarrow> byte list list \<Rightarrow> byte list list \<times> byte list" where
  "rx_run p [] = ([], p)"
| "rx_run p (d # ds) =
     (let (m, q) = rx_accept (p @ d); (ms, r) = rx_run q ds
      in (case m of None \<Rightarrow> ms | Some x \<Rightarrow> x # ms, r))"

lemma rx_run_deframe:
  "residual p \<Longrightarrow> pieces_ok p ds \<Longrightarrow> rx_run p ds = deframe (p @ concat ds)"
proof (induction ds arbitrary: p)
  case Nil
  then show ?case by (simp add: deframe_residual)
next
  case (Cons d ds)
  let ?q = "snd (rx_accept (p @ d))"
  have "rx_run ?q ds = deframe (?q @ concat ds)"
    using Cons.prems by (intro Cons.IH rx_accept_residual) auto
  moreover have "deframe (p @ d) =
      ((case fst (rx_accept (p @ d)) of None \<Rightarrow> [] | Some m \<Rightarrow> [m]), ?q)"
    using Cons.prems by (intro deframe_accept) auto
  ultimately show ?case
    using deframe_append [of "p @ d" "concat ds"]
    by (auto simp: split: prod.splits option.splits)
qed

end
