(* ===== verification/Socket_Inv.thy ===== *)
theory Socket_Inv
  imports Socket_Conn Framing
begin

text \<open>
  The invariant of the network component. It has three parts: the pool (\<open>pool_wf\<close>), who owns
  which heap block (\<open>owns\<close>: a queued message, or the one connection that is receiving into it,
  and no block without an owner), and for every connection in use the shape of its receive
  machine (\<open>rx_head\<close>, \<open>rx_body\<close>), which says exactly which bytes of the package under
  construction it has stored and where.
\<close>

section \<open>Ownership of heap blocks\<close>

text \<open>A complete message: the message header, then a package as long as it announces.\<close>

definition msg_ok :: "byte list \<Rightarrow> bool" where
  "msg_ok m \<longleftrightarrow> package_ok (drop sizeof_STRUC_MSG_HEADER m)"

definition queued_ok :: "cell list option \<Rightarrow> bool" where
  "queued_ok b \<longleftrightarrow> (\<exists>m. b = Some (map Some m) \<and> msg_ok m)"

definition owns :: "(addr \<rightharpoonup> cell list) \<Rightarrow> addr list \<Rightarrow> (nat \<rightharpoonup> addr) \<Rightarrow> bool" where
  "owns h qs B \<longleftrightarrow>
     distinct qs \<and> inj_on B (dom B) \<and> dom h = set qs \<union> ran B \<and> set qs \<inter> ran B = {} \<and>
     (\<forall>a \<in> set qs. queued_ok (h a))"

lemma ran_del: "inj_on B (dom B) \<Longrightarrow> B i = Some a \<Longrightarrow> ran (B(i := None)) = ran B - {a}"
  by (auto simp: ran_def inj_on_def dom_def) (metis option.inject)

lemma owns_alloc:
  assumes "owns h qs B" "h a = None" "B i = None"
  shows "owns (h(a \<mapsto> b)) qs (B(i \<mapsto> a))"
proof -
  have "a \<notin> set qs \<union> ran B"
    using assms(1,2) by (metis domIff owns_def)
  then have a: "a \<notin> set qs" "a \<notin> ran B"
    by auto
  have "inj_on (B(i \<mapsto> a)) (dom (B(i \<mapsto> a)))"
    using assms(1) a by (auto simp: owns_def inj_on_def ran_def)
  then show ?thesis
    using assms a by (auto simp: owns_def ran_map_upd)
qed

lemma owns_write:
  assumes "owns h qs B" "B i = Some a"
  shows "owns (h(a \<mapsto> b)) qs B"
proof -
  have "a \<in> ran B" "a \<notin> set qs"
    using assms by (auto simp: owns_def ran_def)
  then show ?thesis
    using assms by (auto simp: owns_def)
qed

lemma owns_free:
  assumes "owns h qs B" "B i = Some a"
  shows "owns (h(a := None)) qs (B(i := None))"
proof -
  have "a \<in> ran B" "a \<notin> set qs"
    using assms by (auto simp: owns_def ran_def)
  moreover have "inj_on (B(i := None)) (dom (B(i := None)))"
    using assms(1) by (auto simp: owns_def inj_on_def)
  ultimately show ?thesis
    using assms by (auto simp: owns_def ran_del)
qed

lemma owns_enqueue:
  assumes "owns h qs B" "B i = Some a" "queued_ok (h a)"
  shows "owns h (qs @ [a]) (B(i := None))"
proof -
  have "a \<in> ran B" "a \<notin> set qs"
    using assms by (auto simp: owns_def ran_def)
  moreover have "inj_on (B(i := None)) (dom (B(i := None)))"
    using assms(1) by (auto simp: owns_def inj_on_def)
  ultimately show ?thesis
    using assms by (auto simp: owns_def ran_del)
qed

lemma owns_dequeue: "owns h (a # qs) B \<Longrightarrow> owns (h(a := None)) qs B"
  by (auto simp: owns_def)

lemma owns_live: "owns h qs B \<Longrightarrow> B i = Some a \<Longrightarrow> a \<in> dom h"
  by (auto simp: owns_def ran_def)

lemma owns_queue_live: "owns h qs B \<Longrightarrow> a \<in> set qs \<Longrightarrow> a \<in> dom h"
  by (auto simp: owns_def)

lemma owns_apart: "owns h qs B \<Longrightarrow> B i = Some a \<Longrightarrow> a \<notin> set qs"
  by (auto simp: owns_def ran_def)

lemma owns_inj: "owns h qs B \<Longrightarrow> B i = Some a \<Longrightarrow> B j = Some a \<Longrightarrow> i = j"
  by (metis domI inj_onD owns_def)

section \<open>Connections in use\<close>

definition used :: "nat list \<Rightarrow> 'k csocket \<Rightarrow> nat set" where
  "used fl s = {i. i < length (pool s) \<and> i \<notin> set fl}"

text \<open>Which connection in use is receiving into which block.\<close>

definition buf_of :: "nat list \<Rightarrow> 'k csocket \<Rightarrow> (nat \<rightharpoonup> addr)" where
  "buf_of fl s = (\<lambda>i. if i \<in> used fl s then pnewMemPointer (pool s ! i) else None)"

section \<open>The receive machine of one connection\<close>

text \<open>The message header \<open>wait_request_handler_proc_p1\<close> writes in front of a package.\<close>

definition msg_header :: "u64 \<Rightarrow> nat \<Rightarrow> u64 \<Rightarrow> byte list" where
  "msg_header base i seqno = le_bytes 8 (unat (conn_addr base i)) @ le_bytes 8 (unat seqno)"

lemma length_msg_header [simp, mem_simps]: "length (msg_header base i sq) = 16"
  by (simp add: msg_header_def)

text \<open>Receiving a header, of which the bytes \<open>p\<close> have arrived.\<close>

definition rx_head :: "nat \<Rightarrow> connection \<Rightarrow> byte list \<Rightarrow> bool" where
  "rx_head i c p \<longleftrightarrow>
     length (dataHeadInfo c) = DATA_BUFSIZE \<and> length p < 8 \<and> take (length p) (dataHeadInfo c) = p \<and>
     precvbuf c = Head_buf i (length p) \<and> irecvlen c = of_nat (need p) \<and>
     \<not> ifnewrecvMem c \<and> pnewMemPointer c = None \<and>
     curStat c = (if p = [] then PKG_HD_INIT else PKG_HD_RECVING)"

text \<open>Receiving a body, of whose package the bytes \<open>p\<close> (header included) have arrived.\<close>

definition rx_body :: "u64 \<Rightarrow> (addr \<rightharpoonup> cell list) \<Rightarrow> nat \<Rightarrow> connection \<Rightarrow> byte list \<Rightarrow> bool" where
  "rx_body base h i c p \<longleftrightarrow>
     length (dataHeadInfo c) = DATA_BUFSIZE \<and>
     8 \<le> length p \<and> residual p \<and>
     ifnewrecvMem c \<and>
     (\<exists>a. pnewMemPointer c = Some a \<and> precvbuf c = Mem_buf a (16 + length p) \<and>
          h a = Some (map Some (msg_header base i (c_iCurrsequence c) @ p) @
                      replicate (need p) None)) \<and>
     irecvlen c = of_nat (need p) \<and>
     curStat c = (if length p = 8 then PKG_BD_INIT else PKG_BD_RECVING)"

definition rx_state :: "u64 \<Rightarrow> (addr \<rightharpoonup> cell list) \<Rightarrow> nat \<Rightarrow> connection \<Rightarrow> byte list \<Rightarrow> bool" where
  "rx_state base h i c p \<longleftrightarrow> rx_head i c p \<or> rx_body base h i c p"

text \<open>The bytes of the package under construction, read off the connection.\<close>

definition pending :: "(addr \<rightharpoonup> cell list) \<Rightarrow> connection \<Rightarrow> byte list" where
  "pending h c =
     (case precvbuf c of
        Null_buf \<Rightarrow> []
      | Head_buf i off \<Rightarrow> take off (dataHeadInfo c)
      | Mem_buf a off \<Rightarrow>
          (case h a of None \<Rightarrow> []
           | Some block \<Rightarrow> map the (take (off - 16) (drop 16 block))))"

lemma rx_head_pending: "rx_head i c p \<Longrightarrow> pending h c = p"
  by (simp add: rx_head_def pending_def)

lemma rx_body_pending: "rx_body base h i c p \<Longrightarrow> pending h c = p"
  by (auto simp: rx_body_def pending_def o_def)

lemma rx_state_pending: "rx_state base h i c p \<Longrightarrow> pending h c = p"
  by (auto simp: rx_state_def rx_head_pending rx_body_pending)

lemma rx_state_residual: "rx_state base h i c p \<Longrightarrow> residual p"
  by (auto simp: rx_state_def rx_head_def rx_body_def residual_def)

lemma rx_state_irecvlen: "rx_state base h i c p \<Longrightarrow> irecvlen c = of_nat (need p)"
  by (auto simp: rx_state_def rx_head_def rx_body_def)

lemma rx_state_other_block:
  "rx_state base h i c p \<Longrightarrow> (\<And>a. pnewMemPointer c = Some a \<Longrightarrow> h' a = h a)
   \<Longrightarrow> rx_state base h' i c p"
  by (auto simp: rx_state_def rx_body_def)

lemma rx_state_new_iff:
  "rx_state base h i c p \<Longrightarrow> ifnewrecvMem c \<longleftrightarrow> pnewMemPointer c \<noteq> None"
  by (auto simp: rx_state_def rx_head_def rx_body_def)

lemma rx_head_fresh: "rx_head i (fresh_connection i fd c) []"
  by (simp add: rx_head_def fresh_connection_def zero_connection_def need_def)

section \<open>The invariant\<close>

definition own_inv :: "nat list \<Rightarrow> addr list \<Rightarrow> 'k csocket \<Rightarrow> bool" where
  "own_inv fl qs s \<longleftrightarrow>
     pool_wf fl s \<and> heap_wf s \<and> m_MsgRecvQueue s = map Some qs \<and> length qs < 1000 \<and>
     owns (heap s) qs (buf_of fl s) \<and>
     m_iLenPkgHeader s = sizeof_COMM_PKG_HEADER \<and> m_iLenMsgHeader s = sizeof_STRUC_MSG_HEADER"

definition rx_inv :: "nat list \<Rightarrow> 'k csocket \<Rightarrow> bool" where
  "rx_inv fl s \<longleftrightarrow>
     (\<forall>i \<in> used fl s. \<exists>p. rx_state (m_pconnections s) (heap s) i (pool s ! i) p)"

definition sock_inv :: "nat list \<Rightarrow> addr list \<Rightarrow> 'k csocket \<Rightarrow> bool" where
  "sock_inv fl qs s \<longleftrightarrow> own_inv fl qs s \<and> rx_inv fl s"

lemma used_less: "i \<in> used fl s \<Longrightarrow> i < length (pool s)"
  by (simp add: used_def)

text \<open>The invariant does not look at the kernel, the log or \<open>use_accept4\<close>.\<close>

lemma sock_inv_same_mem:
  assumes "sock_inv fl qs s"
    and "heap s' = heap s" "next_addr s' = next_addr s" "pool s' = pool s"
      "m_pfree_connections s' = m_pfree_connections s"
      "m_free_connection_n s' = m_free_connection_n s" "m_connection_n s' = m_connection_n s"
      "m_pconnections s' = m_pconnections s" "m_MsgRecvQueue s' = m_MsgRecvQueue s"
      "m_iLenPkgHeader s' = m_iLenPkgHeader s" "m_iLenMsgHeader s' = m_iLenMsgHeader s"
  shows "sock_inv fl qs s'"
proof -
  have u: "used fl s' = used fl s"
    using assms(4) by (simp add: used_def)
  then have "buf_of fl s' = buf_of fl s"
    using assms(4) by (simp add: buf_of_def fun_eq_iff)
  then show ?thesis
    using assms u by (simp add: sock_inv_def own_inv_def pool_wf_def heap_wf_def rx_inv_def)
qed

lemma sock_inv_put_log [simp]: "sock_inv fl qs s \<Longrightarrow> sock_inv fl qs (put_log l m s)"
  by (erule sock_inv_same_mem) simp_all

lemma sock_inv_kern [simp]: "sock_inv fl qs s \<Longrightarrow> sock_inv fl qs (s\<lparr>kern := k\<rparr>)"
  by (erule sock_inv_same_mem) simp_all

lemma sock_inv_use_accept4 [simp]: "sock_inv fl qs s \<Longrightarrow> sock_inv fl qs (s\<lparr>use_accept4 := b\<rparr>)"
  by (erule sock_inv_same_mem) simp_all

lemma buf_of_used: "i \<in> used fl s \<Longrightarrow> buf_of fl s i = pnewMemPointer (pool s ! i)"
  by (simp add: buf_of_def)


section \<open>What an operation on one connection leaves alone\<close>

definition frame_conn :: "nat \<Rightarrow> 'k csocket \<Rightarrow> 'k csocket \<Rightarrow> bool" where
  "frame_conn i s s' \<longleftrightarrow>
     length (pool s') = length (pool s) \<and> (\<forall>j. j \<noteq> i \<longrightarrow> pool s' ! j = pool s ! j) \<and>
     m_pconnections s' = m_pconnections s \<and> m_epollhandle s' = m_epollhandle s \<and>
     m_worker_connections s' = m_worker_connections s \<and>
     m_listenPortCount s' = m_listenPortCount s \<and>
     m_listenSocketList s' = m_listenSocketList s"

lemma frame_conn_refl: "frame_conn i s s"
  by (simp add: frame_conn_def)

lemma frame_conn_trans: "frame_conn i s s' \<Longrightarrow> frame_conn i s' s'' \<Longrightarrow> frame_conn i s s''"
  by (simp add: frame_conn_def)

lemma frame_conn_length: "frame_conn i s s' \<Longrightarrow> length (pool s') = length (pool s)"
  by (simp add: frame_conn_def)

section \<open>Returning a connection to the pool\<close>

definition closed_connection :: "nat option \<Rightarrow> connection \<Rightarrow> connection" where
  "closed_connection p c =
     c\<lparr>c_fd := -1, ifnewrecvMem := False, pnewMemPointer := None, c_data := p,
       c_iCurrsequence := c_iCurrsequence c + 1\<rparr>"

lemma close_connection_eq:
  assumes i: "i < length (pool s)"
    and new: "ifnewrecvMem (pool s ! i) \<longleftrightarrow> pnewMemPointer (pool s ! i) \<noteq> None"
    and live: "\<And>a. pnewMemPointer (pool s ! i) = Some a \<Longrightarrow> a \<in> dom (heap s)"
  shows "close_connection os i s =
    Inr (s\<lparr>heap := (case pnewMemPointer (pool s ! i) of None \<Rightarrow> heap s
                    | Some a \<Rightarrow> (heap s)(a := None)),
           pool := (pool s)[i := closed_connection (m_pfree_connections s) (pool s ! i)],
           m_pfree_connections := Some i,
           m_free_connection_n := m_free_connection_n s + 1,
           kern := snd (sys_close os (c_fd (pool s ! i)) (kern s)),
           logs := (if fst (sys_close os (c_fd (pool s ! i)) (kern s)) = -1
                    then logs s @ [Log L_ERR Close_error] else logs s)\<rparr>)"
proof (cases "sys_close os (c_fd (pool s ! i)) (kern s)")
  case (Pair r k)
  show ?thesis
  proof (cases "pnewMemPointer (pool s ! i)")
    case None
    then have "(pool s ! i)\<lparr>c_fd := -1, c_data := p, c_iCurrsequence := c_iCurrsequence (pool s ! i) + 1\<rparr>
        = closed_connection p (pool s ! i)" for p
      using new by (cases "pool s ! i") (simp add: closed_connection_def)
    then show ?thesis
      using i new Pair None
      by (simp add: close_connection_def free_connection_plain put_log_def upd_conn_def)
  next
    case (Some a)
    then show ?thesis
      using i new Pair live [OF Some]
      by (simp add: close_connection_def free_connection_mem [where a = a] put_log_def
            upd_conn_def closed_connection_def)
  qed
qed

lemma pool_wf_release:
  assumes wf: "pool_wf fl s" and i: "i \<in> used fl s"
    and s': "pool s' = (pool s)[i := c]" "c_fd c = -1" "c_data c = m_pfree_connections s"
      "m_pfree_connections s' = Some i" "m_free_connection_n s' = m_free_connection_n s + 1"
      "m_connection_n s' = m_connection_n s"
  shows "pool_wf (i # fl) s'"
proof -
  have "c_fd (pool s' ! j) = -1 \<longleftrightarrow> j \<in> set (i # fl)" if "j < length (pool s')" for j
    using wf i s' that by (cases "j = i") (auto simp: pool_wf_def used_def)
  then show ?thesis
    using wf i s' by (simp add: pool_wf_def used_def)
qed

lemma buf_of_release:
  "pool s' = (pool s)[i := c] \<Longrightarrow> buf_of (i # fl) s' = (buf_of fl s)(i := None)"
  by (auto simp: buf_of_def used_def fun_eq_iff)

lemma used_release: "length (pool s') = length (pool s) \<Longrightarrow> used (i # fl) s' = used fl s - {i}"
  by (auto simp: used_def)

text \<open>Freeing the block of connection \<open>i\<close> leaves the blocks of the others alone.\<close>

definition heap_without :: "connection \<Rightarrow> (addr \<rightharpoonup> cell list) \<Rightarrow> (addr \<rightharpoonup> cell list)" where
  "heap_without c h = (case pnewMemPointer c of None \<Rightarrow> h | Some a \<Rightarrow> h(a := None))"

lemma heap_without_other:
  assumes "owns h qs (buf_of fl s)" "i \<in> used fl s" "j \<in> used fl s - {i}"
    and "pnewMemPointer (pool s ! j) = Some a"
  shows "heap_without (pool s ! i) h a = h a"
  using assms owns_inj [OF assms(1), of i a j]
  by (auto simp: heap_without_def buf_of_used split: option.splits)

lemma owns_without:
  assumes "owns h qs (buf_of fl s)" "i \<in> used fl s"
  shows "owns (heap_without (pool s ! i) h) qs ((buf_of fl s)(i := None))"
  using assms owns_free [OF assms(1), of i] buf_of_used [OF assms(2)]
  by (cases "pnewMemPointer (pool s ! i)") (simp_all add: heap_without_def fun_upd_idem)

lemma rx_inv_close:
  assumes "rx_inv fl s" "owns (heap s) qs (buf_of fl s)" "i \<in> used fl s"
    and s': "pool s' = (pool s)[i := c]" "heap s' = heap_without (pool s ! i) (heap s)"
      "m_pconnections s' = m_pconnections s"
  shows "rx_inv (i # fl) s'"
  unfolding rx_inv_def
proof
  fix j
  assume "j \<in> used (i # fl) s'"
  then have j: "j \<in> used fl s - {i}"
    using used_release [of s' s i fl] s'(1) by simp
  then obtain p where "rx_state (m_pconnections s) (heap s) j (pool s ! j) p"
    using assms(1) by (auto simp: rx_inv_def)
  then have "rx_state (m_pconnections s) (heap s') j (pool s ! j) p"
    by (rule rx_state_other_block) (simp add: s'(2) heap_without_other [OF assms(2,3) j])
  then show "\<exists>p. rx_state (m_pconnections s') (heap s') j (pool s' ! j) p"
    using j s' by auto
qed

lemma close_connection_inv:
  assumes inv: "sock_inv fl qs s" and i: "i \<in> used fl s"
  shows "\<exists>s'. close_connection os i s = Inr s' \<and> sock_inv (i # fl) qs s' \<and> frame_conn i s s' \<and>
              kern s' = snd (sys_close os (c_fd (pool s ! i)) (kern s)) \<and>
              pool s' ! i = closed_connection (m_pfree_connections s) (pool s ! i) \<and>
              (\<forall>j \<in> used (i # fl) s'. \<forall>a. pnewMemPointer (pool s ! j) = Some a \<longrightarrow> heap s' a = heap s a)"
proof -
  let ?c = "pool s ! i"
  have len: "i < length (pool s)" using i by (rule used_less)
  have rxi: "rx_inv fl s" and own: "owns (heap s) qs (buf_of fl s)"
    using inv by (simp_all add: sock_inv_def own_inv_def)
  obtain p where rx: "rx_state (m_pconnections s) (heap s) i ?c p"
    using rxi i by (auto simp: rx_inv_def)
  have live: "a \<in> dom (heap s)" if "pnewMemPointer ?c = Some a" for a
    using owns_live [OF own, of i] buf_of_used [OF i] that by simp
  obtain s' where close: "close_connection os i s = Inr s'"
    and s': "s' = s\<lparr>heap := heap_without ?c (heap s),
           pool := (pool s)[i := closed_connection (m_pfree_connections s) ?c],
           m_pfree_connections := Some i,
           m_free_connection_n := m_free_connection_n s + 1,
           kern := snd (sys_close os (c_fd ?c) (kern s)),
           logs := (if fst (sys_close os (c_fd ?c) (kern s)) = -1
                    then logs s @ [Log L_ERR Close_error] else logs s)\<rparr>"
    using close_connection_eq [OF len rx_state_new_iff [OF rx] live] unfolding heap_without_def by blast
  have "pool_wf (i # fl) s'"
    using inv i s' by (intro pool_wf_release [of fl s i])
      (auto simp: sock_inv_def own_inv_def closed_connection_def)
  moreover have "buf_of (i # fl) s' = (buf_of fl s)(i := None)"
    by (rule buf_of_release) (simp add: s')
  moreover have "heap_wf s'"
    using inv by (auto simp: s' heap_without_def sock_inv_def own_inv_def heap_wf_def split: option.splits if_splits)
  moreover have "rx_inv (i # fl) s'"
    by (rule rx_inv_close [OF rxi own i]) (simp_all add: s')
  ultimately have "sock_inv (i # fl) qs s'"
    using inv owns_without [OF own i] by (simp add: sock_inv_def own_inv_def s')
  moreover have "used (i # fl) s' = used fl s - {i}"
    by (rule used_release) (simp add: s')
  moreover have "frame_conn i s s'"
    by (simp add: frame_conn_def s')
  ultimately show ?thesis
    using close heap_without_other [OF own i] len by (auto simp: s')
qed

section \<open>Taking a connection from the pool\<close>

lemma get_connection_inv:
  assumes inv: "sock_inv (i # fl) qs s" and fd: "fd \<noteq> -1"
  shows "\<exists>s'. get_connection fd s = Inr (Some i, s') \<and> sock_inv fl qs s' \<and> frame_conn i s s' \<and>
              pool s' ! i = fresh_connection i fd (pool s ! i) \<and>
              heap s' = heap s \<and> kern s' = kern s \<and> use_accept4 s' = use_accept4 s \<and>
              used fl s' = insert i (used (i # fl) s)"
proof -
  have wf: "pool_wf (i # fl) s"
    using inv by (simp add: sock_inv_def own_inv_def)
  then have len: "i < length (pool s)" "i \<notin> set fl"
    by (auto simp: pool_wf_def)
  obtain s' where get: "get_connection fd s = Inr (Some i, s')"
    and s': "s' = s\<lparr>m_pfree_connections := c_data (pool s ! i),
                    m_free_connection_n := int (length fl),
                    pool := (pool s)[i := fresh_connection i fd (pool s ! i)]\<rparr>"
    using get_connection_Cons [OF wf] by blast
  have wf': "pool_wf fl s'"
    using get_connection_wf [OF wf fd get] by simp
  have used': "used fl s' = insert i (used (i # fl) s)"
    using len by (auto simp: used_def s')
  have "buf_of fl s' = buf_of (i # fl) s"
    using len used' by (auto simp: buf_of_def used_def s' fun_eq_iff nth_list_update
        fresh_connection_def zero_connection_def)
  then have own': "own_inv fl qs s'"
    using inv wf' by (auto simp: sock_inv_def own_inv_def s' heap_wf_def)
  have "\<exists>p. rx_state (m_pconnections s') (heap s') j (pool s' ! j) p" if "j \<in> used fl s'" for j
  proof (cases "j = i")
    case True
    then have "rx_state (m_pconnections s') (heap s') j (pool s' ! j) []"
      using len by (simp add: s' rx_state_def rx_head_fresh)
    then show ?thesis by blast
  next
    case False
    then have "j \<in> used (i # fl) s"
      using that used' by simp
    then show ?thesis
      using inv False by (auto simp: sock_inv_def rx_inv_def s')
  qed
  then have "sock_inv fl qs s'"
    using own' by (simp add: sock_inv_def rx_inv_def)
  moreover have "frame_conn i s s'"
    by (simp add: frame_conn_def s')
  ultimately show ?thesis
    using get len used' s' by auto
qed

lemma get_connection_none_inv:
  assumes "sock_inv [] qs s"
  shows "get_connection fd s = Inr (None, put_log L_ERR Get_connection_null s) \<and>
         sock_inv [] qs (put_log L_ERR Get_connection_null s)"
proof -
  have "pool_wf [] s"
    using assms by (simp add: sock_inv_def own_inv_def)
  then show ?thesis
    using get_connection_empty [of s fd] assms by simp
qed

interpretation fp: free_pool get_connection "close_connection (os :: 'k os)"
  "\<lambda>fl s. \<exists>qs. sock_inv fl qs s" "\<lambda>s. length (pool s)" for os
proof unfold_locales
  fix fl :: "nat list" and s :: "'k csocket" and i
  assume "\<exists>qs. sock_inv fl qs s"
  then have wf: "pool_wf fl s"
    by (auto simp: sock_inv_def own_inv_def)
  then show "distinct fl" by (simp add: pool_wf_def)
  show "i < length (pool s)" if "i \<in> set fl"
    using wf that by (rule pool_wf_bound)
next
  fix s :: "'k csocket" and fd :: int
  show "\<exists>qs. sock_inv [] qs s \<Longrightarrow> \<exists>s'. get_connection fd s = Inr (None, s') \<and>
          (\<exists>qs. sock_inv [] qs s') \<and> length (pool s') = length (pool s)"
    using get_connection_none_inv [of _ s fd] by fastforce
next
  fix i fl and fd :: int and s :: "'k csocket"
  assume "\<exists>qs. sock_inv (i # fl) qs s" and "fd \<noteq> -1"
  then show "\<exists>s'. get_connection fd s = Inr (Some i, s') \<and> (\<exists>qs. sock_inv fl qs s') \<and>
      length (pool s') = length (pool s)"
    using get_connection_inv [of i fl _ s fd] frame_conn_length by blast
next
  fix i fl and s :: "'k csocket"
  assume "\<exists>qs. sock_inv fl qs s" "i < length (pool s)" "i \<notin> set fl"
  then show "\<exists>s'. close_connection os i s = Inr s' \<and> (\<exists>qs. sock_inv (i # fl) qs s') \<and>
      length (pool s') = length (pool s)"
    using close_connection_inv [of fl _ s i os] frame_conn_length by (simp add: used_def) blast
qed

end
