(* ===== verification/Socket_Recv.thy ===== *)
theory Socket_Recv
  imports Socket_Request Socket_Inv
begin

text \<open>
  The receive path refines the framing specification: each call of \<open>wait_request_handler\<close> that
  reads data performs one step of \<open>rx_accept\<close> on the connection's pending bytes and appends the
  finished package, if there is one, to the message queue, which is then trimmed. All buffer
  accesses stay in bounds and every block keeps exactly one owner.
\<close>

section \<open>The message queue\<close>

text \<open>How many messages \<open>tmpoutMsgRecvQueue\<close> drops from a queue of \<open>n\<close>, and what it keeps.\<close>

definition trim_count :: "nat \<Rightarrow> nat" where
  "trim_count n = (if n < 1000 then 0 else n - 500)"

definition trim :: "'a list \<Rightarrow> 'a list" where
  "trim q = drop (trim_count (length q)) q"

lemma trim_count_le: "trim_count n \<le> n"
  by (simp add: trim_count_def)

lemma length_trim_less: "length q \<le> 1000 \<Longrightarrow> length (trim q) < 1000"
  by (auto simp: trim_def trim_count_def)

lemma map_trim: "map f (trim q) = trim (map f q)"
  by (simp add: trim_def drop_map)

lemma trim_keeps_last: "q \<noteq> [] \<Longrightarrow> trim q \<noteq> [] \<and> last (trim q) = last q"
  by (auto simp: trim_def trim_count_def)

lemma pop_and_free_eq:
  assumes "m_MsgRecvQueue s = map Some qs" "distinct qs" "set qs \<subseteq> dom (heap s)" "n \<le> length qs"
  shows "pop_and_free n s =
    Inr (s\<lparr>m_MsgRecvQueue := map Some (drop n qs), heap := heap s |` (- set (take n qs))\<rparr>)"
  using assms
proof (induction n arbitrary: s qs)
  case 0
  then show ?case by (simp add: restrict_map_def)
next
  case (Suc n)
  then obtain q qs' where qs: "qs = q # qs'"
    by (cases qs) auto
  let ?s1 = "s\<lparr>m_MsgRecvQueue := map Some qs', heap := (heap s)(q := None)\<rparr>"
  have "FreeMemory (Some q) (s\<lparr>m_MsgRecvQueue := map Some qs'\<rparr>) = Inr ?s1"
    using Suc.prems qs by (subst FreeMemory_live) auto
  moreover have "pop_and_free n ?s1 =
    Inr (?s1\<lparr>m_MsgRecvQueue := map Some (drop n qs'), heap := heap ?s1 |` (- set (take n qs'))\<rparr>)"
    using Suc.prems qs by (intro Suc.IH) auto
  moreover have "(heap s)(q := None) |` (- set (take n qs')) = heap s |` (- set (take (Suc n) qs))"
    by (auto simp: qs restrict_map_def fun_eq_iff)
  ultimately show ?case
    using Suc.prems qs by simp
qed

lemma owns_drop:
  "owns h qs B \<Longrightarrow> n \<le> length qs \<Longrightarrow> owns (h |` (- set (take n qs))) (drop n qs) B"
proof (induction n arbitrary: h qs)
  case 0
  then show ?case by (simp add: restrict_map_def)
next
  case (Suc n)
  then obtain q qs' where qs: "qs = q # qs'"
    by (cases qs) auto
  have "owns (h(q := None)) qs' B" "n \<le> length qs'"
    using Suc.prems qs by (simp_all add: owns_dequeue)
  then have "owns (h(q := None) |` (- set (take n qs'))) (drop n qs') B"
    by (rule Suc.IH)
  moreover have "h(q := None) |` (- set (take n qs')) = h |` (- set (take (Suc n) qs))"
    by (auto simp: qs restrict_map_def fun_eq_iff)
  ultimately show ?case by (simp add: qs)
qed

lemma tmpoutMsgRecvQueue_eq:
  assumes "m_MsgRecvQueue s = map Some qs" "distinct qs" "set qs \<subseteq> dom (heap s)"
  shows "tmpoutMsgRecvQueue s =
    Inr (s\<lparr>m_MsgRecvQueue := map Some (trim qs),
           heap := heap s |` (- set (take (trim_count (length qs)) qs))\<rparr>)"
proof (cases "length qs < 1000")
  case True
  then show ?thesis
    using assms(1) by (simp add: tmpoutMsgRecvQueue_def trim_def trim_count_def restrict_map_def)
next
  case False
  then have "nat (int (length qs) - 500) = trim_count (length qs)"
    by (simp add: trim_count_def)
  moreover have "trim_count (length qs) \<le> length qs"
    by (rule trim_count_le)
  moreover have "qs \<noteq> []" using False by auto
  ultimately show ?thesis
    using assms False by (simp add: tmpoutMsgRecvQueue_def trim_def pop_and_free_eq [of s qs])
qed

text \<open>The messages in the queue, read from the heap.\<close>

definition msg_at :: "(addr \<rightharpoonup> cell list) \<Rightarrow> addr \<Rightarrow> byte list" where
  "msg_at h a = (case h a of None \<Rightarrow> [] | Some block \<Rightarrow> map the block)"

definition queue_msgs :: "'k csocket \<Rightarrow> byte list list" where
  "queue_msgs s = map (\<lambda>q. case q of None \<Rightarrow> [] | Some a \<Rightarrow> msg_at (heap s) a) (m_MsgRecvQueue s)"

lemma queue_msgs_eq: "m_MsgRecvQueue s = map Some qs \<Longrightarrow> queue_msgs s = map (msg_at (heap s)) qs"
  by (simp add: queue_msgs_def)

text \<open>Handing the block a connection owns to the queue.\<close>

lemma inMsgRecvQueue_eq:
  assumes q: "m_MsgRecvQueue s = map Some qs" and own: "owns (heap s) qs B"
    and B: "B i = Some a" "heap s a = Some (map Some m)" "msg_ok m" and len: "length qs < 1000"
  shows "\<exists>h'. inMsgRecvQueue (Some a) s =
      Inr (put_log L_INF Package_complete
             (s\<lparr>m_MsgRecvQueue := map Some (trim (qs @ [a])), heap := h'\<rparr>)) \<and>
    owns h' (trim (qs @ [a])) (B(i := None)) \<and> length (trim (qs @ [a])) < 1000 \<and>
    (\<forall>b. b \<notin> set qs \<longrightarrow> h' b = heap s b) \<and> (\<forall>b \<in> set (trim (qs @ [a])). h' b = heap s b) \<and>
    dom h' \<subseteq> dom (heap s)"
proof -
  let ?qs = "qs @ [a]"
  let ?n = "trim_count (length ?qs)"
  let ?h = "heap s |` (- set (take ?n ?qs))"
  have own1: "owns (heap s) ?qs (B(i := None))"
    using own B by (intro owns_enqueue) (auto simp: queued_ok_def)
  have eq: "inMsgRecvQueue (Some a) s =
      Inr (put_log L_INF Package_complete (s\<lparr>m_MsgRecvQueue := map Some (trim ?qs), heap := ?h\<rparr>))"
    using own1 q
    by (subst inMsgRecvQueue_def, subst tmpoutMsgRecvQueue_eq [where qs = ?qs])
       (auto simp: owns_def put_log_def)
  have n: "?n \<le> length qs"
    using len by (auto simp: trim_count_def)
  have own2: "owns ?h (trim ?qs) (B(i := None))"
    using owns_drop [OF own1, of ?n] n by (simp add: trim_def)
  have "distinct ?qs"
    using own1 by (simp only: owns_def)
  then have disj: "set (take ?n ?qs) \<inter> set (trim ?qs) = {}"
    unfolding trim_def by (rule set_take_disj_set_drop_if_distinct) simp
  have "?h b = heap s b" if "b \<notin> set qs" for b
    using that n set_take_subset [of ?n qs] by (auto simp: restrict_map_def)
  moreover have "?h b = heap s b" if "b \<in> set (trim ?qs)" for b
    using that disj by (auto simp: restrict_map_def)
  moreover have "length (trim ?qs) < 1000"
    using len by (intro length_trim_less) simp
  moreover have "dom ?h \<subseteq> dom (heap s)"
    by auto
  ultimately show ?thesis
    using eq own2 by blast
qed

section \<open>Filling a block from the front\<close>

lemma overwrite_fill:
  "length d \<le> n \<Longrightarrow> overwrite (length p) (map Some d) (map Some p @ replicate n None)
     = map Some (p @ d) @ replicate (n - length d) None"
  by (simp add: overwrite_def)

lemma store_bytes_fill:
  assumes "heap s a = Some (map Some p @ replicate n None)" "off = length p" "length d \<le> n"
  shows "store_bytes a off d s =
    Inr (s\<lparr>heap := (heap s)(a \<mapsto> map Some (p @ d) @ replicate (n - length d) None)\<rparr>)"
  using assms by (simp add: store_bytes_def overwrite_fill del: map_append)

section \<open>One connection changes, the others do not\<close>

definition rx_others :: "nat \<Rightarrow> nat list \<Rightarrow> 'k csocket \<Rightarrow> bool" where
  "rx_others i fl s \<longleftrightarrow>
     (\<forall>j \<in> used fl s - {i}. \<exists>p. rx_state (m_pconnections s) (heap s) j (pool s ! j) p)"

lemma sock_inv_split:
  "i \<in> used fl s \<Longrightarrow> sock_inv fl qs s \<longleftrightarrow>
     own_inv fl qs s \<and> rx_others i fl s \<and>
     (\<exists>p. rx_state (m_pconnections s) (heap s) i (pool s ! i) p)"
  by (auto simp: sock_inv_def rx_inv_def rx_others_def)

lemma used_same_length: "length (pool s') = length (pool s) \<Longrightarrow> used fl s' = used fl s"
  by (simp add: used_def)

lemma own_inv_step:
  assumes own: "own_inv fl qs s" and i: "i \<in> used fl s"
    and pool: "pool s' = (pool s)[i := c]" "c_fd c = c_fd (pool s ! i)"
    and same: "m_pfree_connections s' = m_pfree_connections s"
      "m_free_connection_n s' = m_free_connection_n s" "m_connection_n s' = m_connection_n s"
      "m_iLenPkgHeader s' = m_iLenPkgHeader s" "m_iLenMsgHeader s' = m_iLenMsgHeader s"
    and mem: "heap_wf s'" "m_MsgRecvQueue s' = map Some qs'" "length qs' < 1000"
      "owns (heap s') qs' ((buf_of fl s)(i := pnewMemPointer c))"
  shows "own_inv fl qs' s'"
proof -
  have wf: "pool_wf fl s'"
    using own i pool same by (auto simp: own_inv_def pool_wf_def used_def nth_list_update_if)
  have "buf_of fl s' = (buf_of fl s)(i := pnewMemPointer c)"
    using i pool by (auto simp: buf_of_def used_def fun_eq_iff)
  then show ?thesis
    using own wf same mem by (simp add: own_inv_def)
qed

lemma rx_others_step:
  assumes "rx_others i fl s" "pool s' = (pool s)[i := c]" "m_pconnections s' = m_pconnections s"
    and "\<And>j a. j \<noteq> i \<Longrightarrow> buf_of fl s j = Some a \<Longrightarrow> heap s' a = heap s a"
  shows "rx_others i fl s'"
  unfolding rx_others_def
proof
  fix j
  assume "j \<in> used fl s' - {i}"
  then have j: "j \<in> used fl s" "j \<noteq> i"
    using assms(2) by (auto simp: used_def)
  then obtain p where "rx_state (m_pconnections s) (heap s) j (pool s ! j) p"
    using assms(1) by (auto simp: rx_others_def)
  then have "rx_state (m_pconnections s) (heap s') j (pool s ! j) p"
    by (rule rx_state_other_block) (use j assms(4) in \<open>simp add: buf_of_def\<close>)
  then show "\<exists>p. rx_state (m_pconnections s') (heap s') j (pool s' ! j) p"
    using j assms(2,3) by auto
qed

text \<open>What the receive path never changes of a connection.\<close>

definition same_role :: "connection \<Rightarrow> connection \<Rightarrow> bool" where
  "same_role c c' \<longleftrightarrow>
     c_fd c' = c_fd c \<and> c_instance c' = c_instance c \<and> c_iCurrsequence c' = c_iCurrsequence c \<and>
     rhandler c' = rhandler c \<and> c_listening c' = c_listening c"

lemma same_role_refl [simp]: "same_role c c"
  by (simp add: same_role_def)

lemma same_role_trans: "same_role c c' \<Longrightarrow> same_role c' c'' \<Longrightarrow> same_role c c''"
  by (simp add: same_role_def)

text \<open>The queue after a step of the reader that finished \<open>r\<close>.\<close>

definition deliver :: "u64 \<Rightarrow> nat \<Rightarrow> u64 \<Rightarrow> byte list option \<Rightarrow> byte list list \<Rightarrow> byte list list" where
  "deliver base i seqno r q =
     (case r of None \<Rightarrow> q | Some w \<Rightarrow> trim (q @ [msg_header base i seqno @ w]))"

text \<open>
  The outcome of a receive step on connection \<open>i\<close>: the invariant holds again, the connection's
  pending bytes are \<open>p\<close>, and the queue holds \<open>q\<close>.
\<close>

definition rx_outcome ::
  "nat list \<Rightarrow> nat \<Rightarrow> 'k csocket \<Rightarrow> 'k csocket \<Rightarrow> byte list \<Rightarrow> byte list list \<Rightarrow> bool" where
  "rx_outcome fl i s s' p q \<longleftrightarrow>
     (\<exists>qs'. sock_inv fl qs' s') \<and> rx_state (m_pconnections s') (heap s') i (pool s' ! i) p \<and>
     queue_msgs s' = q \<and> frame_conn i s s' \<and> same_role (pool s ! i) (pool s' ! i) \<and>
     kern s' = kern s \<and>
     (\<forall>j \<in> used fl s - {i}. pending (heap s') (pool s' ! j) = pending (heap s) (pool s ! j))"

lemma pending_same_block:
  assumes "rx_state base h i c p" "\<And>a. pnewMemPointer c = Some a \<Longrightarrow> h' a = h a"
  shows "pending h' c = pending h c"
  using rx_state_pending [OF assms(1)] rx_state_pending [OF rx_state_other_block [OF assms]]
  by simp

lemma pending_others:
  assumes "rx_others i fl s" "frame_conn i s s'"
    and "\<And>j a. j \<noteq> i \<Longrightarrow> buf_of fl s j = Some a \<Longrightarrow> heap s' a = heap s a"
  shows "\<forall>j \<in> used fl s - {i}. pending (heap s') (pool s' ! j) = pending (heap s) (pool s ! j)"
proof
  fix j
  assume "j \<in> used fl s - {i}"
  then have j: "j \<in> used fl s" "j \<noteq> i" by auto
  then obtain p where "rx_state (m_pconnections s) (heap s) j (pool s ! j) p"
    using assms(1) by (auto simp: rx_others_def)
  then have "pending (heap s') (pool s ! j) = pending (heap s) (pool s ! j)"
    by (rule pending_same_block) (use j assms(3) in \<open>simp add: buf_of_def\<close>)
  then show "pending (heap s') (pool s' ! j) = pending (heap s) (pool s ! j)"
    using j assms(2) by (simp add: frame_conn_def)
qed

section \<open>Completing a package\<close>

text \<open>The state after the last part of a package: the block is on the queue, the connection idle.\<close>

definition idle_conn :: "nat \<Rightarrow> connection \<Rightarrow> connection" where
  "idle_conn i c = c\<lparr>ifnewrecvMem := False, pnewMemPointer := None, curStat := PKG_HD_INIT,
     precvbuf := Head_buf i 0, irecvlen := 8\<rparr>"

definition delivered_state :: "nat \<Rightarrow> nat list \<Rightarrow> (addr \<rightharpoonup> cell list) \<Rightarrow> 'k csocket \<Rightarrow> 'k csocket" where
  "delivered_state i qs h s = upd_conn i (idle_conn i)
     (put_log L_INF Package_complete (s\<lparr>m_MsgRecvQueue := map Some qs, heap := h\<rparr>))"

lemma delivered_state_simps [simp]:
  "pool (delivered_state i qs h s) = (pool s)[i := idle_conn i (pool s ! i)]"
  "heap (delivered_state i qs h s) = h" "m_MsgRecvQueue (delivered_state i qs h s) = map Some qs"
  "m_pfree_connections (delivered_state i qs h s) = m_pfree_connections s"
  "m_free_connection_n (delivered_state i qs h s) = m_free_connection_n s"
  "m_connection_n (delivered_state i qs h s) = m_connection_n s"
  "m_iLenPkgHeader (delivered_state i qs h s) = m_iLenPkgHeader s"
  "m_iLenMsgHeader (delivered_state i qs h s) = m_iLenMsgHeader s"
  "m_pconnections (delivered_state i qs h s) = m_pconnections s"
  "next_addr (delivered_state i qs h s) = next_addr s" "kern (delivered_state i qs h s) = kern s"
  by (simp_all add: delivered_state_def upd_conn_def)

lemma proc_plast_eq:
  assumes own: "own_inv fl qs s" and i: "i \<in> used fl s"
    and blk: "pnewMemPointer (pool s ! i) = Some a" "heap s a = Some (map Some m)" "msg_ok m"
  obtains h where "wait_request_handler_proc_plast i s = Inr (delivered_state i (trim (qs @ [a])) h s)"
    "owns h (trim (qs @ [a])) ((buf_of fl s)(i := None))" "length (trim (qs @ [a])) < 1000"
    "\<And>b. b \<notin> set qs \<Longrightarrow> h b = heap s b" "\<And>b. b \<in> set (trim (qs @ [a])) \<Longrightarrow> h b = heap s b"
    "dom h \<subseteq> dom (heap s)"
proof -
  have len: "i < length (pool s)" using i by (rule used_less)
  have bi: "buf_of fl s i = Some a" using blk(1) i by (simp add: buf_of_used)
  have ow: "owns (heap s) qs (buf_of fl s)" and q: "m_MsgRecvQueue s = map Some qs"
    and qlen: "length qs < 1000"
    using own by (auto simp: own_inv_def)
  obtain h where inq: "inMsgRecvQueue (Some a) s = Inr (put_log L_INF Package_complete
        (s\<lparr>m_MsgRecvQueue := map Some (trim (qs @ [a])), heap := h\<rparr>))"
    and rest: "owns h (trim (qs @ [a])) ((buf_of fl s)(i := None))" "length (trim (qs @ [a])) < 1000"
      "\<And>b. b \<notin> set qs \<Longrightarrow> h b = heap s b" "\<And>b. b \<in> set (trim (qs @ [a])) \<Longrightarrow> h b = heap s b"
      "dom h \<subseteq> dom (heap s)"
    using inMsgRecvQueue_eq [OF q ow bi blk(2,3) qlen] by blast
  have "wait_request_handler_proc_plast i s = Inr (delivered_state i (trim (qs @ [a])) h s)"
    using len own blk(1)
    by (simp add: wait_request_handler_proc_plast_def inq delivered_state_def idle_conn_def upd_conn_def
        own_inv_def sizeof_COMM_PKG_HEADER_def)
  then show thesis
    using rest by (rule that)
qed

lemma queue_msgs_push:
  assumes "m_MsgRecvQueue s = map Some qs" "heap s a = Some (map Some m)"
    and "m_MsgRecvQueue s' = map Some (trim (qs @ [a]))"
    and "\<And>b. b \<in> set (trim (qs @ [a])) \<Longrightarrow> heap s' b = heap s b"
  shows "queue_msgs s' = trim (queue_msgs s @ [m])"
proof -
  have "queue_msgs s' = map (msg_at (heap s)) (trim (qs @ [a]))"
    using assms(3,4) by (simp add: queue_msgs_eq) (simp add: msg_at_def)
  also have "\<dots> = trim (map (msg_at (heap s)) qs @ [m])"
    using assms(2) by (simp add: map_trim) (simp add: msg_at_def o_def)
  finally show ?thesis
    using assms(1) by (simp add: queue_msgs_eq)
qed

lemma plast_outcome:
  assumes own: "own_inv fl qs s" and others: "rx_others i fl s" and i: "i \<in> used fl s"
    and blk: "pnewMemPointer (pool s ! i) = Some a" "heap s a = Some (map Some m)" "msg_ok m"
    and hd: "length (dataHeadInfo (pool s ! i)) = DATA_BUFSIZE"
  shows "\<exists>s'. wait_request_handler_proc_plast i s = Inr s' \<and>
              rx_outcome fl i s s' [] (trim (queue_msgs s @ [m]))"
proof -
  let ?qs = "trim (qs @ [a])"
  obtain h where run: "wait_request_handler_proc_plast i s = Inr (delivered_state i ?qs h s)" (is "_ = Inr ?s'")
    and ow': "owns h ?qs ((buf_of fl s)(i := None))" and qlen': "length ?qs < 1000"
    and keep: "\<And>b. b \<notin> set qs \<Longrightarrow> h b = heap s b" "\<And>b. b \<in> set ?qs \<Longrightarrow> h b = heap s b"
    and dom': "dom h \<subseteq> dom (heap s)"
    using proc_plast_eq [OF own i blk] by blast
  have len: "i < length (pool s)" using i by (rule used_less)
  have ow: "owns (heap s) qs (buf_of fl s)" and q: "m_MsgRecvQueue s = map Some qs"
    using own by (auto simp: own_inv_def)
  have frame: "frame_conn i s ?s'"
    by (simp add: frame_conn_def delivered_state_def)
  have wf': "heap_wf ?s'"
    using own dom' by (auto simp: own_inv_def heap_wf_def)
  have "own_inv fl ?qs ?s'"
    by (rule own_inv_step [OF own i, where c = "idle_conn i (pool s ! i)", OF _ _ _ _ _ _ _ wf' _ qlen'])
       (simp_all add: ow' idle_conn_def)
  moreover have other_blocks: "heap ?s' b = heap s b" if "j \<noteq> i" "buf_of fl s j = Some b" for j b
    using ow that by (auto simp: owns_def ran_def intro: keep(1))
  moreover have "rx_others i fl ?s'"
    by (rule rx_others_step [OF others _ _ other_blocks]) simp_all
  moreover have idle: "rx_state (m_pconnections ?s') (heap ?s') i (pool ?s' ! i) []"
    using len hd by (simp add: idle_conn_def rx_state_def rx_head_def need_def)
  moreover have "used fl ?s' = used fl s"
    by (rule used_same_length) simp
  ultimately have "sock_inv fl ?qs ?s'"
    using i by (subst sock_inv_split [of i]) auto
  moreover have "queue_msgs ?s' = trim (queue_msgs s @ [m])"
    using q blk(2) by (rule queue_msgs_push) (simp_all add: keep(2))
  ultimately show ?thesis
    using run frame idle pending_others [OF others frame other_blocks] len
    by (auto simp: rx_outcome_def same_role_def idle_conn_def)
qed

section \<open>Completing a header\<close>

text \<open>
  \<open>wait_request_handler_proc_p1\<close> on a connection whose header is complete, when it goes on to
  receive or deliver: the state in which the message header and the package header are stored.
\<close>

definition header_stored :: "nat \<Rightarrow> 'k csocket \<Rightarrow> 'k csocket" where
  "header_stored i s =
     (let a = next_addr s; c = pool s ! i; hdr = take 8 (dataHeadInfo c)
      in s\<lparr>next_addr := Suc a,
           pool := (pool s)[i := c\<lparr>ifnewrecvMem := True, pnewMemPointer := Some a\<rparr>],
           heap := (heap s)(a \<mapsto>
             map Some (msg_header (m_pconnections s) i (c_iCurrsequence c) @ hdr) @
             replicate (e_pkgLen_of hdr - 8) None)\<rparr>)"

text \<open>The fresh block, and the three writes that fill its headers.\<close>

definition block_alloc :: "nat \<Rightarrow> cell list \<Rightarrow> 'k csocket \<Rightarrow> 'k csocket" where
  "block_alloc i b s = upd_conn i (\<lambda>c. c\<lparr>ifnewrecvMem := True, pnewMemPointer := Some (next_addr s)\<rparr>)
     (s\<lparr>heap := (heap s)(next_addr s \<mapsto> b), next_addr := Suc (next_addr s)\<rparr>)"

lemma store_block_alloc:
  assumes "b = map Some p @ replicate n None" "off = length p" "length d \<le> n"
  shows "store_bytes (next_addr s) off d (block_alloc i b s) =
    Inr (block_alloc i (map Some (p @ d) @ replicate (n - length d) None) s)"
  using store_bytes_fill [of "block_alloc i b s" "next_addr s" p n off d] assms
  by (simp add: block_alloc_def upd_conn_def)

lemma block_alloc_header_stored:
  assumes "hdr = take 8 (dataHeadInfo (pool s ! i))"
  shows "block_alloc i (map Some (msg_header (m_pconnections s) i (c_iCurrsequence (pool s ! i)) @ hdr)
            @ replicate (e_pkgLen_of hdr - 8) None) s = header_stored i s"
  by (simp add: assms header_stored_def block_alloc_def upd_conn_def Let_def)

lemma proc_p1_eq:
  assumes len: "i < length (pool s)" and hd: "length (dataHeadInfo (pool s ! i)) = DATA_BUFSIZE"
    and sz: "m_iLenPkgHeader s = sizeof_COMM_PKG_HEADER" "m_iLenMsgHeader s = sizeof_STRUC_MSG_HEADER"
    and hdr: "hdr = take 8 (dataHeadInfo (pool s ! i))"
  shows "wait_request_handler_proc_p1 i s =
    (if bad_len (e_pkgLen_of hdr) then Inr (reset_receive i s)
     else if e_pkgLen_of hdr = 8 then wait_request_handler_proc_plast i (header_stored i s)
     else Inr (upd_conn i (\<lambda>c. c\<lparr>curStat := PKG_BD_INIT,
                 precvbuf := Mem_buf (next_addr s) 24,
                 irecvlen := of_nat (e_pkgLen_of hdr - 8)\<rparr>) (header_stored i s)))"
proof (cases "bad_len (e_pkgLen_of hdr)")
  case True
  then show ?thesis
    using len sz hdr
    by (auto simp: wait_request_handler_proc_p1_def bad_len_def e_pkgLen_of_take
        sizeof_COMM_PKG_HEADER_def Let_def)
next
  case False
  let ?L = "e_pkgLen_of hdr" and ?a = "next_addr s"
  have L: "8 \<le> ?L" and eL: "e_pkgLen_of (dataHeadInfo (pool s ! i)) = ?L"
    using False by (simp_all add: bad_len_def sizeof_COMM_PKG_HEADER_def hdr e_pkgLen_of_take)
  have n: "length hdr = 8" using hd by (simp add: hdr DATA_BUFSIZE_def)
  let ?p = "le_bytes 8 (unat (conn_addr (m_pconnections s) i))"
  let ?q = "le_bytes 8 (unat (c_iCurrsequence (pool s ! i)))"
  define b where "b p n = block_alloc i (map Some p @ replicate n None) s" for p n
  have stores:
    "store_bytes ?a 0 ?p (b [] (16 + ?L)) = Inr (b ?p (8 + ?L))"
    "store_bytes ?a 8 ?q (b ?p (8 + ?L)) = Inr (b (?p @ ?q) ?L)"
    "store_bytes ?a 16 hdr (b (?p @ ?q) ?L) = Inr (header_stored i s)"
    using store_block_alloc [of _ "[]" "16 + ?L" 0 ?p s i] store_block_alloc [of _ ?p "8 + ?L" 8 ?q s i]
      store_block_alloc [of _ "?p @ ?q" ?L 16 hdr s i] block_alloc_header_stored [OF hdr] n L
    by (simp_all add: b_def msg_header_def)
  have alloc: "AllocMemory (int (16 + ?L)) False s =
      Inr (?a, s\<lparr>heap := (heap s)(?a \<mapsto> replicate (16 + ?L) None), next_addr := Suc ?a\<rparr>)"
    by (simp add: AllocMemory_def nat_add_distrib Let_def del: of_nat_add)
  have fields: "m_iLenMsgHeader (b p n) = 16" "m_iLenPkgHeader (b p n) = 8"
    "c_iCurrsequence (pool (b p n) ! i) = c_iCurrsequence (pool s ! i)"
    "dataHeadInfo (pool (b p n) ! i) = dataHeadInfo (pool s ! i)"
    "m_iLenMsgHeader (header_stored i s) = 16" "m_iLenPkgHeader (header_stored i s) = 8" for p n
    using len sz by (simp_all add: b_def block_alloc_def header_stored_def Let_def
        sizeof_STRUC_MSG_HEADER_def sizeof_COMM_PKG_HEADER_def)
  have run: "wait_request_handler_proc_p1 i s =
      bind_res (store_bytes ?a 0 ?p (b [] (16 + ?L))) (\<lambda>s3.
      bind_res (store_bytes ?a 8 (le_bytes 8 (unat (c_iCurrsequence (pool s3 ! i)))) s3) (\<lambda>s4.
      bind_res (store_bytes ?a (m_iLenMsgHeader s4)
                  (take (m_iLenPkgHeader s4) (dataHeadInfo (pool s4 ! i))) s4) (\<lambda>s5.
        if ?L = m_iLenPkgHeader s5 then wait_request_handler_proc_plast i s5
        else Inr (upd_conn i (\<lambda>c. c\<lparr>curStat := PKG_BD_INIT,
               precvbuf := Mem_buf ?a (m_iLenMsgHeader s5 + m_iLenPkgHeader s5),
               irecvlen := of_nat (?L - m_iLenPkgHeader s5)\<rparr>) s5))))"
    using len sz alloc False eL
    by (simp add: wait_request_handler_proc_p1_def Let_def bad_len_def sizeof_STRUC_MSG_HEADER_def
        b_def block_alloc_def del: of_nat_add cong: if_cong)
  show ?thesis
    using False by (simp add: run stores fields hdr [symmetric])
qed

lemma queue_msgs_same:
  assumes "own_inv fl qs s" "m_MsgRecvQueue s' = m_MsgRecvQueue s"
    and "\<And>a. a \<in> set qs \<Longrightarrow> heap s' a = heap s a"
  shows "queue_msgs s' = queue_msgs s"
  using assms by (auto simp: own_inv_def queue_msgs_def msg_at_def)

text \<open>A step that touches neither the heap nor the queue, only fields of connection \<open>i\<close>.\<close>

lemma local_step_outcome:
  assumes own: "own_inv fl qs s" and others: "rx_others i fl s" and i: "i \<in> used fl s"
    and c: "same_role (pool s ! i) c" "pnewMemPointer c = pnewMemPointer (pool s ! i)"
    and s': "s' = upd_conn i (\<lambda>_. c) s"
    and rx: "rx_state (m_pconnections s) (heap s) i c p"
  shows "rx_outcome fl i s s' p (queue_msgs s)"
proof -
  have len: "i < length (pool s)" using i by (rule used_less)
  have pool': "pool s' = (pool s)[i := c]" by (simp add: s')
  have "(buf_of fl s)(i := pnewMemPointer c) = buf_of fl s"
    using i c(2) by (auto simp: buf_of_used)
  then have "own_inv fl qs s'"
    using own i pool'
    by (intro own_inv_step [OF own i pool'])
       (use c(1) in \<open>auto simp: s' own_inv_def heap_wf_def same_role_def\<close>)
  moreover have "rx_others i fl s'"
    using others pool' by (rule rx_others_step) (simp_all add: s')
  moreover have rx': "rx_state (m_pconnections s') (heap s') i (pool s' ! i) p"
    using rx len by (simp add: s')
  moreover have "used fl s' = used fl s"
    by (rule used_same_length) (simp add: pool')
  ultimately have "sock_inv fl qs s'"
    using i by (subst sock_inv_split [of i]) auto
  moreover have frame: "frame_conn i s s'"
    by (simp add: frame_conn_def s')
  moreover have "queue_msgs s' = queue_msgs s"
    by (rule queue_msgs_same [OF own]) (simp_all add: s')
  ultimately show ?thesis
    using rx' c(1) len pending_others [OF others frame]
    by (auto simp: rx_outcome_def s')
qed

lemma header_stored_inv:
  assumes own: "own_inv fl qs s" and others: "rx_others i fl s" and i: "i \<in> used fl s"
    and none: "pnewMemPointer (pool s ! i) = None"
  shows "own_inv fl qs (header_stored i s)" "rx_others i fl (header_stored i s)"
    "i \<in> used fl (header_stored i s)" "frame_conn i s (header_stored i s)"
    "queue_msgs (header_stored i s) = queue_msgs s"
    "\<forall>j \<in> used fl s - {i}. pending (heap (header_stored i s)) (pool (header_stored i s) ! j)
        = pending (heap s) (pool s ! j)"
proof -
  let ?s' = "header_stored i s" and ?a = "next_addr s"
  let ?c = "(pool s ! i)\<lparr>ifnewrecvMem := True, pnewMemPointer := Some ?a\<rparr>"
  have ow: "owns (heap s) qs (buf_of fl s)"
    using own by (simp add: own_inv_def)
  have fresh: "heap s ?a = None"
    using own by (auto simp: own_inv_def heap_wf_def)
  have pool': "pool ?s' = (pool s)[i := ?c]"
    by (simp add: header_stored_def Let_def)
  have heap': "heap ?s' b = heap s b" if "b \<noteq> ?a" for b
    using that by (simp add: header_stored_def Let_def)
  have ow': "owns (heap ?s') qs ((buf_of fl s)(i := pnewMemPointer ?c))"
    using owns_alloc [OF ow fresh, of i] i none
    by (simp add: buf_of_used header_stored_def Let_def)
  show own': "own_inv fl qs ?s'"
    by (rule own_inv_step [OF own i pool' _ _ _ _ _ _ _ _ _ ow'])
       (use own in \<open>auto simp: header_stored_def Let_def own_inv_def heap_wf_def
          intro: less_SucI\<close>)
  have keep: "heap ?s' b = heap s b" if "j \<noteq> i" "buf_of fl s j = Some b" for j b
    using owns_live [OF ow that(2)] fresh by (intro heap') auto
  show "rx_others i fl ?s'"
    using others pool' _ keep by (rule rx_others_step) (simp add: header_stored_def Let_def)
  show "i \<in> used fl ?s'"
    using i used_same_length [of ?s' s fl] by (simp add: pool')
  show frame: "frame_conn i s ?s'"
    by (simp add: frame_conn_def header_stored_def Let_def)
  show "queue_msgs ?s' = queue_msgs s"
  proof (rule queue_msgs_same [OF own])
    fix b
    assume "b \<in> set qs"
    then show "heap ?s' b = heap s b"
      using owns_queue_live [OF ow, of b] fresh by (intro heap') auto
  qed (simp add: header_stored_def Let_def)
  show "\<forall>j \<in> used fl s - {i}. pending (heap ?s') (pool ?s' ! j) = pending (heap s) (pool s ! j)"
    using others frame keep by (rule pending_others)
qed

lemma rx_outcome_trans:
  assumes "rx_outcome fl i s1 s2 p q" "frame_conn i s s1" "same_role (pool s ! i) (pool s1 ! i)"
    "kern s1 = kern s" "used fl s1 = used fl s"
    "\<forall>j \<in> used fl s - {i}. pending (heap s1) (pool s1 ! j) = pending (heap s) (pool s ! j)"
  shows "rx_outcome fl i s s2 p q"
  using assms by (auto simp: rx_outcome_def intro: frame_conn_trans same_role_trans)

lemma header_stored_outcome:
  assumes "own_inv fl qs s" "rx_others i fl s" "i \<in> used fl s" "pnewMemPointer (pool s ! i) = None"
    and "rx_outcome fl i (header_stored i s) s2 p q"
  shows "rx_outcome fl i s s2 p q"
proof -
  note st = header_stored_inv [OF assms(1-4)]
  have "i < length (pool s)" using assms(3) by (rule used_less)
  then have "same_role (pool s ! i) (pool (header_stored i s) ! i)" "kern (header_stored i s) = kern s"
    by (simp_all add: header_stored_def Let_def same_role_def)
  moreover have "used fl (header_stored i s) = used fl s"
    by (rule used_same_length) (simp add: header_stored_def Let_def)
  ultimately show ?thesis
    by (rule rx_outcome_trans [OF assms(5) st(4) _ _ _ st(6)])
qed

text \<open>A package with an empty body is complete with its header.\<close>

lemma header_stored_empty:
  assumes own: "own_inv fl qs s" and others: "rx_others i fl s" and i: "i \<in> used fl s"
    and hd: "length (dataHeadInfo (pool s ! i)) = DATA_BUFSIZE"
    and none: "pnewMemPointer (pool s ! i) = None"
    and hdr: "hdr = take 8 (dataHeadInfo (pool s ! i))"
    and len8: "\<not> bad_len (e_pkgLen_of hdr)" "e_pkgLen_of hdr = 8"
  shows "\<exists>s'. wait_request_handler_proc_plast i (header_stored i s) = Inr s' \<and>
    rx_outcome fl i s s' []
      (trim (queue_msgs s @ [msg_header (m_pconnections s) i (c_iCurrsequence (pool s ! i)) @ hdr]))"
proof -
  note st = header_stored_inv [OF own others i none]
  let ?m = "msg_header (m_pconnections s) i (c_iCurrsequence (pool s ! i)) @ hdr"
  have len: "i < length (pool s)" using i by (rule used_less)
  have "\<exists>s'. wait_request_handler_proc_plast i (header_stored i s) = Inr s' \<and>
    rx_outcome fl i (header_stored i s) s' [] (trim (queue_msgs (header_stored i s) @ [?m]))"
  proof (rule plast_outcome [OF st(1-3)])
    show "pnewMemPointer (pool (header_stored i s) ! i) = Some (next_addr s)"
      "length (dataHeadInfo (pool (header_stored i s) ! i)) = DATA_BUFSIZE"
      using len hd by (simp_all add: header_stored_def Let_def)
    show "heap (header_stored i s) (next_addr s) = Some (map Some ?m)"
      using len8 hdr by (simp add: header_stored_def Let_def)
    show "msg_ok ?m"
      using len8 hd hdr
      by (simp add: msg_ok_def package_ok_def sizeof_STRUC_MSG_HEADER_def DATA_BUFSIZE_def)
  qed
  then show ?thesis
    unfolding st(5) using header_stored_outcome [OF own others i none] by blast
qed

text \<open>Otherwise the body is received into the rest of the block.\<close>

lemma header_stored_body:
  assumes own: "own_inv fl qs s" and others: "rx_others i fl s" and i: "i \<in> used fl s"
    and hd: "length (dataHeadInfo (pool s ! i)) = DATA_BUFSIZE"
    and none: "pnewMemPointer (pool s ! i) = None"
    and hdr: "hdr = take 8 (dataHeadInfo (pool s ! i))"
    and L: "\<not> bad_len (e_pkgLen_of hdr)" "8 < e_pkgLen_of hdr"
  shows "rx_outcome fl i s (upd_conn i (\<lambda>c. c\<lparr>curStat := PKG_BD_INIT,
      precvbuf := Mem_buf (next_addr s) 24, irecvlen := of_nat (e_pkgLen_of hdr - 8)\<rparr>) (header_stored i s))
      hdr (queue_msgs s)"
proof -
  note st = header_stored_inv [OF own others i none]
  have len: "i < length (pool s)" using i by (rule used_less)
  let ?f = "\<lambda>c. c\<lparr>curStat := PKG_BD_INIT, precvbuf := Mem_buf (next_addr s) 24,
              irecvlen := of_nat (e_pkgLen_of hdr - 8)\<rparr>"
  let ?s1 = "header_stored i s" and ?c = "?f (pool (header_stored i s) ! i)"
  have "rx_body (m_pconnections s) (heap ?s1) i ?c hdr"
    using L len hd
    by (simp add: rx_body_def residual_def need_def header_stored_def Let_def hdr DATA_BUFSIZE_def)
  then have "rx_state (m_pconnections ?s1) (heap ?s1) i ?c hdr"
    by (simp add: rx_state_def header_stored_def Let_def)
  then have "rx_outcome fl i ?s1 (upd_conn i ?f ?s1) hdr (queue_msgs ?s1)"
    by (intro local_step_outcome [OF st(1-3), where c = ?c])
       (simp_all add: same_role_def upd_conn_def)
  then show ?thesis
    unfolding st(5) by (rule header_stored_outcome [OF own others i none])
qed

lemma proc_p1_outcome:
  assumes own: "own_inv fl qs s" and others: "rx_others i fl s" and i: "i \<in> used fl s"
    and hd: "length (dataHeadInfo (pool s ! i)) = DATA_BUFSIZE"
    and none: "\<not> ifnewrecvMem (pool s ! i)" "pnewMemPointer (pool s ! i) = None"
    and hdr: "hdr = take 8 (dataHeadInfo (pool s ! i))"
  shows "\<exists>s'. wait_request_handler_proc_p1 i s = Inr s' \<and>
     rx_outcome fl i s s' (snd (rx_accept hdr))
       (deliver (m_pconnections s) i (c_iCurrsequence (pool s ! i)) (fst (rx_accept hdr)) (queue_msgs s))"
proof -
  have len: "i < length (pool s)" using i by (rule used_less)
  have sz: "m_iLenPkgHeader s = sizeof_COMM_PKG_HEADER" "m_iLenMsgHeader s = sizeof_STRUC_MSG_HEADER"
    using own by (auto simp: own_inv_def)
  have n: "length hdr = 8" using hd by (simp add: hdr DATA_BUFSIZE_def)
  note p1 = proc_p1_eq [OF len hd sz hdr]
  let ?L = "e_pkgLen_of hdr"
  consider (bad) "bad_len ?L" | (empty) "\<not> bad_len ?L" "?L = 8" | (body) "\<not> bad_len ?L" "8 < ?L"
    by (fastforce simp: bad_len_def sizeof_COMM_PKG_HEADER_def)
  then show ?thesis
  proof cases
    case bad
    let ?c = "(pool s ! i)\<lparr>curStat := PKG_HD_INIT, precvbuf := Head_buf i 0, irecvlen := 8\<rparr>"
    have "rx_outcome fl i s (upd_conn i (\<lambda>_. ?c) s) [] (queue_msgs s)"
      using own others i none hd
      by (intro local_step_outcome)
         (auto simp: same_role_def rx_state_def rx_head_def need_def)
    then show ?thesis
      using bad p1 n sz
      by (simp add: rx_accept_def deliver_def reset_receive_def upd_conn_def sizeof_COMM_PKG_HEADER_def)
  next
    case empty
    then show ?thesis
      using header_stored_empty [OF own others i hd none(2) hdr] p1 n
      by (simp add: rx_accept_def deliver_def)
  next
    case body
    then show ?thesis
      using header_stored_body [OF own others i hd none(2) hdr] p1 n
      by (simp add: rx_accept_def deliver_def)
  qed
qed

section \<open>Reading data\<close>

lemma need_less: "need p < 65536"
  using e_pkgLen_of_less [of p] by (auto simp: need_def)

lemma uint_u32_of_nat: "n < 65536 \<Longrightarrow> uint (of_nat n :: u32) = int n"
  by (simp add: unsigned_of_nat take_bit_nat_eq_self)

lemma irecvlen_need: "rx_state base h i c p \<Longrightarrow> uint (irecvlen c) = int (need p)"
  using rx_state_irecvlen [of base h i c p] need_less [of p] by (simp add: uint_u32_of_nat)

lemma need_append:
  "residual p \<Longrightarrow> length d \<le> need p \<Longrightarrow> (length p < 8 \<longrightarrow> length (p @ d) < 8)
   \<Longrightarrow> need (p @ d) = need p - length d"
  by (auto simp: need_def residual_def e_pkgLen_of_append)

lemma irecvlen_advance:
  assumes "irecvlen c = of_nat (need p)" "length d \<le> need p"
  shows "irecvlen c - of_int (int (length d)) = (of_nat (need p - length d) :: u32)"
  using assms by simp

text \<open>The bytes arrive in the header array.\<close>

lemma head_write:
  assumes own: "own_inv fl qs s" and others: "rx_others i fl s" and i: "i \<in> used fl s"
    and rx: "rx_head i (pool s ! i) p" and d: "length d \<le> need p"
  shows "\<exists>s1. recv_into (precvbuf (pool s ! i)) d s = Inr s1 \<and>
     s1 = upd_conn i (\<lambda>c. c\<lparr>dataHeadInfo := overwrite (length p) d (dataHeadInfo c)\<rparr>) s \<and>
     own_inv fl qs s1 \<and> rx_others i fl s1 \<and> i \<in> used fl s1 \<and>
     take (length (p @ d)) (dataHeadInfo (pool s1 ! i)) = p @ d \<and>
     length (dataHeadInfo (pool s1 ! i)) = DATA_BUFSIZE"
proof -
  have len: "i < length (pool s)" using i by (rule used_less)
  let ?f = "\<lambda>c. c\<lparr>dataHeadInfo := overwrite (length p) d (dataHeadInfo c)\<rparr>"
  let ?s1 = "upd_conn i ?f s" and ?c = "?f (pool s ! i)"
  have hd: "length (dataHeadInfo (pool s ! i)) = DATA_BUFSIZE" "take (length p) (dataHeadInfo (pool s ! i)) = p"
    and p8: "length p < 8" and pn: "pnewMemPointer (pool s ! i) = None"
    using rx by (simp_all add: rx_head_def)
  have fits: "length p + length d \<le> length (dataHeadInfo (pool s ! i))"
    using d p8 hd(1) by (simp add: need_def DATA_BUFSIZE_def)
  have run: "recv_into (precvbuf (pool s ! i)) d s = Inr ?s1"
    using rx fits len by (simp add: recv_into_def rx_head_def)
  have pool1: "pool ?s1 = (pool s)[i := ?c]" by simp
  have "(buf_of fl s)(i := pnewMemPointer ?c) = buf_of fl s"
    using i by (auto simp: buf_of_used)
  then have "own_inv fl qs ?s1"
    by (intro own_inv_step [OF own i pool1])
       (use own in \<open>auto simp: own_inv_def heap_wf_def\<close>)
  moreover have "rx_others i fl ?s1"
    using others pool1 by (rule rx_others_step) simp_all
  moreover have "i \<in> used fl ?s1"
    using i used_same_length [of ?s1 s fl] by simp
  moreover have "take (length (p @ d)) (dataHeadInfo ?c) = p @ d"
    using take_overwrite_full [of "length p" "dataHeadInfo (pool s ! i)" d] hd fits by simp
  moreover have "length (dataHeadInfo ?c) = DATA_BUFSIZE"
    using hd fits by simp
  ultimately show ?thesis
    using run len by auto
qed

text \<open>The bytes arrive in the message block.\<close>

lemma body_write:
  assumes own: "own_inv fl qs s" and others: "rx_others i fl s" and i: "i \<in> used fl s"
    and rx: "rx_body (m_pconnections s) (heap s) i (pool s ! i) p" and d: "length d \<le> need p"
    and a: "pnewMemPointer (pool s ! i) = Some a"
  shows "\<exists>s1. recv_into (precvbuf (pool s ! i)) d s = Inr s1 \<and>
     s1 = s\<lparr>heap := (heap s)(a \<mapsto>
        map Some (msg_header (m_pconnections s) i (c_iCurrsequence (pool s ! i)) @ p @ d) @
        replicate (need p - length d) None)\<rparr> \<and>
     own_inv fl qs s1 \<and> rx_others i fl s1 \<and> i \<in> used fl s1 \<and> queue_msgs s1 = queue_msgs s \<and>
     (\<forall>j \<in> used fl s - {i}. pending (heap s1) (pool s1 ! j) = pending (heap s) (pool s ! j))"
proof -
  let ?hdr = "msg_header (m_pconnections s) i (c_iCurrsequence (pool s ! i))"
  let ?s1 = "s\<lparr>heap := (heap s)(a \<mapsto>
        map Some (?hdr @ p @ d) @ replicate (need p - length d) None)\<rparr>"
  have ow: "owns (heap s) qs (buf_of fl s)" using own by (simp add: own_inv_def)
  have bi: "buf_of fl s i = Some a" using a i by (simp add: buf_of_used)
  have blk: "heap s a = Some (map Some (?hdr @ p) @ replicate (need p) None)"
    and ptr: "precvbuf (pool s ! i) = Mem_buf a (16 + length p)"
    using rx a by (auto simp: rx_body_def)
  have "store_bytes a (16 + length p) d s = Inr ?s1"
    using store_bytes_fill [OF blk, of "16 + length p" d] d by simp
  then have run: "recv_into (precvbuf (pool s ! i)) d s = Inr ?s1"
    by (simp add: recv_into_def ptr)
  have pool1: "pool ?s1 = (pool s)[i := pool s ! i]" by simp
  have keep: "heap ?s1 b = heap s b" if "b \<noteq> a" for b
    using that by simp
  have "own_inv fl qs ?s1"
    using owns_write [OF ow bi] own
    by (intro own_inv_step [OF own i pool1])
       (use i owns_live [OF ow bi] in \<open>auto simp: own_inv_def heap_wf_def buf_of_used [symmetric]\<close>)
  moreover have others_keep: "heap ?s1 b = heap s b" if "j \<noteq> i" "buf_of fl s j = Some b" for j b
    using owns_inj [OF ow bi] that by (intro keep) auto
  moreover have "rx_others i fl ?s1"
    using others pool1 _ others_keep by (rule rx_others_step) simp
  moreover have "i \<in> used fl ?s1"
    using i used_same_length [of ?s1 s fl] by simp
  moreover have "queue_msgs ?s1 = queue_msgs s"
  proof (rule queue_msgs_same [OF own])
    fix b
    assume "b \<in> set qs"
    then show "heap ?s1 b = heap s b"
      using ow bi by (intro keep) (auto simp: owns_def ran_def)
  qed simp
  moreover have "\<forall>j \<in> used fl s - {i}. pending (heap ?s1) (pool ?s1 ! j) = pending (heap s) (pool s ! j)"
    using others _ others_keep by (rule pending_others) (simp add: frame_conn_def)
  ultimately show ?thesis
    using run by blast
qed

section \<open>One call of the handler\<close>

text \<open>What follows the read, as a function of what was read.\<close>

definition dispatch_read :: "nat \<Rightarrow> int \<Rightarrow> 'k csocket \<Rightarrow> 'k csocket res" where
  "dispatch_read i reco s1 =
     (let c = pool s1 ! i in
      if curStat c = PKG_HD_INIT then
        (if reco = int (m_iLenPkgHeader s1) then wait_request_handler_proc_p1 i s1
         else Inr (advance_receive i PKG_HD_RECVING reco s1))
      else if curStat c = PKG_HD_RECVING then
        (if uint (irecvlen c) = reco then wait_request_handler_proc_p1 i s1
         else Inr (advance_receive i (curStat c) reco s1))
      else if curStat c = PKG_BD_INIT then
        (if reco = uint (irecvlen c) then wait_request_handler_proc_plast i s1
         else Inr (advance_receive i PKG_BD_RECVING reco s1))
      else if curStat c = PKG_BD_RECVING then
        (if reco = uint (irecvlen c) then wait_request_handler_proc_plast i s1
         else Inr (advance_receive i (curStat c) reco s1))
      else Inr s1)"

lemma handler_read_eq:
  assumes "i < length (pool s)"
    and "sys_recv os (c_fd (pool s ! i)) (uint (irecvlen (pool s ! i))) (kern s) = (Recv_bytes d, k)"
    and "d \<noteq> []" "recv_into (precvbuf (pool s ! i)) d (s\<lparr>kern := k\<rparr>) = Inr s1"
    and "i < length (pool s1)"
  shows "wait_request_handler os i s = dispatch_read i (int (length d)) s1"
  using assms by (simp add: wait_request_handler_def recvproc_def dispatch_read_def Let_def)

text \<open>The outcome of what follows the read, counted from a state \<open>s\<close> before it.\<close>

definition dispatched ::
  "nat list \<Rightarrow> nat \<Rightarrow> 'k csocket \<Rightarrow> 'k csocket \<Rightarrow> byte list \<Rightarrow> byte list \<Rightarrow> bool" where
  "dispatched fl i s s1 p d \<longleftrightarrow>
     (\<exists>s'. dispatch_read i (int (length d)) s1 = Inr s' \<and>
        rx_outcome fl i s s' (snd (rx_accept (p @ d)))
          (deliver (m_pconnections s) i (c_iCurrsequence (pool s ! i)) (fst (rx_accept (p @ d)))
            (queue_msgs s)))"

lemma dispatched_from:
  assumes "dispatched fl i s1 s1 p d" "frame_conn i s s1" "same_role (pool s ! i) (pool s1 ! i)"
    "kern s1 = kern s" "used fl s1 = used fl s" "m_pconnections s1 = m_pconnections s"
    "queue_msgs s1 = queue_msgs s"
    "\<forall>j \<in> used fl s - {i}. pending (heap s1) (pool s1 ! j) = pending (heap s) (pool s ! j)"
  shows "dispatched fl i s s1 p d"
  using assms(1,6,7) rx_outcome_trans [OF _ assms(2-5,8)] assms(3)
  by (auto simp: dispatched_def same_role_def)

lemma dispatch_head_full:
  assumes own: "own_inv fl qs s" and others: "rx_others i fl s" and i: "i \<in> used fl s"
    and none: "\<not> ifnewrecvMem (pool s ! i)" "pnewMemPointer (pool s ! i) = None"
    and hd: "take (length (p @ d)) (dataHeadInfo (pool s ! i)) = p @ d"
      "length (dataHeadInfo (pool s ! i)) = DATA_BUFSIZE"
    and stat: "curStat (pool s ! i) = (if p = [] then PKG_HD_INIT else PKG_HD_RECVING)"
      "uint (irecvlen (pool s ! i)) = int (need p)"
    and full: "d \<noteq> []" "length (p @ d) = 8"
  shows "dispatched fl i s s p d"
proof -
  have "m_iLenPkgHeader s = 8"
    using own by (simp add: own_inv_def sizeof_COMM_PKG_HEADER_def)
  moreover have "length d = need p"
    using full by (cases d) (auto simp: need_def)
  ultimately have "dispatch_read i (int (length d)) s = wait_request_handler_proc_p1 i s"
    using stat full by (auto simp: dispatch_read_def Let_def)
  then show ?thesis
    using proc_p1_outcome [OF own others i hd(2) none, of "p @ d"] hd(1) full
    by (simp add: dispatched_def)
qed

lemma dispatch_head_part:
  assumes own: "own_inv fl qs s" and others: "rx_others i fl s" and i: "i \<in> used fl s"
    and rx: "rx_head i ((pool s ! i)\<lparr>dataHeadInfo := h\<rparr>) p"
    and hd: "take (length (p @ d)) (dataHeadInfo (pool s ! i)) = p @ d"
      "length (dataHeadInfo (pool s ! i)) = DATA_BUFSIZE"
    and irl: "irecvlen (pool s ! i) = of_nat (need p)" "uint (irecvlen (pool s ! i)) = int (need p)"
    and d: "d \<noteq> []" and short: "length (p @ d) < 8"
  shows "dispatched fl i s s p d"
proof -
  let ?st = "PKG_HD_RECVING"
  let ?c = "(pool s ! i)\<lparr>curStat := ?st, precvbuf := Head_buf i (length (p @ d)),
                irecvlen := of_nat (need (p @ d))\<rparr>"
  have sz: "m_iLenPkgHeader s = 8"
    using own by (simp add: own_inv_def sizeof_COMM_PKG_HEADER_def)
  have nd: "need p = 8 - length p" "need (p @ d) = need p - length d" "length d < need p"
    using short by (simp_all add: need_def)
  have "upd_conn i (\<lambda>_. ?c) s = advance_receive i ?st (int (length d)) s"
    using irecvlen_advance [of "pool s ! i" p d] irl(1) rx nd(2,3)
    by (simp add: advance_receive_def upd_conn_def rx_head_def ptr_add_def)
  moreover have "dispatch_read i (int (length d)) s = Inr (advance_receive i ?st (int (length d)) s)"
    using rx irl(2) sz d nd(1,3) by (auto simp: rx_head_def dispatch_read_def Let_def)
  moreover have "rx_outcome fl i s (upd_conn i (\<lambda>_. ?c) s) (p @ d) (queue_msgs s)"
    using own others i
  proof (rule local_step_outcome)
    have "rx_head i ?c (p @ d)"
      using rx hd short d by (simp add: rx_head_def)
    then show "rx_state (m_pconnections s) (heap s) i ?c (p @ d)"
      by (simp add: rx_state_def)
  qed (simp_all add: same_role_def)
  ultimately show ?thesis
    using short by (simp add: dispatched_def rx_accept_def deliver_def)
qed

lemma dispatch_head:
  assumes own: "own_inv fl qs s" and others: "rx_others i fl s" and i: "i \<in> used fl s"
    and rx: "rx_head i (pool s ! i) p" and d: "d \<noteq> []" "length d \<le> need p"
  shows "\<exists>s1. recv_into (precvbuf (pool s ! i)) d s = Inr s1 \<and> i < length (pool s1) \<and>
     dispatched fl i s s1 p d"
proof -
  have len: "i < length (pool s)" using i by (rule used_less)
  obtain s1 where run: "recv_into (precvbuf (pool s ! i)) d s = Inr s1"
    and s1: "s1 = upd_conn i (\<lambda>c. c\<lparr>dataHeadInfo := overwrite (length p) d (dataHeadInfo c)\<rparr>) s"
    and st: "own_inv fl qs s1" "rx_others i fl s1" "i \<in> used fl s1"
    and hd: "take (length (p @ d)) (dataHeadInfo (pool s1 ! i)) = p @ d"
      "length (dataHeadInfo (pool s1 ! i)) = DATA_BUFSIZE"
    using head_write [OF own others i rx d(2)] by blast
  have rxp: "rx_state (m_pconnections s) (heap s) i (pool s ! i) p" and p8: "length p < 8"
    using rx by (simp_all add: rx_state_def rx_head_def)
  have restore: "(pool s1 ! i)\<lparr>dataHeadInfo := dataHeadInfo (pool s ! i)\<rparr> = pool s ! i"
    using len by (simp add: s1)
  have same: "irecvlen (pool s1 ! i) = irecvlen (pool s ! i)" "ifnewrecvMem (pool s1 ! i) = ifnewrecvMem (pool s ! i)"
    "pnewMemPointer (pool s1 ! i) = pnewMemPointer (pool s ! i)" "curStat (pool s1 ! i) = curStat (pool s ! i)"
    using len by (simp_all add: s1)
  have "dispatched fl i s1 s1 p d"
  proof (cases "length (p @ d) = 8")
    case True
    show ?thesis
      using rx same True irecvlen_need [OF rxp] d(1)
      by (intro dispatch_head_full [OF st _ _ hd]) (simp_all add: rx_head_def)
  next
    case False
    then have "length (p @ d) < 8"
      using d(2) p8 by (simp add: need_def)
    then show ?thesis
      using rx_state_irecvlen [OF rxp] irecvlen_need [OF rxp] same(1) rx d(1)
      by (intro dispatch_head_part [OF st, of "dataHeadInfo (pool s ! i)", OF _ hd]) (simp_all add: restore)
  qed
  moreover have q1: "queue_msgs s1 = queue_msgs s"
    by (rule queue_msgs_same [OF own]) (simp_all add: s1)
  ultimately have "dispatched fl i s s1 p d"
    by (intro dispatched_from [OF _ _ _ _ _ _ q1])
       (use len in \<open>auto simp: s1 same_role_def frame_conn_def used_def\<close>)
  then show ?thesis
    using run used_less [OF st(3)] by blast
qed

lemma dispatch_body_full:
  assumes own: "own_inv fl qs s" and others: "rx_others i fl s" and i: "i \<in> used fl s"
    and stat: "curStat (pool s ! i) = (if length p = 8 then PKG_BD_INIT else PKG_BD_RECVING)"
      "uint (irecvlen (pool s ! i)) = int (length d)"
    and blk: "pnewMemPointer (pool s ! i) = Some a" "length (dataHeadInfo (pool s ! i)) = DATA_BUFSIZE"
      "heap s a = Some (map Some (msg_header (m_pconnections s) i (c_iCurrsequence (pool s ! i)) @ p @ d))"
    and full: "8 \<le> length p" "\<not> bad_len (e_pkgLen_of (p @ d))" "length (p @ d) = e_pkgLen_of (p @ d)"
  shows "dispatched fl i s s p d"
proof -
  let ?m = "msg_header (m_pconnections s) i (c_iCurrsequence (pool s ! i)) @ p @ d"
  have "msg_ok ?m"
    using full by (simp add: msg_ok_def package_ok_def sizeof_STRUC_MSG_HEADER_def)
  then obtain s' where "wait_request_handler_proc_plast i s = Inr s'"
    "rx_outcome fl i s s' [] (trim (queue_msgs s @ [?m]))"
    using plast_outcome [OF own others i blk(1,3) _ blk(2)] by blast
  moreover have "dispatch_read i (int (length d)) s = wait_request_handler_proc_plast i s"
    using stat by (auto simp: dispatch_read_def Let_def)
  moreover have "rx_accept (p @ d) = (Some (p @ d), [])"
    using full by (simp add: rx_accept_def)
  ultimately show ?thesis
    by (simp add: dispatched_def deliver_def)
qed

lemma dispatch_body_part:
  assumes own: "own_inv fl qs s" and others: "rx_others i fl s" and i: "i \<in> used fl s"
    and rx: "rx_body (m_pconnections s) h i (pool s ! i) p" and a: "pnewMemPointer (pool s ! i) = Some a"
    and blk: "heap s a = Some (map Some (msg_header (m_pconnections s) i (c_iCurrsequence (pool s ! i)) @ p @ d)
      @ replicate (need p - length d) None)"
    and irl: "irecvlen (pool s ! i) = of_nat (need p)" "uint (irecvlen (pool s ! i)) = int (need p)"
    and d: "d \<noteq> []" "length d < need p"
  shows "dispatched fl i s s p d"
proof -
  let ?c = "pool s ! i" and ?st = "PKG_BD_RECVING"
  let ?c' = "?c\<lparr>curStat := ?st, precvbuf := Mem_buf a (16 + length (p @ d)),
                irecvlen := of_nat (need (p @ d))\<rparr>"
  have p8: "8 \<le> length p" and res: "residual p" and L: "e_pkgLen_of (p @ d) = e_pkgLen_of p"
    using rx by (simp_all add: rx_body_def e_pkgLen_of_append)
  have fine: "\<not> bad_len (e_pkgLen_of p)" "length p < e_pkgLen_of p" "need p = e_pkgLen_of p - length p"
    using p8 res by (auto simp: residual_def need_def)
  have nd: "need (p @ d) = need p - length d"
    using need_append [OF res, of d] d p8 by simp
  have "precvbuf ?c = Mem_buf a (16 + length p)"
    using rx a by (auto simp: rx_body_def)
  then have "upd_conn i (\<lambda>_. ?c') s = advance_receive i ?st (int (length d)) s"
    using irecvlen_advance [of ?c p d] irl(1) d nd
    by (simp add: advance_receive_def upd_conn_def ptr_add_def add.assoc)
  moreover have "dispatch_read i (int (length d)) s = Inr (advance_receive i ?st (int (length d)) s)"
    using rx irl d by (auto simp: rx_body_def dispatch_read_def Let_def)
  moreover have "rx_outcome fl i s (upd_conn i (\<lambda>_. ?c') s) (p @ d) (queue_msgs s)"
    using own others i
  proof (rule local_step_outcome)
    have "length p + length d \<noteq> 8" "length p + length d < e_pkgLen_of p"
      using p8 d(2) fine(3) length_greater_0_conv [THEN iffD2, OF d(1)] by linarith+
    then show "rx_state (m_pconnections s) (heap s) i ?c' (p @ d)"
      using rx blk a d nd fine L p8 by (simp add: rx_state_def rx_body_def residual_def)
  qed (simp_all add: same_role_def)
  moreover have "rx_accept (p @ d) = (None, p @ d)"
    using d fine L p8 by (simp add: rx_accept_def)
  ultimately show ?thesis
    by (simp add: dispatched_def deliver_def)
qed

lemma dispatch_body:
  assumes own: "own_inv fl qs s" and others: "rx_others i fl s" and i: "i \<in> used fl s"
    and rx: "rx_body (m_pconnections s) (heap s) i (pool s ! i) p"
    and d: "d \<noteq> []" "length d \<le> need p"
  shows "\<exists>s1. recv_into (precvbuf (pool s ! i)) d s = Inr s1 \<and> i < length (pool s1) \<and>
     dispatched fl i s s1 p d"
proof -
  let ?hdr = "msg_header (m_pconnections s) i (c_iCurrsequence (pool s ! i))"
  obtain a where a: "pnewMemPointer (pool s ! i) = Some a"
    using rx by (auto simp: rx_body_def)
  obtain s1 where run: "recv_into (precvbuf (pool s ! i)) d s = Inr s1"
    and s1: "s1 = s\<lparr>heap := (heap s)(a \<mapsto> map Some (?hdr @ p @ d) @ replicate (need p - length d) None)\<rparr>"
    and st: "own_inv fl qs s1" "rx_others i fl s1" "i \<in> used fl s1"
    and q1: "queue_msgs s1 = queue_msgs s"
    and pend: "\<forall>j \<in> used fl s - {i}. pending (heap s1) (pool s1 ! j) = pending (heap s) (pool s ! j)"
    using body_write [OF own others i rx d(2) a] by blast
  have rxp: "rx_state (m_pconnections s) (heap s) i (pool s ! i) p"
    using rx by (simp add: rx_state_def)
  have "dispatched fl i s1 s1 p d"
  proof (cases "length d = need p")
    case True
    then have "\<not> bad_len (e_pkgLen_of (p @ d))" "length (p @ d) = e_pkgLen_of (p @ d)" "8 \<le> length p"
      using rx by (auto simp: rx_body_def residual_def need_def e_pkgLen_of_append)
    then show ?thesis
      using rx a True irecvlen_need [OF rxp]
      by (intro dispatch_body_full [OF st, of _ _ a]) (simp_all add: s1 rx_body_def)
  next
    case False
    then show ?thesis
      using rx a d irecvlen_need [OF rxp] rx_state_irecvlen [OF rxp]
      by (intro dispatch_body_part [OF st, of "heap s" _ a]) (simp_all add: s1)
  qed
  then have "dispatched fl i s s1 p d"
    by (rule dispatched_from [OF _ _ _ _ _ _ q1 pend]) (simp_all add: s1 frame_conn_def used_def)
  then show ?thesis
    using run used_less [OF st(3)] by blast
qed

section \<open>The outcomes of one call\<close>

text \<open>\<open>recv\<close> delivers at most as many bytes as it was asked for.\<close>

definition recv_bounded :: "'k os \<Rightarrow> bool" where
  "recv_bounded os \<longleftrightarrow>
     (\<forall>fd n k d k'. 0 < n \<longrightarrow> sys_recv os fd n k = (Recv_bytes d, k') \<longrightarrow> int (length d) \<le> n)"

lemma sock_inv_parts:
  assumes "sock_inv fl qs s" "i \<in> used fl s"
  shows "own_inv fl qs s" "rx_others i fl s"
    "\<exists>p. rx_state (m_pconnections s) (heap s) i (pool s ! i) p"
  using assms sock_inv_split [OF assms(2), of qs] by auto

lemma handler_data:
  assumes inv: "sock_inv fl qs s" and i: "i \<in> used fl s"
    and rx: "rx_state (m_pconnections s) (heap s) i (pool s ! i) p"
    and recv: "sys_recv os (c_fd (pool s ! i)) (int (need p)) (kern s) = (Recv_bytes d, k)"
    and d: "d \<noteq> []" "length d \<le> need p"
  shows "\<exists>s'. wait_request_handler os i s = Inr s' \<and>
     rx_outcome fl i (s\<lparr>kern := k\<rparr>) s' (snd (rx_accept (p @ d)))
       (deliver (m_pconnections s) i (c_iCurrsequence (pool s ! i)) (fst (rx_accept (p @ d))) (queue_msgs s))"
proof -
  let ?s = "s\<lparr>kern := k\<rparr>"
  have inv': "sock_inv fl qs ?s" and i': "i \<in> used fl ?s" and len: "i < length (pool s)"
    using inv i by (simp_all add: used_def)
  note parts = sock_inv_parts(1,2) [OF inv' i'] i'
  have "\<exists>s1. recv_into (precvbuf (pool ?s ! i)) d ?s = Inr s1 \<and> i < length (pool s1) \<and>
     dispatched fl i ?s s1 p d"
    using rx unfolding rx_state_def
  proof
    assume "rx_head i (pool s ! i) p"
    then show ?thesis using d by (intro dispatch_head [OF parts]) simp_all
  next
    assume "rx_body (m_pconnections s) (heap s) i (pool s ! i) p"
    then show ?thesis using d by (intro dispatch_body [OF parts]) simp_all
  qed
  moreover have "queue_msgs ?s = queue_msgs s"
    by (auto simp: queue_msgs_def split: option.split)
  moreover have "uint (irecvlen (pool s ! i)) = int (need p)"
    using rx by (rule irecvlen_need)
  ultimately show ?thesis
    using handler_read_eq [OF len _ d(1)] recv by (fastforce simp: dispatched_def)
qed

text \<open>The peer closed the connection, or the read failed for good.\<close>

definition recv_fatal :: "recv_result \<Rightarrow> bool" where
  "recv_fatal r \<longleftrightarrow>
     (case r of Recv_bytes d \<Rightarrow> d = [] | Recv_err e \<Rightarrow> e \<noteq> EAGAIN \<and> e \<noteq> EINTR)"

lemma queue_msgs_close:
  assumes "sock_inv fl qs s" "i \<in> used fl s" "close_connection os i s = Inr s'"
  shows "queue_msgs s' = queue_msgs s"
proof -
  have own: "own_inv fl qs s" and ow: "owns (heap s) qs (buf_of fl s)"
    using assms(1) by (simp_all add: sock_inv_def own_inv_def)
  obtain p where rx: "rx_state (m_pconnections s) (heap s) i (pool s ! i) p"
    using sock_inv_parts(3) [OF assms(1,2)] by blast
  have bi: "buf_of fl s i = pnewMemPointer (pool s ! i)"
    using assms(2) by (rule buf_of_used)
  have live: "a \<in> dom (heap s)" if "pnewMemPointer (pool s ! i) = Some a" for a
    using owns_live [OF ow] bi that by simp
  note s' = close_connection_eq [OF used_less [OF assms(2)] rx_state_new_iff [OF rx] live, of os]
  show ?thesis
  proof (rule queue_msgs_same [OF own])
    show "m_MsgRecvQueue s' = m_MsgRecvQueue s"
      using s' assms(3) by auto
    fix b
    assume "b \<in> set qs"
    then have "pnewMemPointer (pool s ! i) \<noteq> Some b"
      using owns_apart [OF ow, of i b] bi by auto
    then show "heap s' b = heap s b"
      using s' assms(3) by (auto split: option.splits)
  qed
qed

lemma sock_inv_close:
  assumes inv: "sock_inv fl qs s" and i: "i \<in> used fl s"
  shows "\<exists>s'. close_connection os i s = Inr s' \<and> sock_inv (i # fl) qs s' \<and> frame_conn i s s' \<and>
     kern s' = snd (sys_close os (c_fd (pool s ! i)) (kern s)) \<and>
     pool s' ! i = closed_connection (m_pfree_connections s) (pool s ! i) \<and>
     queue_msgs s' = queue_msgs s \<and>
     (\<forall>j \<in> used fl s - {i}. pending (heap s') (pool s' ! j) = pending (heap s) (pool s ! j))"
proof -
  obtain s' where s': "close_connection os i s = Inr s'" "sock_inv (i # fl) qs s'" "frame_conn i s s'"
    "kern s' = snd (sys_close os (c_fd (pool s ! i)) (kern s))"
    "pool s' ! i = closed_connection (m_pfree_connections s) (pool s ! i)"
    and keep: "\<forall>j \<in> used (i # fl) s'. \<forall>a. pnewMemPointer (pool s ! j) = Some a \<longrightarrow> heap s' a = heap s a"
    using close_connection_inv [OF inv i, of os] by blast
  have "used (i # fl) s' = used fl s - {i}"
    using s'(3) by (intro used_release) (simp add: frame_conn_def)
  then have "heap s' a = heap s a" if "j \<noteq> i" "buf_of fl s j = Some a" for j a
    using that keep by (auto simp: buf_of_def split: if_splits)
  then have "\<forall>j \<in> used fl s - {i}. pending (heap s') (pool s' ! j) = pending (heap s) (pool s ! j)"
    using sock_inv_parts(2) [OF inv i] s'(3) by (intro pending_others)
  then show ?thesis
    using s' queue_msgs_close [OF inv i s'(1)] by blast
qed

lemma handler_fatal:
  assumes inv: "sock_inv fl qs s" and i: "i \<in> used fl s"
    and recv: "sys_recv os (c_fd (pool s ! i)) (uint (irecvlen (pool s ! i))) (kern s) = (r, k)"
    and fatal: "recv_fatal r"
  shows "\<exists>s' l. wait_request_handler os i s = Inr s' \<and>
     close_connection os i (s\<lparr>kern := k, logs := l\<rparr>) = Inr s'"
proof -
  have len: "i < length (pool s)" using i by (rule used_less)
  have inv': "sock_inv fl qs (s\<lparr>kern := k, logs := l\<rparr>)" for l
    using inv by (rule sock_inv_same_mem) simp_all
  have "\<exists>s'. close_connection os i (s\<lparr>kern := k, logs := l\<rparr>) = Inr s'" for l
    using sock_inv_close [OF inv' [of l], of i os] i by (auto simp: used_def)
  then obtain f where f: "\<And>l. close_connection os i (s\<lparr>kern := k, logs := l\<rparr>) = Inr (f l)"
    by metis
  have eq: "s\<lparr>kern := k\<rparr> = s\<lparr>kern := k, logs := logs s\<rparr>" by simp
  show ?thesis
  proof (cases r)
    case (Recv_bytes d)
    then have "wait_request_handler os i s = Inr (f (logs s))"
      using len recv fatal f [of "logs s"]
      by (simp add: wait_request_handler_def recvproc_def recv_fatal_def)
    then show ?thesis using f by blast
  next
    case (Recv_err e)
    then have "wait_request_handler os i s =
        Inr (f (if e = ECONNRESET then logs s else logs s @ [Log L_ERR Recvproc_error]))"
      using len recv fatal f [of "logs s"] f [of "logs s @ [Log L_ERR Recvproc_error]"]
      by (simp add: wait_request_handler_def recvproc_def recv_fatal_def put_log_def)
    then show ?thesis using f by blast
  qed
qed

lemma handler_retry:
  assumes "i < length (pool s)"
    and "sys_recv os (c_fd (pool s ! i)) (uint (irecvlen (pool s ! i))) (kern s) = (Recv_err e, k)"
    and "e = EAGAIN \<or> e = EINTR"
  shows "wait_request_handler os i s = Inr (s\<lparr>kern := k\<rparr>)"
  using assms by (auto simp: wait_request_handler_def recvproc_def)

end
