(* ===== verification/Socket_Stream.thy ===== *)
theory Socket_Stream
  imports Socket_Recv
begin

text \<open>
  The receive path over a whole connection: the calls of \<open>wait_request_handler\<close> that the event
  loop makes for one socket, from a kernel that hands out a byte stream in pieces of any size.
  What reaches the message queue is the stream cut by \<open>deframe\<close>, whatever the pieces are.
\<close>

section \<open>The handler never faults\<close>

lemma used_conn_fd:
  assumes "sock_inv fl qs s" "i < length (pool s)"
  shows "i \<in> used fl s \<longleftrightarrow> c_fd (pool s ! i) \<noteq> -1"
  using assms by (auto simp: sock_inv_def own_inv_def pool_wf_def used_def)

lemma rx_outcome_inv: "rx_outcome fl i s s' p q \<Longrightarrow> \<exists>qs'. sock_inv fl qs' s'"
  by (simp add: rx_outcome_def)

lemma handler_closes:
  assumes inv: "sock_inv fl qs s" and i: "i \<in> used fl s" and r: "recv_fatal r"
    and recv: "sys_recv os (c_fd (pool s ! i)) (uint (irecvlen (pool s ! i))) (kern s) = (r, k)"
  shows "\<exists>s'. wait_request_handler os i s = Inr s' \<and> sock_inv (i # fl) qs s' \<and> frame_conn i s s' \<and>
     c_fd (pool s' ! i) = -1 \<and> queue_msgs s' = queue_msgs s \<and>
     kern s' = snd (sys_close os (c_fd (pool s ! i)) k)"
proof -
  obtain s' l where h: "wait_request_handler os i s = Inr s'"
    and c: "close_connection os i (s\<lparr>kern := k, logs := l\<rparr>) = Inr s'"
    using handler_fatal [OF inv i recv r] by blast
  have inv': "sock_inv fl qs (s\<lparr>kern := k, logs := l\<rparr>)"
    using inv by (rule sock_inv_same_mem) simp_all
  have "queue_msgs (s\<lparr>kern := k, logs := l\<rparr>) = queue_msgs s"
    by (auto simp: queue_msgs_def split: option.split)
  then show ?thesis
    using h sock_inv_close [OF inv', of i os] c i used_less [OF i]
    by (auto simp: used_def frame_conn_def closed_connection_def)
qed

lemma handler_preserves:
  assumes inv: "sock_inv fl qs s" and i: "i \<in> used fl s" and os: "recv_bounded os"
  shows "\<exists>s' fl' qs'. wait_request_handler os i s = Inr s' \<and> sock_inv fl' qs' s' \<and>
           (fl' = fl \<or> fl' = i # fl) \<and> frame_conn i s s' \<and>
           (fl' = fl \<longrightarrow> same_role (pool s ! i) (pool s' ! i)) \<and>
           (\<exists>k. k = snd (sys_recv os (c_fd (pool s ! i)) (uint (irecvlen (pool s ! i))) (kern s)) \<and>
                (kern s' = k \<or> kern s' = snd (sys_close os (c_fd (pool s ! i)) k)))"
proof -
  have len: "i < length (pool s)" using i by (rule used_less)
  obtain p where rx: "rx_state (m_pconnections s) (heap s) i (pool s ! i) p"
    using sock_inv_parts(3) [OF inv i] by blast
  have il: "uint (irecvlen (pool s ! i)) = int (need p)"
    using rx by (rule irecvlen_need)
  obtain r k where recv: "sys_recv os (c_fd (pool s ! i)) (uint (irecvlen (pool s ! i))) (kern s) = (r, k)"
    by fastforce
  consider "recv_fatal r" | d where "\<not> recv_fatal r" "r = Recv_bytes d" | e where "\<not> recv_fatal r" "r = Recv_err e"
    by (cases r) auto
  then show ?thesis
  proof cases
    case 1
    show ?thesis using handler_closes [OF inv i 1 recv] recv by fastforce
  next
    case (2 d)
    have "0 < need p"
      using rx_state_residual [OF rx] by (rule need_pos)
    then have "int (length d) \<le> int (need p)"
      using os recv il 2 unfolding recv_bounded_def by (metis of_nat_0_less_iff)
    then have "d \<noteq> []" "length d \<le> need p"
      using 2 by (simp_all add: recv_fatal_def)
    then obtain s' where s': "wait_request_handler os i s = Inr s'"
      "rx_outcome fl i (s\<lparr>kern := k\<rparr>) s' (snd (rx_accept (p @ d)))
         (deliver (m_pconnections s) i (c_iCurrsequence (pool s ! i)) (fst (rx_accept (p @ d))) (queue_msgs s))"
      using handler_data [OF inv i rx] recv 2 il by metis
    then have "frame_conn i s s'" "same_role (pool s ! i) (pool s' ! i)" "kern s' = k"
      by (simp_all add: rx_outcome_def frame_conn_def)
    then show ?thesis
      using s'(1) rx_outcome_inv [OF s'(2)] recv by fastforce
  next
    case (3 e)
    then have "wait_request_handler os i s = Inr (s\<lparr>kern := k\<rparr>)"
      using handler_retry [OF len] recv by (auto simp: recv_fatal_def)
    moreover have "frame_conn i s (s\<lparr>kern := k\<rparr>)"
      by (simp add: frame_conn_def)
    ultimately show ?thesis
      using sock_inv_kern [OF inv] recv by fastforce
  qed
qed

section \<open>A stream socket\<close>

text \<open>
  The documented behaviour of \<open>recv\<close> on a non-blocking stream socket: of the bytes
  \<open>stream k\<close> still to come it takes a prefix of at most the requested length, it returns 0
  bytes only at the end of the stream, and with \<open>EAGAIN\<close> or \<open>EINTR\<close> it takes nothing.
\<close>

definition recv_law :: "'k os \<Rightarrow> int \<Rightarrow> ('k \<Rightarrow> byte list) \<Rightarrow> int \<Rightarrow> 'k \<Rightarrow> bool" where
  "recv_law os fd stream n k \<longleftrightarrow>
     (case sys_recv os fd n k of
        (Recv_bytes d, k') \<Rightarrow>
          int (length d) \<le> n \<and> stream k = d @ stream k' \<and> (d = [] \<longrightarrow> stream k = [])
      | (Recv_err e, k') \<Rightarrow> (e = EAGAIN \<or> e = EINTR) \<and> stream k' = stream k)"

definition stream_socket :: "'k os \<Rightarrow> int \<Rightarrow> ('k \<Rightarrow> byte list) \<Rightarrow> bool" where
  "stream_socket os fd stream \<longleftrightarrow> (\<forall>n k. 0 < n \<longrightarrow> recv_law os fd stream n k)"

text \<open>Data, or the end of the stream, is always ready: level-triggered epoll calls the handler only then.\<close>

definition always_ready :: "'k os \<Rightarrow> int \<Rightarrow> bool" where
  "always_ready os fd \<longleftrightarrow> (\<forall>n k e. fst (sys_recv os fd n k) \<noteq> Recv_err e)"

text \<open>At most \<open>n\<close> calls of the handler; none after the connection was closed.\<close>

primrec rx_calls :: "'k os \<Rightarrow> nat \<Rightarrow> nat \<Rightarrow> 'k csocket \<Rightarrow> 'k csocket res" where
  "rx_calls os i 0 s = Inr s"
| "rx_calls os i (Suc n) s =
     bind_res (conn_at s i) (\<lambda>c.
       if c_fd c = -1 then Inr s
       else bind_res (wait_request_handler os i s) (rx_calls os i n))"

text \<open>The queue after the packages \<open>ms\<close> were delivered one by one.\<close>

definition deliver_all ::
  "u64 \<Rightarrow> nat \<Rightarrow> u64 \<Rightarrow> byte list list \<Rightarrow> byte list list \<Rightarrow> byte list list" where
  "deliver_all base i seqno ms q = fold (\<lambda>m. deliver base i seqno (Some m)) ms q"

lemma deliver_all_Nil [simp]: "deliver_all base i sq [] q = q"
  by (simp add: deliver_all_def)

lemma deliver_all_append:
  "deliver_all base i sq (ms @ ms') q = deliver_all base i sq ms' (deliver_all base i sq ms q)"
  by (simp add: deliver_all_def)

lemma deliver_all_option:
  "deliver_all base i sq (case r of None \<Rightarrow> [] | Some m \<Rightarrow> [m]) q = deliver base i sq r q"
  by (cases r) (simp_all add: deliver_all_def deliver_def)

lemma deliver_all_small:
  "length q + length ms < 1000
   \<Longrightarrow> deliver_all base i sq ms q = q @ map (\<lambda>m. msg_header base i sq @ m) ms"
proof (induction ms arbitrary: q)
  case Nil
  then show ?case by simp
next
  case (Cons m ms)
  then have "deliver base i sq (Some m) q = q @ [msg_header base i sq @ m]"
    by (simp add: deliver_def trim_def trim_count_def)
  then show ?case
    using Cons by (simp add: deliver_all_def)
qed

text \<open>
  In general the queue ends with the newest of what was in it and what was delivered: it loses only its
  oldest entries, and it loses any only when at least 500 newer ones remain.
\<close>

lemma trim_suffix: "\<exists>d. trim q = drop d q \<and> (d = 0 \<or> 500 \<le> length (trim q))"
  by (rule exI [of _ "trim_count (length q)"]) (simp add: trim_def trim_count_def)

lemma deliver_all_suffix:
  "\<exists>d. deliver_all base i sq ms q = drop d (q @ map (\<lambda>m. msg_header base i sq @ m) ms) \<and>
     (d = 0 \<or> 500 \<le> length (deliver_all base i sq ms q))"
proof (induction ms rule: rev_induct)
  case Nil
  then show ?case by (intro exI [of _ 0]) simp
next
  case (snoc m ms)
  let ?all = "\<lambda>ms. q @ map (\<lambda>m. msg_header base i sq @ m) ms"
  let ?new = "deliver_all base i sq ms q @ [msg_header base i sq @ m]"
  obtain d where d: "deliver_all base i sq ms q = drop d (?all ms)"
    "d = 0 \<or> 500 \<le> length (deliver_all base i sq ms q)"
    using snoc.IH by blast
  obtain e where e: "trim ?new = drop e ?new" "e = 0 \<or> 500 \<le> length (trim ?new)"
    using trim_suffix by blast
  have run: "deliver_all base i sq (ms @ [m]) q = trim ?new"
    by (simp add: deliver_all_append) (simp add: deliver_all_def deliver_def)
  have "\<exists>d'. ?new = drop d' (?all (ms @ [m])) \<and> (d' = 0 \<or> 500 \<le> length ?new)"
  proof (cases "d = 0")
    case True
    then show ?thesis using d(1) by (intro exI [of _ 0]) simp
  next
    case False
    then have "500 \<le> length (?all ms) - d" using d by simp
    then have "d \<le> length (?all ms)" by linarith
    then show ?thesis
      using d False by (intro exI [of _ d]) simp
  qed
  then obtain d' where d': "?new = drop d' (?all (ms @ [m]))" "d' = 0 \<or> 500 \<le> length ?new" by blast
  have "trim ?new = drop (e + d') (?all (ms @ [m]))"
    using e(1) unfolding d'(1) by (simp only: drop_drop)
  moreover have "e + d' = 0 \<or> 500 \<le> length (trim ?new)"
    using e d'(2) by (cases "e = 0") simp_all
  ultimately show ?case
    unfolding run by blast
qed

text \<open>One call, in the words of the stream.\<close>

lemma stream_step:
  assumes inv: "sock_inv fl qs s" and i: "i \<in> used fl s"
    and rx: "rx_state (m_pconnections s) (heap s) i (pool s ! i) p"
    and os: "stream_socket os (c_fd (pool s ! i)) stream"
  obtains (data) s' d where "wait_request_handler os i s = Inr s'" "d \<noteq> []"
      "length d \<le> need p" "stream (kern s) = d @ stream (kern s')"
      "rx_outcome fl i (s\<lparr>kern := kern s'\<rparr>) s' (snd (rx_accept (p @ d)))
        (deliver (m_pconnections s) i (c_iCurrsequence (pool s ! i)) (fst (rx_accept (p @ d))) (queue_msgs s))"
  | (retry) k where "wait_request_handler os i s = Inr (s\<lparr>kern := k\<rparr>)" "stream k = stream (kern s)"
      "\<not> always_ready os (c_fd (pool s ! i))"
  | (eof) s' where "wait_request_handler os i s = Inr s'" "stream (kern s) = []"
      "sock_inv (i # fl) qs s'" "c_fd (pool s' ! i) = -1" "queue_msgs s' = queue_msgs s"
      "frame_conn i s s'"
proof -
  have len: "i < length (pool s)" using i by (rule used_less)
  have il: "uint (irecvlen (pool s ! i)) = int (need p)"
    using rx by (rule irecvlen_need)
  obtain r k where recv: "sys_recv os (c_fd (pool s ! i)) (int (need p)) (kern s) = (r, k)"
    by fastforce
  have "0 < need p"
    using rx_state_residual [OF rx] by (rule need_pos)
  then have law: "recv_law os (c_fd (pool s ! i)) stream (int (need p)) (kern s)"
    using os by (simp add: stream_socket_def)
  show thesis
  proof (cases r)
    case (Recv_err e)
    then have "e = EAGAIN \<or> e = EINTR" "stream k = stream (kern s)"
      using law recv by (simp_all add: recv_law_def)
    moreover have "\<not> always_ready os (c_fd (pool s ! i))"
      using recv Recv_err by (auto simp: always_ready_def intro: exI [of _ "int (need p)"]) (metis fst_conv)
    ultimately show thesis
      using handler_retry [OF len] recv Recv_err il by (intro retry [of k]) auto
  next
    case (Recv_bytes d)
    then have l: "length d \<le> need p" "stream (kern s) = d @ stream k" "d = [] \<longrightarrow> stream (kern s) = []"
      using law recv unfolding recv_law_def Recv_bytes by auto
    show thesis
    proof (cases "d = []")
      case False
      obtain s' where s': "wait_request_handler os i s = Inr s'"
        "rx_outcome fl i (s\<lparr>kern := k\<rparr>) s' (snd (rx_accept (p @ d)))
           (deliver (m_pconnections s) i (c_iCurrsequence (pool s ! i)) (fst (rx_accept (p @ d))) (queue_msgs s))"
        using handler_data [OF inv i rx _ False l(1)] recv Recv_bytes by metis
      then have "kern s' = k"
        by (simp add: rx_outcome_def)
      then show thesis
        using s' l False by (intro data [of s' d]) simp_all
    next
      case True
      then have "recv_fatal r"
        using Recv_bytes by (simp add: recv_fatal_def)
      then show thesis
        using handler_closes [OF inv i] recv il l(3) True by (metis eof)
    qed
  qed
qed

section \<open>All the calls for one connection\<close>

text \<open>
  \<open>rx_progress fl i s0 p w s'\<close>: the bytes \<open>w\<close> of the stream were consumed since state \<open>s0\<close>, in
  which \<open>p\<close> was pending; every package they complete was delivered, in order.
\<close>

definition rx_progress ::
  "('k \<Rightarrow> byte list) \<Rightarrow> nat list \<Rightarrow> nat \<Rightarrow> 'k csocket \<Rightarrow> byte list \<Rightarrow> byte list \<Rightarrow> 'k csocket \<Rightarrow> bool" where
  "rx_progress stream fl i s0 p w s' \<longleftrightarrow>
     queue_msgs s' = deliver_all (m_pconnections s0) i (c_iCurrsequence (pool s0 ! i))
                       (fst (deframe (p @ w))) (queue_msgs s0) \<and>
     frame_conn i s0 s' \<and>
     (if c_fd (pool s' ! i) = -1
      then stream (kern s0) = w \<and> (\<exists>qs. sock_inv (i # fl) qs s')
      else stream (kern s0) = w @ stream (kern s') \<and> (\<exists>qs. sock_inv fl qs s') \<and>
           pending (heap s') (pool s' ! i) = snd (deframe (p @ w)))"

lemma deframe_accept_more:
  assumes "residual p" "length d \<le> need p"
  shows "deframe (p @ d @ w) =
     ((case fst (rx_accept (p @ d)) of None \<Rightarrow> [] | Some m \<Rightarrow> [m]) @
      fst (deframe (snd (rx_accept (p @ d)) @ w)), snd (deframe (snd (rx_accept (p @ d)) @ w)))"
  using deframe_append [of "p @ d" w] deframe_accept [OF assms] by (simp add: split_beta)

lemma rx_progress_data:
  assumes out: "rx_outcome fl i (s\<lparr>kern := kern s1\<rparr>) s1 (snd (rx_accept (p @ d)))
        (deliver (m_pconnections s) i (c_iCurrsequence (pool s ! i)) (fst (rx_accept (p @ d))) (queue_msgs s))"
    and p: "residual p" "length d \<le> need p"
    and st: "stream (kern s) = d @ stream (kern s1)"
    and prog: "rx_progress stream fl i s1 (snd (rx_accept (p @ d))) w s'"
  shows "rx_progress stream fl i s p (d @ w) s'"
proof -
  have o: "frame_conn i s s1" "m_pconnections s1 = m_pconnections s"
    "c_iCurrsequence (pool s1 ! i) = c_iCurrsequence (pool s ! i)"
    "queue_msgs s1 = deliver (m_pconnections s) i (c_iCurrsequence (pool s ! i))
        (fst (rx_accept (p @ d))) (queue_msgs s)"
    using out by (simp_all add: rx_outcome_def frame_conn_def same_role_def)
  have "frame_conn i s s'"
    using frame_conn_trans [OF o(1)] prog by (simp add: rx_progress_def)
  then show ?thesis
    using prog o st deframe_accept_more [OF p, of w]
    by (auto simp: rx_progress_def deliver_all_append deliver_all_option)
qed

text \<open>
  What \<open>n\<close> calls from state \<open>s\<close> come to, \<open>p\<close> pending: progress, and the connection closed when the peer's
  data was always at hand and the calls were enough to read all of it.
\<close>

definition calls_ok ::
  "'k os \<Rightarrow> ('k \<Rightarrow> byte list) \<Rightarrow> nat list \<Rightarrow> nat \<Rightarrow> nat \<Rightarrow> byte list \<Rightarrow> 'k csocket \<Rightarrow> bool" where
  "calls_ok os stream fl i n p s \<longleftrightarrow>
     (\<exists>s' w. rx_calls os i n s = Inr s' \<and> rx_progress stream fl i s p w s' \<and>
        (always_ready os (c_fd (pool s ! i)) \<longrightarrow> length (stream (kern s)) < n \<longrightarrow> c_fd (pool s' ! i) = -1))"

lemma calls_ok_data:
  assumes run: "rx_calls os i (Suc n) s = rx_calls os i n s1"
    and out: "rx_outcome fl i (s\<lparr>kern := kern s1\<rparr>) s1 (snd (rx_accept (p @ d)))
        (deliver (m_pconnections s) i (c_iCurrsequence (pool s ! i)) (fst (rx_accept (p @ d))) (queue_msgs s))"
    and p: "residual p" "length d \<le> need p" and d: "d \<noteq> []" "stream (kern s) = d @ stream (kern s1)"
    and ok: "calls_ok os stream fl i n (snd (rx_accept (p @ d))) s1"
  shows "calls_ok os stream fl i (Suc n) p s"
proof -
  have "c_fd (pool s1 ! i) = c_fd (pool s ! i)"
    using out by (simp add: rx_outcome_def same_role_def)
  moreover have "length (stream (kern s1)) < length (stream (kern s))"
    using d by simp
  ultimately show ?thesis
    using ok rx_progress_data [OF out p d(2)] run unfolding calls_ok_def by fastforce
qed

lemma calls_ok_retry:
  assumes "rx_calls os i (Suc n) s = rx_calls os i n (s\<lparr>kern := k\<rparr>)" "stream k = stream (kern s)"
    and "\<not> always_ready os (c_fd (pool s ! i))" "calls_ok os stream fl i n p (s\<lparr>kern := k\<rparr>)"
  shows "calls_ok os stream fl i (Suc n) p s"
proof -
  have "queue_msgs (s\<lparr>kern := k\<rparr>) = queue_msgs s"
    by (auto simp: queue_msgs_def split: option.split)
  then have "rx_progress stream fl i s p w s'" if "rx_progress stream fl i (s\<lparr>kern := k\<rparr>) p w s'" for w s'
    using that assms(2) by (auto simp: rx_progress_def frame_conn_def)
  then show ?thesis
    using assms unfolding calls_ok_def by auto
qed

lemma calls_ok_eof:
  assumes "rx_calls os i (Suc n) s = rx_calls os i n s1" "residual p" "i < length (pool s)"
    and "stream (kern s) = []" "sock_inv (i # fl) qs s1" "c_fd (pool s1 ! i) = -1"
      "queue_msgs s1 = queue_msgs s" "frame_conn i s s1"
  shows "calls_ok os stream fl i (Suc n) p s"
proof -
  have "i < length (pool s1)"
    using assms(3,8) by (simp add: frame_conn_def)
  then have "rx_calls os i n s1 = Inr s1"
    using assms(6) by (cases n) simp_all
  moreover have "rx_progress stream fl i s p [] s1"
    using assms(4-8) deframe_residual [OF assms(2)] by (auto simp: rx_progress_def)
  ultimately show ?thesis
    using assms(1,6) unfolding calls_ok_def by auto
qed

lemma rx_calls_ok:
  assumes "sock_inv fl qs s" "i \<in> used fl s"
    and "rx_state (m_pconnections s) (heap s) i (pool s ! i) p"
    and "stream_socket os (c_fd (pool s ! i)) stream"
  shows "calls_ok os stream fl i n p s"
  using assms
proof (induction n arbitrary: s qs p)
  case 0
  have fd: "c_fd (pool s ! i) \<noteq> -1"
    using used_conn_fd [OF 0(1) used_less [OF 0(2)]] 0(2) by simp
  have "deframe p = ([], p)"
    using rx_state_residual [OF 0(3)] by (rule deframe_residual)
  then have "rx_progress stream fl i s p [] s"
    using fd 0(1) rx_state_pending [OF 0(3)] by (auto simp: rx_progress_def frame_conn_refl)
  then show ?case by (auto simp: calls_ok_def)
next
  case (Suc n)
  note inv = Suc.prems(1) and i = Suc.prems(2) and rx = Suc.prems(3) and os = Suc.prems(4)
  have len: "i < length (pool s)" using i by (rule used_less)
  have res: "residual p" using rx by (rule rx_state_residual)
  have run: "rx_calls os i (Suc n) s = rx_calls os i n s1" if "wait_request_handler os i s = Inr s1" for s1
    using that len used_conn_fd [OF inv len] i by simp
  from inv i rx os show ?case
  proof (cases rule: stream_step)
    case (data s1 d)
    obtain qs1 where st: "sock_inv fl qs1 s1"
      "rx_state (m_pconnections s1) (heap s1) i (pool s1 ! i) (snd (rx_accept (p @ d)))"
      "c_fd (pool s1 ! i) = c_fd (pool s ! i)" "length (pool s1) = length (pool s)"
      using data(5) by (auto simp: rx_outcome_def same_role_def frame_conn_def)
    have "i \<in> used fl s1" using i used_same_length [OF st(4)] by simp
    then have "calls_ok os stream fl i n (snd (rx_accept (p @ d))) s1"
      using Suc.IH [OF st(1) _ st(2)] os st(3) by simp
    then show ?thesis
      by (rule calls_ok_data [OF run [OF data(1)] data(5) res data(3,2,4)])
  next
    case (retry k)
    have "calls_ok os stream fl i n p (s\<lparr>kern := k\<rparr>)"
      using sock_inv_kern [OF inv] i rx os by (intro Suc.IH [of qs]) (auto simp: used_def)
    then show ?thesis
      by (rule calls_ok_retry [OF run [OF retry(1)] retry(2,3)])
  next
    case (eof s1)
    show ?thesis
      by (rule calls_ok_eof [where stream = stream, OF run [OF eof(1)] res len eof(2-6)])
  qed
qed

theorem rx_calls_progress:
  assumes "sock_inv fl qs s" "i \<in> used fl s"
    and "rx_state (m_pconnections s) (heap s) i (pool s ! i) p"
    and "stream_socket os (c_fd (pool s ! i)) stream"
  shows "\<exists>s' w. rx_calls os i n s = Inr s' \<and> rx_progress stream fl i s p w s' \<and>
     (always_ready os (c_fd (pool s ! i)) \<longrightarrow> length (stream (kern s)) < n \<longrightarrow>
        c_fd (pool s' ! i) = -1)"
  using rx_calls_ok [OF assms] by (simp add: calls_ok_def)

end
