(* ===== verification/Socket_Worker.thy ===== *)
theory Socket_Worker
  imports Socket_Epoll Socket_Stream
begin

text \<open>
  The worker process: what \<open>epoll_init\<close> establishes and every batch of events preserves. Beyond
  the invariant of the receive path, every connection in use has a read handler and every tagged
  pointer registered with epoll points into the pool.
\<close>

section \<open>The kernel's side of the contract\<close>

text \<open>
  \<open>reg k\<close>: the data words registered with the epoll instance. Only \<open>epoll_ctl\<close> adds one;
  \<open>epoll_wait\<close> returns at most the requested number of events, each with registered data; a
  successful accept returns a descriptor other than \<open>-1\<close> and an address that fits
  \<open>struct sockaddr\<close>.
\<close>

definition kernel_ok :: "'k os \<Rightarrow> ('k \<Rightarrow> u64 set) \<Rightarrow> bool" where
  "kernel_ok os reg \<longleftrightarrow>
     recv_bounded os \<and>
     (\<forall>fd n k. reg (snd (sys_recv os fd n k)) \<subseteq> reg k) \<and>
     (\<forall>fd k. reg (snd (sys_close os fd k)) \<subseteq> reg k) \<and>
     (\<forall>fd k. reg (snd (sys_ioctl_fionbio os fd k)) \<subseteq> reg k) \<and>
     (\<forall>fd k. reg (snd (sys_accept4 os fd k)) \<subseteq> reg k) \<and>
     (\<forall>fd k. reg (snd (sys_accept os fd k)) \<subseteq> reg k) \<and>
     (\<forall>fd k s a. fst (sys_accept4 os fd k) = Accepted s a \<longrightarrow> s \<noteq> -1 \<and> length a \<le> 16) \<and>
     (\<forall>fd k s a. fst (sys_accept os fd k) = Accepted s a \<longrightarrow> s \<noteq> -1 \<and> length a \<le> 16) \<and>
     (\<forall>n k. reg (snd (sys_epoll_create os n k)) \<subseteq> reg k) \<and>
     (\<forall>ep op fd ev k. reg (snd (sys_epoll_ctl os ep op fd ev k)) \<subseteq> insert (ev_data ev) (reg k)) \<and>
     (\<forall>ep n t k. reg (snd (sys_epoll_wait os ep n t k)) \<subseteq> reg k) \<and>
     (\<forall>ep n t k es. fst (sys_epoll_wait os ep n t k) = Wait_events es \<longrightarrow>
        length es \<le> n \<and> (\<forall>e \<in> set es. ev_data e \<in> reg k))"

lemma kernel_ok_reg:
  assumes "kernel_ok os reg"
  shows "reg (snd (sys_recv os fd n k)) \<subseteq> reg k" "reg (snd (sys_close os fd k)) \<subseteq> reg k"
    "reg (snd (sys_ioctl_fionbio os fd k)) \<subseteq> reg k" "reg (snd (sys_accept4 os fd k)) \<subseteq> reg k"
    "reg (snd (sys_accept os fd k)) \<subseteq> reg k" "reg (snd (sys_epoll_create os m k)) \<subseteq> reg k"
    "reg (snd (sys_epoll_ctl os ep op fd ev k)) \<subseteq> insert (ev_data ev) (reg k)"
    "reg (snd (sys_epoll_wait os ep mx t k)) \<subseteq> reg k"
  using assms by (simp_all add: kernel_ok_def)

section \<open>The invariant\<close>

definition regs_valid :: "('k \<Rightarrow> u64 set) \<Rightarrow> 'k csocket \<Rightarrow> bool" where
  "regs_valid reg s \<longleftrightarrow>
     (\<forall>d \<in> reg (kern s). \<exists>i < length (pool s). \<exists>b. d = tag_ptr (conn_addr (m_pconnections s) i) b)"

text \<open>\<open>X\<close> holds the connections whose read handler is not set yet.\<close>

definition worker_inv_but ::
  "nat set \<Rightarrow> ('k \<Rightarrow> u64 set) \<Rightarrow> nat list \<Rightarrow> addr list \<Rightarrow> 'k csocket \<Rightarrow> bool" where
  "worker_inv_but X reg fl qs s \<longleftrightarrow>
     sock_inv fl qs s \<and> pool_placed (m_pconnections s) (length (pool s)) \<and>
     (\<forall>i \<in> used fl s - X. rhandler (pool s ! i) \<noteq> None) \<and> regs_valid reg s"

abbreviation worker_inv :: "('k \<Rightarrow> u64 set) \<Rightarrow> nat list \<Rightarrow> addr list \<Rightarrow> 'k csocket \<Rightarrow> bool" where
  "worker_inv \<equiv> worker_inv_but {}"

text \<open>Everything but the kernel, the log and \<open>use_accept4\<close> is as before.\<close>

definition same_mem :: "'k csocket \<Rightarrow> 'k csocket \<Rightarrow> bool" where
  "same_mem s s' \<longleftrightarrow> (\<exists>u k l. s' = s\<lparr>use_accept4 := u, kern := k, logs := l\<rparr>)"

lemma same_memE:
  assumes "same_mem s s'"
  obtains u k l where "s' = s\<lparr>use_accept4 := u, kern := k, logs := l\<rparr>"
  using assms by (auto simp: same_mem_def)

lemma same_mem_kern [simp]: "same_mem s (s\<lparr>kern := k\<rparr>)"
proof -
  have "s\<lparr>kern := k\<rparr> = s\<lparr>use_accept4 := use_accept4 s, kern := k, logs := logs s\<rparr>" by simp
  then show ?thesis unfolding same_mem_def by blast
qed

lemma same_mem_put_log [simp]: "same_mem s s' \<Longrightarrow> same_mem s (put_log l m s')"
  by (erule same_memE) (auto simp: same_mem_def put_log_def)

lemma same_mem_refl [simp]: "same_mem s s"
  using same_mem_kern [of s "kern s"] by simp

lemma same_mem_use_accept4 [simp]: "same_mem s s' \<Longrightarrow> same_mem s (s'\<lparr>use_accept4 := b\<rparr>)"
proof (erule same_memE)
  fix u k l
  assume "s' = s\<lparr>use_accept4 := u, kern := k, logs := l\<rparr>"
  then have "s'\<lparr>use_accept4 := b\<rparr> = s\<lparr>use_accept4 := b, kern := k, logs := l\<rparr>" by simp
  then show ?thesis unfolding same_mem_def by blast
qed

lemma same_mem_fields:
  assumes "same_mem s s'"
  shows "heap s' = heap s" "next_addr s' = next_addr s" "pool s' = pool s"
    "m_pfree_connections s' = m_pfree_connections s"
    "m_free_connection_n s' = m_free_connection_n s" "m_connection_n s' = m_connection_n s"
    "m_pconnections s' = m_pconnections s" "m_MsgRecvQueue s' = m_MsgRecvQueue s"
    "m_iLenPkgHeader s' = m_iLenPkgHeader s" "m_iLenMsgHeader s' = m_iLenMsgHeader s"
    "m_listenSocketList s' = m_listenSocketList s" "m_epollhandle s' = m_epollhandle s"
    "used fl s' = used fl s" "queue_msgs s' = queue_msgs s"
  using assms
  by (auto elim!: same_memE simp: used_def queue_msgs_def split: option.split)

text \<open>System calls that register nothing new, or only a tagged pointer into the pool.\<close>

lemma worker_inv_same_mem:
  assumes inv: "worker_inv_but X reg fl qs s" and mem: "same_mem s s'"
    and reg: "reg (kern s') \<subseteq> reg (kern s) \<union>
      {tag_ptr (conn_addr (m_pconnections s) i) b |i b. i < length (pool s)}"
  shows "worker_inv_but X reg fl qs s'"
proof -
  note f = same_mem_fields [OF mem]
  have "sock_inv fl qs s'"
    using inv f by (intro sock_inv_same_mem [of fl qs s s']) (simp_all add: worker_inv_but_def)
  moreover have "regs_valid reg s'"
    unfolding regs_valid_def
  proof
    fix d
    assume "d \<in> reg (kern s')"
    then have "d \<in> reg (kern s) \<or> (\<exists>i b. d = tag_ptr (conn_addr (m_pconnections s) i) b \<and> i < length (pool s))"
      using reg by blast
    then show "\<exists>i < length (pool s'). \<exists>b. d = tag_ptr (conn_addr (m_pconnections s') i) b"
      using inv f by (auto simp: worker_inv_but_def regs_valid_def)
  qed
  ultimately show ?thesis
    using inv f by (simp add: worker_inv_but_def)
qed

lemma worker_inv_kern:
  "worker_inv_but X reg fl qs s \<Longrightarrow> reg k \<subseteq> reg (kern s) \<Longrightarrow> worker_inv_but X reg fl qs (s\<lparr>kern := k\<rparr>)"
  by (erule worker_inv_same_mem) auto

lemma worker_inv_log: "worker_inv_but X reg fl qs s \<Longrightarrow> worker_inv_but X reg fl qs (put_log l m s)"
  by (erule worker_inv_same_mem) auto

lemma worker_inv_use4: "worker_inv_but X reg fl qs s \<Longrightarrow> worker_inv_but X reg fl qs (s\<lparr>use_accept4 := b\<rparr>)"
  by (erule worker_inv_same_mem) auto

section \<open>The pool operations and the invariant\<close>

lemma regs_valid_frame:
  "regs_valid reg s \<Longrightarrow> length (pool s') = length (pool s) \<Longrightarrow> m_pconnections s' = m_pconnections s
   \<Longrightarrow> reg (kern s') \<subseteq> reg (kern s) \<Longrightarrow> regs_valid reg s'"
  unfolding regs_valid_def by (metis subsetD)

lemma worker_get:
  assumes inv: "worker_inv reg (i # fl) qs s" and fd: "fd \<noteq> -1"
  shows "\<exists>s'. get_connection fd s = Inr (Some i, s') \<and> worker_inv_but {i} reg fl qs s' \<and>
     frame_conn i s s' \<and> i \<in> used fl s' \<and> kern s' = kern s \<and> use_accept4 s' = use_accept4 s \<and>
     pool s' ! i = fresh_connection i fd (pool s ! i)"
proof -
  have si: "sock_inv (i # fl) qs s"
    using inv by (simp add: worker_inv_but_def)
  obtain s' where s': "get_connection fd s = Inr (Some i, s')" "sock_inv fl qs s'" "frame_conn i s s'"
    "pool s' ! i = fresh_connection i fd (pool s ! i)" "kern s' = kern s"
    "use_accept4 s' = use_accept4 s" "used fl s' = insert i (used (i # fl) s)"
    using get_connection_inv [OF si fd] by blast
  then have "worker_inv_but {i} reg fl qs s'"
    using inv regs_valid_frame [of reg s s'] by (auto simp: worker_inv_but_def frame_conn_def)
  then show ?thesis using s' by blast
qed

lemma worker_close:
  assumes inv: "worker_inv_but X reg fl qs s" and i: "i \<in> used fl s" and X: "X \<subseteq> {i}"
    and os: "kernel_ok os reg"
  shows "\<exists>s'. close_connection os i s = Inr s' \<and> worker_inv reg (i # fl) qs s' \<and> frame_conn i s s' \<and>
     queue_msgs s' = queue_msgs s \<and> pool s' ! i = closed_connection (m_pfree_connections s) (pool s ! i)"
proof -
  have si: "sock_inv fl qs s"
    using inv by (simp add: worker_inv_but_def)
  obtain s' where s': "close_connection os i s = Inr s'" "sock_inv (i # fl) qs s'" "frame_conn i s s'"
    "kern s' = snd (sys_close os (c_fd (pool s ! i)) (kern s))" "queue_msgs s' = queue_msgs s"
    "pool s' ! i = closed_connection (m_pfree_connections s) (pool s ! i)"
    using sock_inv_close [OF si i, of os] by blast
  have "used (i # fl) s' = used fl s - {i}"
    using s'(3) by (intro used_release) (simp add: frame_conn_def)
  then have "worker_inv reg (i # fl) qs s'"
    using inv X s' regs_valid_frame [of reg s s'] kernel_ok_reg(2) [OF os]
    by (auto simp: worker_inv_but_def frame_conn_def)
  then show ?thesis using s' by blast
qed

text \<open>Assigning fields the receive machine and the pool do not use.\<close>

definition rx_same :: "connection \<Rightarrow> connection \<Rightarrow> bool" where
  "rx_same c c' \<longleftrightarrow>
     c_fd c' = c_fd c \<and> c_data c' = c_data c \<and> c_iCurrsequence c' = c_iCurrsequence c \<and>
     curStat c' = curStat c \<and> dataHeadInfo c' = dataHeadInfo c \<and> precvbuf c' = precvbuf c \<and>
     irecvlen c' = irecvlen c \<and> ifnewrecvMem c' = ifnewrecvMem c \<and>
     pnewMemPointer c' = pnewMemPointer c"

lemma rx_state_same: "rx_same c c' \<Longrightarrow> rx_state base h i c' p = rx_state base h i c p"
  by (simp add: rx_same_def rx_state_def rx_head_def rx_body_def)

lemma sock_inv_role:
  assumes inv: "sock_inv fl qs s" and i: "i \<in> used fl s" and f: "rx_same (pool s ! i) (f (pool s ! i))"
  shows "sock_inv fl qs (upd_conn i f s)"
proof -
  let ?s' = "upd_conn i f s" and ?c = "f (pool s ! i)"
  note parts = sock_inv_parts [OF inv i]
  have pool': "pool ?s' = (pool s)[i := ?c]" by simp
  have "(buf_of fl s)(i := pnewMemPointer ?c) = buf_of fl s"
    using i f by (auto simp: buf_of_used rx_same_def)
  then have "own_inv fl qs ?s'"
    by (intro own_inv_step [OF parts(1) i pool'])
       (use parts(1) f in \<open>auto simp: own_inv_def heap_wf_def rx_same_def\<close>)
  moreover have "rx_others i fl ?s'"
    using parts(2) pool' by (rule rx_others_step) simp_all
  moreover have "i \<in> used fl ?s'"
    using i by (simp add: used_def)
  ultimately show ?thesis
    using parts(3) rx_state_same [OF f] used_less [OF i]
    by (subst sock_inv_split [of i]) auto
qed

lemma worker_role:
  assumes inv: "worker_inv_but X reg fl qs s" and i: "i \<in> used fl s"
    and f: "rx_same (pool s ! i) (f (pool s ! i))"
    and Y: "X \<subseteq> {i}" "rhandler (f (pool s ! i)) \<noteq> None \<or> i \<in> Y"
  shows "worker_inv_but Y reg fl qs (upd_conn i f s)"
proof -
  have si: "sock_inv fl qs s" and h: "\<forall>j \<in> used fl s - X. rhandler (pool s ! j) \<noteq> None"
    and reg: "regs_valid reg s" and placed: "pool_placed (m_pconnections s) (length (pool s))"
    using inv by (simp_all add: worker_inv_but_def)
  have "sock_inv fl qs (upd_conn i f s)"
    by (rule sock_inv_role [of fl qs s i f, OF si i f])
  moreover have "regs_valid reg (upd_conn i f s)"
    by (rule regs_valid_frame [OF reg]) simp_all
  moreover have "rhandler (pool (upd_conn i f s) ! j) \<noteq> None" if j: "j \<in> used fl (upd_conn i f s) - Y" for j
  proof (cases "j = i")
    case True
    then show ?thesis using j Y(2) used_less [OF i] by auto
  next
    case False
    then have "j \<in> used fl s - X" using j Y(1) by (auto simp: used_def)
    then show ?thesis using False h by simp
  qed
  ultimately show ?thesis
    using placed by (simp add: worker_inv_but_def)
qed

section \<open>Registering and accepting\<close>

lemma worker_add_event:
  assumes inv: "worker_inv_but X reg fl qs s" and i: "i < length (pool s)" and os: "kernel_ok os reg"
  shows "\<exists>r s'. epoll_add_event os fd re we fg op i s = Inr (r, s') \<and>
           worker_inv_but X reg fl qs s' \<and> same_mem s s'"
proof -
  define ev where "ev =
    \<lparr>ev_events = (let e = (if re = 1 then EPOLLIN OR EPOLLRDHUP else 0) in if fg \<noteq> 0 then e OR fg else e),
     ev_data = tag_ptr (conn_addr (m_pconnections s) i) (c_instance (pool s ! i))\<rparr>"
  obtain r k where ctl: "sys_epoll_ctl os (m_epollhandle s) op fd ev (kern s) = (r, k)"
    by fastforce
  let ?s1 = "s\<lparr>kern := k\<rparr>"
  have "epoll_add_event os fd re we fg op i s =
      (if r = -1 then Inr (-1, put_log L_ERR Epoll_ctl_error ?s1) else Inr (1, ?s1))"
    using i ctl by (simp add: epoll_add_event_def ev_def Let_def cong: if_cong)
  moreover have "reg k \<subseteq> insert (ev_data ev) (reg (kern s))"
    using kernel_ok_reg(7) [OF os, of "m_epollhandle s" op fd ev "kern s"] ctl by simp
  then have "worker_inv_but X reg fl qs ?s1"
    using inv i by (intro worker_inv_same_mem [OF inv]) (auto simp: ev_def)
  ultimately show ?thesis
    using worker_inv_log [of X reg fl qs ?s1] by auto
qed

lemma worker_setnonblocking:
  assumes "worker_inv_but X reg fl qs s" "kernel_ok os reg"
  shows "\<exists>ok s'. setnonblocking os fd s = (ok, s') \<and> worker_inv_but X reg fl qs s' \<and> same_mem s s'"
proof -
  obtain r k where call: "sys_ioctl_fionbio os fd (kern s) = (r, k)" by fastforce
  then have "reg k \<subseteq> reg (kern s)"
    using kernel_ok_reg(3) [OF assms(2), of fd "kern s"] by simp
  then show ?thesis
    using worker_inv_kern [OF assms(1), of k] call by (auto simp: setnonblocking_def)
qed

lemma used_frame: "frame_conn i s s' \<Longrightarrow> used fl s' = used fl s"
  by (simp add: frame_conn_def used_def)

lemma frame_conn_same_mem: "same_mem s s' \<Longrightarrow> frame_conn i s s'"
  by (erule same_memE) (simp add: frame_conn_def)

lemma frame_conn_upd: "frame_conn i s (upd_conn i f s)"
  by (simp add: frame_conn_def)

text \<open>What a step of the worker keeps; the pool never moves once it is there.\<close>

definition same_pool :: "'k csocket \<Rightarrow> 'k csocket \<Rightarrow> bool" where
  "same_pool s s' \<longleftrightarrow> length (pool s') = length (pool s) \<and> m_pconnections s' = m_pconnections s"

text \<open>What accepting comes to: the invariant again, with one free connection less or as before.\<close>

definition accept_outcome ::
  "('k \<Rightarrow> u64 set) \<Rightarrow> nat list \<Rightarrow> nat list \<Rightarrow> 'k csocket \<Rightarrow> 'k csocket res \<Rightarrow> bool" where
  "accept_outcome reg qs fl s r \<longleftrightarrow>
     (\<exists>s' fl'. r = Inr s' \<and> worker_inv reg fl' qs s' \<and> (fl' = fl \<or> (\<exists>i. fl = i # fl')) \<and> same_pool s s')"

lemma accept_no_connection:
  assumes inv: "worker_inv reg [] qs s" and os: "kernel_ok os reg"
  shows "accept_outcome reg qs [] s (accept_connection os oldc sock addr s)"
proof -
  obtain r k where call: "sys_close os sock (kern s) = (r, k)" by fastforce
  let ?s1 = "put_log L_ERR Get_connection_null s"
  have "worker_inv reg [] qs (?s1\<lparr>kern := k\<rparr>)"
    using worker_inv_log [OF inv] kernel_ok_reg(2) [OF os, of sock "kern s"] call
    by (intro worker_inv_kern) simp_all
  moreover have "get_connection sock s = Inr (None, ?s1)"
    using inv get_connection_none_inv [of qs s sock] by (simp add: worker_inv_but_def)
  ultimately show ?thesis
    using call worker_inv_log [of "{}" reg "[]" qs "?s1\<lparr>kern := k\<rparr>" L_ERR Accept_close_failed]
    by (auto simp: accept_outcome_def accept_connection_def Let_def same_pool_def)
qed

lemma accept_closes:
  assumes t: "worker_inv_but X reg fl qs t" "X \<subseteq> {i}" "frame_conn i s t" and i: "i \<in> used fl s"
    and os: "kernel_ok os reg"
  shows "accept_outcome reg qs (i # fl) s (close_connection os i t)"
proof -
  have "i \<in> used fl t"
    using i used_frame [OF t(3)] by simp
  from worker_close [OF t(1) this t(2) os] show ?thesis
    using t(3) by (auto simp: accept_outcome_def frame_conn_def same_pool_def)
qed

text \<open>The connection taken from the pool is made the client's, and its socket non-blocking.\<close>

lemma accept_taken:
  assumes inv: "worker_inv reg (i # fl) qs s" and os: "kernel_ok os reg" and sock: "sock \<noteq> -1"
  obtains s1 b s3 where "get_connection sock s = Inr (Some i, s1)"
    "(if use_accept4 s1 then (True, upd_conn i (\<lambda>c. c\<lparr>c_sockaddr := overwrite 0 addr (c_sockaddr c)\<rparr>) s1)
      else setnonblocking os sock
        (upd_conn i (\<lambda>c. c\<lparr>c_sockaddr := overwrite 0 addr (c_sockaddr c)\<rparr>) s1)) = (b, s3)"
    "worker_inv_but {i} reg fl qs s3" "frame_conn i s s3" "i \<in> used fl s3"
proof -
  obtain s1 where get: "get_connection sock s = Inr (Some i, s1)" and inv1: "worker_inv_but {i} reg fl qs s1"
    and fr1: "frame_conn i s s1" and i1: "i \<in> used fl s1"
    using worker_get [of reg i fl qs s sock] inv sock by blast
  let ?s2 = "upd_conn i (\<lambda>c. c\<lparr>c_sockaddr := overwrite 0 addr (c_sockaddr c)\<rparr>) s1"
  have inv2: "worker_inv_but {i} reg fl qs ?s2"
    by (rule worker_role [OF inv1 i1]) (simp_all add: rx_same_def)
  obtain b s3 where s3: "(if use_accept4 ?s2 then (True, ?s2) else setnonblocking os sock ?s2) = (b, s3)"
    and inv3: "worker_inv_but {i} reg fl qs s3" and m3: "same_mem ?s2 s3"
    using worker_setnonblocking [OF inv2 os, of sock] inv2 by (cases "use_accept4 ?s2") auto
  have fr3: "frame_conn i s s3"
    using frame_conn_trans [OF fr1 frame_conn_trans [OF frame_conn_upd frame_conn_same_mem [OF m3]]] .
  moreover have "i \<in> used fl s3"
    using i1 used_frame [OF fr1] used_frame [OF fr3] by simp
  ultimately show thesis
    using that get s3 inv3 by simp
qed

text \<open>The client's socket is registered; the connection is closed again when that fails.\<close>

lemma accept_armed:
  assumes inv: "worker_inv_but {i} reg fl qs s3" and os: "kernel_ok os reg"
    and i: "frame_conn i s s3" "i \<in> used fl s3"
    and s4: "s4 = upd_conn i (\<lambda>c. c\<lparr>c_listening := l, w_ready := 1, rhandler := Some Wait_request_handler\<rparr>) s3"
  obtains r s5 where "epoll_add_event os sock 1 0 0 EPOLL_CTL_ADD i s4 = Inr (r, s5)"
    "accept_outcome reg qs (i # fl) s (if r = -1 then close_connection os i s5 else Inr s5)"
proof -
  have inv4: "worker_inv reg fl qs s4"
    unfolding s4 by (rule worker_role [OF inv i(2)]) (simp_all add: rx_same_def)
  have "i < length (pool s4)" using i(2) by (simp add: s4 used_def)
  then obtain r s5 where s5: "epoll_add_event os sock 1 0 0 EPOLL_CTL_ADD i s4 = Inr (r, s5)"
    and inv5: "worker_inv reg fl qs s5" and m5: "same_mem s4 s5"
    using worker_add_event [OF inv4 _ os] by blast
  have "frame_conn i s s4"
    using frame_conn_trans [OF i(1) frame_conn_upd] by (simp add: s4)
  then have fr5: "frame_conn i s s5"
    using frame_conn_trans frame_conn_same_mem [OF m5] by blast
  have "i \<in> used fl s"
    using i(2) used_frame [OF i(1)] by simp
  then have "accept_outcome reg qs (i # fl) s (close_connection os i s5)"
    by (rule accept_closes [OF inv5 empty_subsetI fr5 _ os])
  moreover have "accept_outcome reg qs (i # fl) s (Inr s5)"
    using inv5 fr5 by (auto simp: accept_outcome_def frame_conn_def same_pool_def)
  ultimately show thesis
    using that s5 by (cases "r = -1") auto
qed

lemma accept_connection_outcome:
  assumes inv: "worker_inv reg fl qs s" and os: "kernel_ok os reg" and old: "oldc < length (pool s)"
    and ok: "sock \<noteq> -1" "length addr \<le> 16"
  shows "accept_outcome reg qs fl s (accept_connection os oldc sock addr s)"
proof (cases fl)
  case Nil
  then show ?thesis using accept_no_connection inv os by blast
next
  case (Cons i fl')
  obtain s1 b s3 where get: "get_connection sock s = Inr (Some i, s1)"
    and s3: "(if use_accept4 s1 then (True, upd_conn i (\<lambda>c. c\<lparr>c_sockaddr := overwrite 0 addr (c_sockaddr c)\<rparr>) s1)
      else setnonblocking os sock
        (upd_conn i (\<lambda>c. c\<lparr>c_sockaddr := overwrite 0 addr (c_sockaddr c)\<rparr>) s1)) = (b, s3)"
    and inv3: "worker_inv_but {i} reg fl' qs s3" and fr3: "frame_conn i s s3" and i3: "i \<in> used fl' s3"
    using accept_taken [of reg i fl' qs s os sock addr] inv os ok(1) Cons by blast
  show ?thesis
  proof (cases b)
    case False
    let ?t = "put_log L_ERR Accept_setnonblocking_failed s3"
    have "accept_connection os oldc sock addr s = close_connection os i ?t"
      using get s3 False ok(2) by (simp add: accept_connection_def cong: if_cong)
    moreover have "frame_conn i s ?t" using fr3 by (simp add: frame_conn_def)
    moreover have "i \<in> used fl' s" using i3 used_frame [OF fr3] by simp
    ultimately show ?thesis
      using accept_closes [OF worker_inv_log [OF inv3] subset_refl _ _ os] Cons by simp
  next
    case True
    have o3: "oldc < length (pool s3)" using old fr3 by (simp add: frame_conn_def)
    obtain r s5 where s5: "epoll_add_event os sock 1 0 0 EPOLL_CTL_ADD i
        (upd_conn i (\<lambda>c. c\<lparr>c_listening := c_listening (pool s3 ! oldc), w_ready := 1,
                     rhandler := Some Wait_request_handler\<rparr>) s3) = Inr (r, s5)"
      and out: "accept_outcome reg qs (i # fl') s (if r = -1 then close_connection os i s5 else Inr s5)"
      using accept_armed [OF inv3 os fr3 i3 refl] by blast
    have "accept_connection os oldc sock addr s =
        (if r = -1 then close_connection os i s5 else Inr s5)"
      using get s3 True ok(2) o3 s5 by (simp add: accept_connection_def cong: if_cong)
    then show ?thesis
      using out Cons by simp
  qed
qed

lemma accept_connection_inv:
  assumes "worker_inv reg fl qs s" "kernel_ok os reg" "oldc < length (pool s)" "sock \<noteq> -1" "length addr \<le> 16"
  shows "\<exists>s' fl'. accept_connection os oldc sock addr s = Inr s' \<and> worker_inv reg fl' qs s' \<and>
           (fl' = fl \<or> (\<exists>i. fl = i # fl')) \<and> same_pool s s'"
  using accept_connection_outcome [OF assms] by (simp add: accept_outcome_def)

lemma event_accept_inv:
  assumes "worker_inv reg fl qs s" "kernel_ok os reg" "oldc < length (pool s)"
  shows "\<exists>s' fl'. event_accept os oldc s = Inr s' \<and> worker_inv reg fl' qs s' \<and>
           (fl' = fl \<or> (\<exists>i. fl = i # fl')) \<and> same_pool s s'"
  using assms
proof (induction os oldc s rule: event_accept.induct)
  case (1 os oldc s)
  obtain r k where call: "(if use_accept4 s then sys_accept4 os (c_fd (pool s ! oldc)) (kern s)
      else sys_accept os (c_fd (pool s ! oldc)) (kern s)) = (r, k)"
    by fastforce
  have reg: "reg k \<subseteq> reg (kern s)"
    using call kernel_ok_reg(4,5) [OF "1.prems"(2), of "c_fd (pool s ! oldc)" "kern s"]
    by (auto split: if_splits)
  have inv1: "worker_inv reg fl qs (s\<lparr>kern := k\<rparr>)"
    using "1.prems"(1) reg by (rule worker_inv_kern)
  show ?case
  proof (cases r)
    case (Accepted sock addr)
    then have "sock \<noteq> -1" "length addr \<le> 16"
      using call "1.prems"(2) by (auto simp: kernel_ok_def split: if_splits) (metis fst_conv)+
    then obtain s' fl' where "accept_connection os oldc sock addr (s\<lparr>kern := k\<rparr>) = Inr s'"
      "worker_inv reg fl' qs s'" "fl' = fl \<or> (\<exists>i. fl = i # fl')" "same_pool s s'"
      using accept_connection_inv [OF inv1 "1.prems"(2), of oldc sock addr] "1.prems"(3) by (auto simp: same_pool_def)
    moreover have "event_accept os oldc s = accept_connection os oldc sock addr (s\<lparr>kern := k\<rparr>)"
      using call Accepted "1.prems"(3) by (subst event_accept.simps) (simp cong: if_cong)
    ultimately show ?thesis by auto
  next
    case (Accept_err e)
    show ?thesis
    proof (cases "e \<noteq> EAGAIN \<and> use_accept4 s \<and> e = ENOSYS")
      case True
      let ?s2 = "s\<lparr>kern := k, use_accept4 := False\<rparr>"
      have run: "event_accept os oldc s = event_accept os oldc ?s2"
        using call Accept_err True "1.prems"(3)
        by (subst event_accept.simps) simp
      have "\<exists>s' fl'. event_accept os oldc ?s2 = Inr s' \<and> worker_inv reg fl' qs s' \<and>
           (fl' = fl \<or> (\<exists>i. fl = i # fl')) \<and> same_pool ?s2 s'"
        using worker_inv_use4 [OF inv1, of False] "1.prems"(2,3) True Accept_err
        by (intro "1.IH" [OF conn_at_Inr [OF "1.prems"(3)] call [symmetric] refl refl Accept_err]) simp_all
      then show ?thesis by (simp add: run same_pool_def)
    next
      case False
      then have "event_accept os oldc s = Inr (s\<lparr>kern := k\<rparr>)"
        using call Accept_err "1.prems"(3) by (subst event_accept.simps) (auto simp: Let_def)
      then show ?thesis using inv1 by (auto simp: same_pool_def)
    qed
  qed
qed

section \<open>One batch of events\<close>

lemma call_handler_inv:
  assumes inv: "worker_inv reg fl qs s" and os: "kernel_ok os reg" and i: "i \<in> used fl s"
  shows "\<exists>s' fl' qs'. call_handler os h i s = Inr s' \<and> worker_inv reg fl' qs' s' \<and> same_pool s s'"
proof (cases h)
  case Event_accept
  then show ?thesis
    using event_accept_inv [OF inv os used_less [OF i]] by (auto simp: call_handler_def)
next
  case Wait_request_handler
  have si: "sock_inv fl qs s" and rb: "recv_bounded os"
    using inv os by (simp_all add: worker_inv_but_def kernel_ok_def)
  obtain s' fl' qs' k where s': "wait_request_handler os i s = Inr s'" "sock_inv fl' qs' s'"
    "fl' = fl \<or> fl' = i # fl" "frame_conn i s s'"
    "fl' = fl \<longrightarrow> same_role (pool s ! i) (pool s' ! i)"
    "k = snd (sys_recv os (c_fd (pool s ! i)) (uint (irecvlen (pool s ! i))) (kern s))"
    "kern s' = k \<or> kern s' = snd (sys_close os (c_fd (pool s ! i)) k)"
    using handler_preserves [OF si i rb] by blast
  have "reg (kern s') \<subseteq> reg (kern s)"
    using s'(6,7) kernel_ok_reg(1,2) [OF os] by (metis order_trans)
  then have "regs_valid reg s'"
    using inv s'(4) by (intro regs_valid_frame [of reg s s']) (simp_all add: worker_inv_but_def frame_conn_def)
  moreover have "rhandler (pool s' ! j) \<noteq> None" if j: "j \<in> used fl' s'" for j
  proof -
    have "j \<in> used fl s" "fl' = fl \<or> j \<noteq> i"
      using s'(3) j used_frame [OF s'(4)] by (auto simp: used_def)
    then show ?thesis
      using inv s'(4,5) by (cases "j = i") (auto simp: worker_inv_but_def frame_conn_def same_role_def)
  qed
  ultimately have "worker_inv reg fl' qs' s'"
    using inv s'(2,4) by (auto simp: worker_inv_but_def frame_conn_def)
  then show ?thesis
    using Wait_request_handler s'(1,4) by (auto simp: call_handler_def same_pool_def frame_conn_def)
qed

lemma process_event_inv:
  assumes inv: "worker_inv reg fl qs s" and os: "kernel_ok os reg"
    and ev: "\<exists>i < length (pool s). \<exists>b. ev_data ev = tag_ptr (conn_addr (m_pconnections s) i) b"
  shows "\<exists>s' fl' qs'. process_event os ev s = Inr s' \<and> worker_inv reg fl' qs' s' \<and> same_pool s s'"
proof -
  obtain i b where i: "i < length (pool s)" and d: "ev_data ev = tag_ptr (conn_addr (m_pconnections s) i) b"
    using ev by blast
  have placed: "pool_placed (m_pconnections s) (length (pool s))"
    using inv by (simp add: worker_inv_but_def)
  note rt = tag_roundtrip [OF placed i, of b]
  show ?thesis
  proof (cases "c_fd (pool s ! i) = -1")
    case True
    then have "process_event os ev s = Inr s"
      using i rt d by (simp add: process_event_def)
    then show ?thesis using inv by (auto simp: same_pool_def)
  next
    case False
    have used: "i \<in> used fl s"
      using False i inv used_conn_fd [of fl qs s i] by (simp add: worker_inv_but_def)
    then obtain h where h: "rhandler (pool s ! i) = Some h"
      using inv by (auto simp: worker_inv_but_def)
    have "process_event os ev s = Inr s \<or> process_event os ev s = call_handler os h i s"
      using i rt d h False by (simp add: process_event_def Let_def)
    moreover have "same_pool s s" by (simp add: same_pool_def)
    ultimately show ?thesis
      using inv call_handler_inv [OF inv os used, of h] by metis
  qed
qed

lemma process_events_inv:
  assumes "worker_inv reg fl qs s" "kernel_ok os reg"
    and "\<forall>e \<in> set es. \<exists>i < length (pool s). \<exists>b. ev_data e = tag_ptr (conn_addr (m_pconnections s) i) b"
  shows "\<exists>s' fl' qs'. process_events os es s = Inr s' \<and> worker_inv reg fl' qs' s' \<and> same_pool s s'"
  using assms
proof (induction es arbitrary: s fl qs)
  case Nil
  then show ?case by (auto simp: same_pool_def)
next
  case (Cons e es)
  obtain s1 fl1 qs1 where s1: "process_event os e s = Inr s1" "worker_inv reg fl1 qs1 s1" "same_pool s s1"
    using process_event_inv [OF Cons.prems(1,2), of e] Cons.prems(3) by auto
  then obtain s' fl' qs' where "process_events os es s1 = Inr s'" "worker_inv reg fl' qs' s'" "same_pool s1 s'"
    using Cons.IH [OF s1(2) Cons.prems(2)] Cons.prems(3) by (auto simp: same_pool_def)
  then show ?case
    using s1 by (auto simp: same_pool_def)
qed

theorem epoll_process_event_inv:
  assumes inv: "worker_inv reg fl qs s" and os: "kernel_ok os reg"
  shows "\<exists>r s' fl' qs'. epoll_process_event os timer s = Inr (r, s') \<and> r \<in> {0, 1} \<and>
           worker_inv reg fl' qs' s' \<and> same_pool s s'"
proof -
  obtain r k where call: "sys_epoll_wait os (m_epollhandle s) XFLY_MAX_EVENTS timer (kern s) = (r, k)"
    by fastforce
  let ?s1 = "s\<lparr>kern := k\<rparr>"
  have inv1: "worker_inv reg fl qs ?s1"
    using inv kernel_ok_reg(8) [OF os, of "m_epollhandle s" XFLY_MAX_EVENTS timer "kern s"] call
    by (intro worker_inv_kern) simp_all
  show ?thesis
  proof (cases r)
    case (Wait_err e)
    then show ?thesis
      using call inv1 worker_inv_log [OF inv1]
      by (auto simp: epoll_process_event_def Let_def same_pool_def)
  next
    case (Wait_events es)
    have es: "length es \<le> XFLY_MAX_EVENTS" "\<forall>e \<in> set es. ev_data e \<in> reg (kern s)"
      using os call Wait_events unfolding kernel_ok_def by (metis fst_conv)+
    show ?thesis
    proof (cases "es = []")
      case True
      then show ?thesis
        using call inv1 worker_inv_log [OF inv1] Wait_events
        by (auto simp: epoll_process_event_def Let_def same_pool_def)
    next
      case False
      have "\<forall>e \<in> set es. \<exists>i < length (pool ?s1). \<exists>b. ev_data e = tag_ptr (conn_addr (m_pconnections ?s1) i) b"
        using inv es(2) by (auto simp: worker_inv_but_def regs_valid_def)
      then obtain s' fl' qs' where "process_events os es ?s1 = Inr s'" "worker_inv reg fl' qs' s'" "same_pool ?s1 s'"
        using process_events_inv [OF inv1 os] by blast
      then show ?thesis
        using call Wait_events False es(1)
        by (auto simp: epoll_process_event_def Let_def same_pool_def)
    qed
  qed
qed

section \<open>Initialisation\<close>

lemma link_free_spec:
  assumes "link_free n cs nxt = (cs', nxt')" "n \<le> length cs" "free_chain cs nxt js"
    "\<forall>j \<in> set js. n \<le> j"
  shows "length cs' = length cs \<and> free_chain cs' nxt' ([0..<n] @ js) \<and>
    (\<forall>i < length cs. if i < n then c_fd (cs' ! i) = -1 \<and> c_instance (cs' ! i) \<and> c_iCurrsequence (cs' ! i) = 0
                     else cs' ! i = cs ! i)"
  using assms
proof (induction n arbitrary: cs nxt js)
  case 0
  then show ?case by simp
next
  case (Suc n)
  let ?c = "(cs ! n)\<lparr>c_data := nxt, c_fd := -1, c_instance := True, c_iCurrsequence := 0\<rparr>"
  have n: "n < length cs" "n \<notin> set js" using Suc.prems by auto
  have "free_chain (cs[n := ?c]) (Some n) (n # js)"
    using n Suc.prems(3) by simp
  then have IH: "length cs' = length (cs[n := ?c]) \<and> free_chain cs' nxt' ([0..<n] @ n # js) \<and>
    (\<forall>i < length (cs[n := ?c]). if i < n then c_fd (cs' ! i) = -1 \<and> c_instance (cs' ! i) \<and> c_iCurrsequence (cs' ! i) = 0
                     else cs' ! i = (cs[n := ?c]) ! i)"
    using Suc.prems by (intro Suc.IH) auto
  have "if i < Suc n then c_fd (cs' ! i) = -1 \<and> c_instance (cs' ! i) \<and> c_iCurrsequence (cs' ! i) = 0
        else cs' ! i = cs ! i" if i: "i < length cs" for i
    using IH i n by (cases "i < n"; cases "i = n") auto
  then show ?case
    using IH by simp
qed

text \<open>A listening socket and its connection point at each other.\<close>

definition listener_conn :: "'k csocket \<Rightarrow> nat \<Rightarrow> nat \<Rightarrow> bool" where
  "listener_conn s pos c \<longleftrightarrow>
     c_fd (pool s ! c) = l_fd (m_listenSocketList s ! pos) \<and> c_listening (pool s ! c) = Some pos \<and>
     rhandler (pool s ! c) = Some Event_accept \<and> l_connection (m_listenSocketList s ! pos) = Some c"

lemma worker_inv_listen:
  "worker_inv_but X reg fl qs s \<Longrightarrow> worker_inv_but X reg fl qs (s\<lparr>m_listenSocketList := l\<rparr>)"
proof -
  assume inv: "worker_inv_but X reg fl qs s"
  then have "sock_inv fl qs s" by (simp add: worker_inv_but_def)
  then have "sock_inv fl qs (s\<lparr>m_listenSocketList := l\<rparr>)"
    by (rule sock_inv_same_mem) simp_all
  moreover have "regs_valid reg s" using inv by (simp add: worker_inv_but_def)
  then have "regs_valid reg (s\<lparr>m_listenSocketList := l\<rparr>)"
    by (rule regs_valid_frame) simp_all
  moreover have "used fl (s\<lparr>m_listenSocketList := l\<rparr>) = used fl s"
    by (simp add: used_def)
  ultimately show ?thesis
    using inv by (simp only: worker_inv_but_def) simp
qed

text \<open>One round of the loop over the listening sockets.\<close>

lemma add_listener_step:
  assumes inv: "worker_inv reg (c # fl) qs s" and os: "kernel_ok os reg"
    and pos: "pos < length (m_listenSocketList s)" "l_fd (m_listenSocketList s ! pos) \<noteq> -1"
  shows "add_listeners os (pos # rest) s = Inl (Exit 2) \<or>
    (\<exists>s1. add_listeners os (pos # rest) s = add_listeners os rest s1 \<and> worker_inv reg fl qs s1 \<and>
       listener_conn s1 pos c \<and> (\<forall>j. j \<noteq> c \<longrightarrow> pool s1 ! j = pool s ! j) \<and>
       (\<forall>q. q \<noteq> pos \<longrightarrow> m_listenSocketList s1 ! q = m_listenSocketList s ! q) \<and>
       l_fd (m_listenSocketList s1 ! pos) = l_fd (m_listenSocketList s ! pos) \<and>
       length (m_listenSocketList s1) = length (m_listenSocketList s) \<and> same_pool s s1)"
proof -
  let ?fd = "l_fd (m_listenSocketList s ! pos)"
  obtain s1 where get: "get_connection ?fd s = Inr (Some c, s1)" and inv1: "worker_inv_but {c} reg fl qs s1"
    and fr1: "frame_conn c s s1" and c1: "c \<in> used fl s1" and p1: "pool s1 ! c = fresh_connection c ?fd (pool s ! c)"
    using worker_get [OF inv pos(2)] by blast
  have len: "c < length (pool s1)" using c1 by (rule used_less)
  have ls: "m_listenSocketList s1 = m_listenSocketList s" using fr1 by (simp add: frame_conn_def)
  let ?f = "\<lambda>conn. conn\<lparr>c_listening := Some pos\<rparr>" and ?g = "\<lambda>conn. conn\<lparr>rhandler := Some Event_accept\<rparr>"
  let ?s2 = "upd_conn c ?f s1"
  let ?s3 = "?s2\<lparr>m_listenSocketList := (m_listenSocketList s1)
               [pos := (m_listenSocketList s1 ! pos)\<lparr>l_connection := Some c\<rparr>]\<rparr>"
  let ?s4 = "upd_conn c ?g ?s3"
  have "worker_inv_but {c} reg fl qs ?s2"
    by (rule worker_role [OF inv1 c1]) (simp_all add: rx_same_def)
  then have inv3: "worker_inv_but {c} reg fl qs ?s3"
    by (rule worker_inv_listen)
  have "c \<in> used fl ?s3" using c1 by (simp add: used_def)
  then have inv4: "worker_inv reg fl qs ?s4"
    by (rule worker_role [OF inv3]) (simp_all add: rx_same_def)
  have l4: "c < length (pool ?s4)" using len by simp
  obtain r s5 where add: "epoll_add_event os ?fd 1 0 0 EPOLL_CTL_ADD c ?s4 = Inr (r, s5)"
    and inv5: "worker_inv reg fl qs s5" and m5: "same_mem ?s4 s5"
    using worker_add_event [OF inv4 l4 os] by blast
  have run: "add_listeners os (pos # rest) s = (if r = -1 then Inl (Exit 2) else add_listeners os rest s5)"
    using get add by (simp add: Let_def cong: if_cong)
  note f5 = same_mem_fields [OF m5]
  have "listener_conn s5 pos c"
    using len pos ls p1 by (simp add: listener_conn_def f5 fresh_connection_def)
  moreover have "\<forall>j. j \<noteq> c \<longrightarrow> pool s5 ! j = pool s ! j"
    using fr1 by (simp add: f5 frame_conn_def)
  moreover have "\<forall>q. q \<noteq> pos \<longrightarrow> m_listenSocketList s5 ! q = m_listenSocketList s ! q"
    by (simp add: f5 ls)
  moreover have "l_fd (m_listenSocketList s5 ! pos) = ?fd" "length (m_listenSocketList s5) = length (m_listenSocketList s)"
    using pos by (simp_all add: f5 ls)
  moreover have "same_pool s s5"
    using fr1 by (simp add: same_pool_def frame_conn_def f5)
  ultimately show ?thesis
    using run inv5 by (cases "r = -1") auto
qed

text \<open>All of them: each listening socket of \<open>ps\<close> has a connection of its own from the free list.\<close>

definition listeners_added ::
  "('k \<Rightarrow> u64 set) \<Rightarrow> nat list \<Rightarrow> nat list \<Rightarrow> nat list \<Rightarrow> 'k csocket \<Rightarrow> 'k csocket res \<Rightarrow> bool" where
  "listeners_added reg qs ps fl s r \<longleftrightarrow> r = Inl (Exit 2) \<or>
    (\<exists>s'. r = Inr s' \<and> length ps \<le> length fl \<and> worker_inv reg (drop (length ps) fl) qs s' \<and>
       (\<forall>k < length ps. listener_conn s' (ps ! k) (fl ! k)) \<and> same_pool s s' \<and>
       (\<forall>j. j \<notin> set (take (length ps) fl) \<longrightarrow> pool s' ! j = pool s ! j) \<and>
       (\<forall>q. q \<notin> set ps \<longrightarrow> m_listenSocketList s' ! q = m_listenSocketList s ! q) \<and>
       length (m_listenSocketList s') = length (m_listenSocketList s))"

lemma listeners_added_Cons:
  assumes s1: "listener_conn s1 p c" "\<forall>j. j \<noteq> c \<longrightarrow> pool s1 ! j = pool s ! j"
       "\<forall>q. q \<noteq> p \<longrightarrow> m_listenSocketList s1 ! q = m_listenSocketList s ! q"
       "length (m_listenSocketList s1) = length (m_listenSocketList s)" "same_pool s s1"
    and rest: "listeners_added reg qs ps fl s1 r" and new: "c \<notin> set fl" "p \<notin> set ps"
  shows "listeners_added reg qs (p # ps) (c # fl) s r"
proof (cases "r = Inl (Exit 2)")
  case True
  then show ?thesis by (simp add: listeners_added_def)
next
  case False
  then obtain s' where s': "r = Inr s'" "length ps \<le> length fl"
      "worker_inv reg (drop (length ps) fl) qs s'" "\<forall>k < length ps. listener_conn s' (ps ! k) (fl ! k)"
      "same_pool s1 s'" "\<forall>j. j \<notin> set (take (length ps) fl) \<longrightarrow> pool s' ! j = pool s1 ! j"
      "\<forall>q. q \<notin> set ps \<longrightarrow> m_listenSocketList s' ! q = m_listenSocketList s1 ! q"
      "length (m_listenSocketList s') = length (m_listenSocketList s1)"
    using rest by (auto simp: listeners_added_def)
  have "c \<notin> set (take (length ps) fl)"
    using new(1) in_set_takeD by fastforce
  then have "listener_conn s' p c"
    using s'(6,7) s1(1) new(2) by (simp add: listener_conn_def)
  then have "\<forall>k < length (p # ps). listener_conn s' ((p # ps) ! k) ((c # fl) ! k)"
    using s'(4) by (auto simp: less_Suc_eq_0_disj)
  then show ?thesis
    using s' s1 by (auto simp: listeners_added_def same_pool_def)
qed

lemma add_listeners_added:
  assumes "worker_inv reg fl qs s" "kernel_ok os reg" "distinct ps"
    and "\<forall>p \<in> set ps. p < length (m_listenSocketList s) \<and> l_fd (m_listenSocketList s ! p) \<noteq> -1"
  shows "listeners_added reg qs ps fl s (add_listeners os ps s)"
  using assms
proof (induction ps arbitrary: s fl)
  case Nil
  then show ?case by (auto simp: listeners_added_def same_pool_def)
next
  case (Cons p ps)
  have si: "sock_inv fl qs s" using Cons.prems(1) by (simp add: worker_inv_but_def)
  show ?case
  proof (cases fl)
    case Nil
    then show ?thesis
      using get_connection_none_inv [of qs s "l_fd (m_listenSocketList s ! p)"] si
      by (simp add: listeners_added_def)
  next
    case fl: (Cons c fl')
    have c: "c \<notin> set fl'" using si fl by (simp add: sock_inv_def own_inv_def pool_wf_def)
    consider "add_listeners os (p # ps) s = Inl (Exit 2)"
      | s1 where "add_listeners os (p # ps) s = add_listeners os ps s1" "worker_inv reg fl' qs s1"
       "listener_conn s1 p c" "\<forall>j. j \<noteq> c \<longrightarrow> pool s1 ! j = pool s ! j"
       "\<forall>q. q \<noteq> p \<longrightarrow> m_listenSocketList s1 ! q = m_listenSocketList s ! q"
       "length (m_listenSocketList s1) = length (m_listenSocketList s)" "same_pool s s1"
      using add_listener_step [of reg c fl' qs s os p ps] Cons.prems fl by auto
    then show ?thesis
    proof cases
      case 1
      then show ?thesis by (simp add: listeners_added_def)
    next
      case (2 s1)
      have "\<forall>q \<in> set ps. q < length (m_listenSocketList s1) \<and> l_fd (m_listenSocketList s1 ! q) \<noteq> -1"
        using Cons.prems(3,4) 2(5,6) by auto
      then have "listeners_added reg qs ps fl' s1 (add_listeners os ps s1)"
        using Cons.IH [OF 2(2) Cons.prems(2)] Cons.prems(3) by simp
      then show ?thesis
        unfolding 2(1) fl using Cons.prems(3) by (intro listeners_added_Cons [OF 2(3-7)] c) simp_all
    qed
  qed
qed

lemma add_listeners_inv:
  assumes "worker_inv reg fl qs s" "kernel_ok os reg" "distinct ps"
    and "\<forall>p \<in> set ps. p < length (m_listenSocketList s) \<and> l_fd (m_listenSocketList s ! p) \<noteq> -1"
  shows "add_listeners os ps s = Inl (Exit 2) \<or>
    (\<exists>s'. add_listeners os ps s = Inr s' \<and> length ps \<le> length fl \<and> worker_inv reg (drop (length ps) fl) qs s' \<and>
       (\<forall>k < length ps. listener_conn s' (ps ! k) (fl ! k)) \<and> same_pool s s' \<and>
       (\<forall>j. j \<notin> set (take (length ps) fl) \<longrightarrow> pool s' ! j = pool s ! j) \<and>
       (\<forall>q. q \<notin> set ps \<longrightarrow> m_listenSocketList s' ! q = m_listenSocketList s ! q) \<and>
       length (m_listenSocketList s') = length (m_listenSocketList s))"
  using add_listeners_added [OF assms] by (simp add: listeners_added_def)

text \<open>The state in which \<open>epoll_init\<close> is called: nothing received, listening sockets open.\<close>

definition socket_ready :: "'k csocket \<Rightarrow> bool" where
  "socket_ready s \<longleftrightarrow>
     heap s = Map.empty \<and> m_MsgRecvQueue s = [] \<and>
     m_iLenPkgHeader s = sizeof_COMM_PKG_HEADER \<and> m_iLenMsgHeader s = sizeof_STRUC_MSG_HEADER \<and>
     (\<forall>l \<in> set (m_listenSocketList s). l_fd l \<noteq> -1)"

lemma empty_pool_inv:
  assumes "socket_ready s" "link_free n (map garbage [0..<n]) None = (cs, nxt)"
    and "s' = s\<lparr>kern := k, m_epollhandle := h, m_connection_n := int n, m_pconnections := base,
               pool := cs, m_pfree_connections := nxt, m_free_connection_n := int n\<rparr>"
    and "pool_placed base n" "reg k = {}"
  shows "worker_inv reg [0..<n] [] s'"
proof -
  have sp: "length cs = n" "free_chain cs nxt [0..<n]" "\<forall>i < n. c_fd (cs ! i) = -1"
    using link_free_spec [OF assms(2), of "[]"] by auto
  then have "pool_wf [0..<n] s'"
    by (simp add: pool_wf_def assms(3))
  moreover have u: "used [0..<n] s' = {}"
    using sp by (auto simp: used_def assms(3))
  ultimately have "sock_inv [0..<n] [] s'"
    using assms(1) by (simp add: sock_inv_def own_inv_def rx_inv_def owns_def buf_of_def heap_wf_def
        socket_ready_def assms(3))
  then show ?thesis
    using u sp assms(4,5) by (simp add: worker_inv_but_def regs_valid_def assms(3))
qed

theorem epoll_init_inv:
  assumes ready: "socket_ready s" and os: "kernel_ok os reg" and reg: "reg (kern s) = {}"
    and placed: "pool_placed base (nat (m_worker_connections s))" and n: "0 \<le> m_worker_connections s"
  shows "epoll_init os base garbage s = Inl (Exit 2) \<or>
    (\<exists>s'. epoll_init os base garbage s = Inr (1, s') \<and>
       worker_inv reg [length (m_listenSocketList s)..<nat (m_worker_connections s)] [] s' \<and>
       length (pool s') = nat (m_worker_connections s) \<and>
       length (m_listenSocketList s) \<le> nat (m_worker_connections s) \<and>
       (\<forall>p < length (m_listenSocketList s). listener_conn s' p p))"
proof -
  obtain h k where create: "sys_epoll_create os (m_worker_connections s) (kern s) = (h, k)"
    by fastforce
  define m where "m = nat (m_worker_connections s)"
  obtain cs nxt where link: "link_free m (map garbage [0..<m]) None = (cs, nxt)"
    by fastforce
  let ?L = "length (m_listenSocketList s)"
  let ?s2 = "s\<lparr>kern := k, m_epollhandle := h, m_connection_n := int m, m_pconnections := base,
               pool := cs, m_pfree_connections := nxt, m_free_connection_n := int m\<rparr>"
  have "reg k = {}"
    using kernel_ok_reg(6) [OF os, of "m_worker_connections s" "kern s"] create reg by simp
  then have inv2: "worker_inv reg [0..<m] [] ?s2"
    using empty_pool_inv [OF ready link refl] placed by (simp add: m_def)
  have "\<forall>p \<in> set [0..<?L]. p < length (m_listenSocketList ?s2) \<and> l_fd (m_listenSocketList ?s2 ! p) \<noteq> -1"
    using ready by (simp add: socket_ready_def)
  note add = add_listeners_inv [OF inv2 os distinct_upt this]
  have run: "epoll_init os base garbage s = (if h = -1 then Inl (Exit 2)
      else bind_res (add_listeners os [0..<?L] ?s2) (\<lambda>s3. Inr (1, s3)))"
    using create link n by (simp add: epoll_init_def m_def Let_def)
  have len: "length cs = m"
    using link_free_spec [OF link, of "[]"] by simp
  show ?thesis
  proof (cases "h = -1 \<or> add_listeners os [0..<?L] ?s2 = Inl (Exit 2)")
    case True
    then show ?thesis using run by auto
  next
    case False
    then obtain s' where s': "add_listeners os [0..<?L] ?s2 = Inr s'" "?L \<le> m"
      "worker_inv reg (drop ?L [0..<m]) [] s'" "\<forall>k < ?L. listener_conn s' ([0..<?L] ! k) ([0..<m] ! k)"
      "same_pool ?s2 s'"
      using add by auto
    then show ?thesis
      using run False len by (auto simp: m_def same_pool_def)
  qed
qed

text \<open>A negative number of connections is not tested: \<open>new\<close> throws, unless \<open>epoll_create\<close> has failed.\<close>

lemma epoll_init_negative:
  assumes "m_worker_connections s < 0"
  shows "epoll_init os base garbage s =
    (if fst (sys_epoll_create os (m_worker_connections s) (kern s)) = -1 then Inl (Exit 2)
     else Inl (Fault Bad_alloc))"
  using assms by (simp add: epoll_init_def Let_def split: prod.split)

section \<open>The worker's loop\<close>

text \<open>\<open>n\<close> rounds of the \<open>for (;;)\<close> of \<open>workerProcessCycle\<close>.\<close>

definition worker_rounds :: "'k os \<Rightarrow> nat \<Rightarrow> 'k csocket \<Rightarrow> 'k csocket res" where
  "worker_rounds os n = iterate_res (xfly_process_events_and_timer os) n"

interpretation wl: safe_loop "xfly_process_events_and_timer (os :: 'k os)"
  "\<lambda>s. kernel_ok os reg \<and> (\<exists>fl qs. worker_inv reg fl qs s)" for os reg
proof
  fix s :: "'k csocket"
  assume "kernel_ok os reg \<and> (\<exists>fl qs. worker_inv reg fl qs s)"
  then obtain r s' fl' qs' where "epoll_process_event os (-1) s = Inr (r, s')" "worker_inv reg fl' qs' s'"
    using epoll_process_event_inv by blast
  then show "\<exists>s'. xfly_process_events_and_timer os s = Inr s' \<and>
      kernel_ok os reg \<and> (\<exists>fl qs. worker_inv reg fl qs s')"
    using \<open>kernel_ok os reg \<and> _\<close> by (auto simp: xfly_process_events_and_timer_def)
qed

end
