(* ===== verification/Xfly_Func.thy ===== *)
theory Xfly_Func
  imports Prelude "HOL-Library.Char_ord"
begin

text \<open>
  \<open>app/xfly_func.cpp\<close>: stripping white space from C strings in place. A C string is an array of
  characters with a NUL; \<open>None\<close> is the null pointer. \<open>c_str\<close> is the text before the NUL. The
  index \<open>int p\<close> of \<open>lStrip\<close> is a \<open>nat\<close>: the strings are shorter than \<open>2 ^ 31\<close>.
\<close>

abbreviation NUL :: char where "NUL \<equiv> CHR 0x00"

definition c_str :: "string \<Rightarrow> string" where
  "c_str buf = takeWhile (\<lambda>c. c \<noteq> NUL) buf"

definition strlen :: "string \<Rightarrow> nat res" where
  "strlen buf = (if NUL \<in> set buf then Inr (length (c_str buf)) else Inl (Fault Out_of_bounds))"

text \<open>\<open>strchr(set, c) != nullptr\<close>: the terminating NUL of \<open>set\<close> counts as a member.\<close>

definition strchr_hit :: "string \<Rightarrow> char \<Rightarrow> bool" where
  "strchr_hit s c \<longleftrightarrow> c \<in> set s \<or> c = NUL"

definition skipCharacter :: string where
  "skipCharacter = [CHR 0x0A, CHR 0x09, CHR 0x0D, CHR '' '']"

section \<open>lStrip\<close>

text \<open>The first loop: the position of the first character that is not white space.\<close>

function lskip :: "string \<Rightarrow> nat \<Rightarrow> nat \<Rightarrow> nat" where
  "lskip buf len p =
     (if p < len then if strchr_hit skipCharacter (buf ! p) then lskip buf len (Suc p) else p else p)"
  by pat_completeness auto
termination
  by (relation "measure (\<lambda>(buf, len, p). len - p)") auto

declare lskip.simps [simp del]

text \<open>The second loop: copying from \<open>tmp\<close> down to \<open>str\<close>, up to the NUL.\<close>

function copy_down :: "string \<Rightarrow> nat \<Rightarrow> nat \<Rightarrow> string res" where
  "copy_down buf str tmp =
     (if tmp < length buf then
        if buf ! tmp \<noteq> NUL then copy_down (buf[str := buf ! tmp]) (Suc str) (Suc tmp)
        else if str < length buf then Inr (buf[str := NUL]) else Inl (Fault Out_of_bounds)
      else Inl (Fault Out_of_bounds))"
  by pat_completeness auto
termination
  by (relation "measure (\<lambda>(buf, str, tmp). length buf - tmp)") auto

declare copy_down.simps [simp del]

definition lStrip :: "string option \<Rightarrow> string option res" where
  "lStrip str =
     (case str of None \<Rightarrow> Inr None
      | Some buf \<Rightarrow>
          bind_res (strlen buf) (\<lambda>len.
            if len = 0 then Inr (Some buf)
            else let p = lskip buf len 0
                 in if p = len then Inr (Some (buf[0 := NUL]))
                    else bind_res (copy_down buf 0 p) (\<lambda>buf'. Inr (Some buf'))))"

section \<open>rStrip\<close>

text \<open>The loop: back over white space, not beyond the first character.\<close>

primrec rskip :: "string \<Rightarrow> nat \<Rightarrow> nat" where
  "rskip buf 0 = 0"
| "rskip buf (Suc tmp) = (if strchr_hit skipCharacter (buf ! Suc tmp) then rskip buf tmp else Suc tmp)"

definition rStrip :: "string option \<Rightarrow> string option res" where
  "rStrip str =
     (case str of None \<Rightarrow> Inr None
      | Some buf \<Rightarrow>
          bind_res (strlen buf) (\<lambda>len.
            if len = 0 then Inr (Some buf)
            else let tmp = rskip buf (len - 1);
                     buf1 = (if tmp = 0 \<and> strchr_hit skipCharacter (buf ! 0) then buf[0 := NUL] else buf)
                 in if Suc tmp < length buf1 then Inr (Some (buf1[Suc tmp := NUL]))
                    else Inl (Fault Out_of_bounds)))"

section \<open>What they do\<close>

definition blank :: "char \<Rightarrow> bool" where
  "blank c \<longleftrightarrow> c \<in> set skipCharacter"

definition lstripped :: "string \<Rightarrow> string" where
  "lstripped s = dropWhile blank s"

definition rstripped :: "string \<Rightarrow> string" where
  "rstripped s = rev (dropWhile blank (rev s))"

lemma not_blank_NUL [simp]: "\<not> blank NUL"
  by (simp add: blank_def skipCharacter_def)

lemma strchr_hit_blank: "c \<noteq> NUL \<Longrightarrow> strchr_hit skipCharacter c \<longleftrightarrow> blank c"
  by (simp add: strchr_hit_def blank_def)

text \<open>A buffer is its text, a NUL, and a tail nobody reads.\<close>

lemma c_str_split: "NUL \<in> set buf \<Longrightarrow> \<exists>r. buf = c_str buf @ NUL # r"
proof -
  assume "NUL \<in> set buf"
  then have "dropWhile (\<lambda>c. c \<noteq> NUL) buf \<noteq> []"
    by (simp add: dropWhile_eq_Nil_conv)
  then obtain r where "dropWhile (\<lambda>c. c \<noteq> NUL) buf = NUL # r"
    using hd_dropWhile [of "\<lambda>c. c \<noteq> NUL" buf] by (cases "dropWhile (\<lambda>c. c \<noteq> NUL) buf") auto
  then show ?thesis
    using takeWhile_dropWhile_id [of "\<lambda>c. c \<noteq> NUL" buf] by (metis c_str_def)
qed

lemma c_str_no_NUL: "NUL \<notin> set (c_str buf)"
  by (auto simp: c_str_def dest: set_takeWhileD)

lemma c_str_append: "NUL \<notin> set t \<Longrightarrow> c_str (t @ NUL # r) = t"
  unfolding c_str_def by (subst takeWhile_append2) auto

lemma strlen_text: "NUL \<notin> set t \<Longrightarrow> strlen (t @ NUL # r) = Inr (length t)"
  by (simp add: strlen_def c_str_append)

lemma lskip_eq:
  assumes "NUL \<notin> set t" "p \<le> length t"
  shows "lskip (t @ NUL # r) (length t) p = p + length (takeWhile blank (drop p t))"
  using assms
proof (induction "length t - p" arbitrary: p)
  case 0
  then show ?case by (simp add: lskip.simps)
next
  case (Suc n)
  then have p: "p < length t" by simp
  then have d: "drop p t = t ! p # drop (Suc p) t" by (simp add: Cons_nth_drop_Suc)
  have "t ! p \<noteq> NUL" using Suc.prems(1) p nth_mem by fastforce
  then show ?case
    using Suc p d by (subst lskip.simps) (simp add: nth_append strchr_hit_blank)
qed

lemma copy_down_eq:
  assumes "buf = xs @ ys @ zs @ NUL # r" "NUL \<notin> set zs" "str = length xs" "tmp = length xs + length ys"
    "ys \<noteq> []"
  shows "\<exists>r'. copy_down buf str tmp = Inr (xs @ zs @ NUL # r') \<and> length r' = length ys + length r"
  using assms
proof (induction zs arbitrary: buf xs ys str tmp)
  case Nil
  then obtain y ys' where ys: "ys = y # ys'" by (cases ys) auto
  have "buf ! tmp = NUL" using Nil.prems by (simp add: nth_append)
  then show ?case
    using Nil.prems ys by (subst copy_down.simps) (auto simp: list_update_append)
next
  case (Cons z zs)
  then obtain y ys' where ys: "ys = y # ys'" by (cases ys) auto
  have tmp: "tmp < length buf" "buf ! tmp = z"
    using Cons.prems by (simp_all add: nth_append)
  have upd: "buf[str := z] = (xs @ [z]) @ (ys' @ [z]) @ zs @ NUL # r"
    using Cons.prems ys by (simp add: list_update_append)
  obtain r' where "copy_down (buf[str := z]) (Suc str) (Suc tmp) = Inr ((xs @ [z]) @ zs @ NUL # r')"
    "length r' = length (ys' @ [z]) + length r"
    using Cons.IH [OF upd, of "Suc str" "Suc tmp"] Cons.prems ys by auto
  moreover have "copy_down buf str tmp = copy_down (buf[str := z]) (Suc str) (Suc tmp)"
    using tmp Cons.prems(2) by (subst copy_down.simps) auto
  ultimately show ?case
    using ys by auto
qed

text \<open>Copied onto itself, a string stays as it is.\<close>

lemma copy_down_same:
  "NUL \<notin> set ys \<Longrightarrow> copy_down (xs @ ys @ NUL # r) (length xs) (length xs) = Inr (xs @ ys @ NUL # r)"
proof (induction ys arbitrary: xs)
  case Nil
  then show ?case by (subst copy_down.simps) simp
next
  case (Cons y ys)
  then show ?case
    using Cons.IH [of "xs @ [y]"] by (subst copy_down.simps) (simp add: nth_append list_update_append)
qed

lemma lStrip_text:
  assumes "NUL \<notin> set t"
  shows "\<exists>r'. lStrip (Some (t @ NUL # r)) = Inr (Some (lstripped t @ NUL # r')) \<and>
     length (lstripped t @ NUL # r') = length (t @ NUL # r)"
proof (cases "t = []")
  case True
  then show ?thesis
    using strlen_text [of "[]" r] by (simp add: lStrip_def lstripped_def)
next
  case False
  let ?b = "takeWhile blank t"
  have split: "t = ?b @ lstripped t" by (simp add: lstripped_def)
  have p: "lskip (t @ NUL # r) (length t) 0 = length ?b"
    using lskip_eq [OF assms, of 0 r] by simp
  show ?thesis
  proof (cases "length ?b = length t")
    case True
    then have "lstripped t = []" using split by (metis append_eq_conv_conj append_Nil2 take_all_iff le_refl)
    then show ?thesis
      using True False p strlen_text [OF assms, of r] by (cases t) (auto simp: lStrip_def)
  next
    case nall: False
    show ?thesis
    proof (cases "?b = []")
      case True
      then have "lstripped t = t" using split by simp
      moreover have "copy_down (t @ NUL # r) 0 0 = Inr (t @ NUL # r)"
        using copy_down_same [OF assms, of "[]" r] by simp
      ultimately show ?thesis
        using p True False nall assms by (auto simp: lStrip_def strlen_text Let_def)
    next
      case ne: False
      have "NUL \<notin> set (lstripped t)"
        using assms split by (metis UnCI set_append)
      then obtain r' where "copy_down (t @ NUL # r) 0 (length ?b) = Inr (lstripped t @ NUL # r')"
        "length r' = length ?b + length r"
        using copy_down_eq [of "t @ NUL # r" "[]" ?b "lstripped t" r 0 "length ?b"] ne split by auto
      moreover have "length t = length ?b + length (lstripped t)"
        using split by (metis length_append)
      ultimately show ?thesis
        using p nall False assms by (auto simp: lStrip_def strlen_text Let_def)
    qed
  qed
qed

lemma rskip_eq:
  assumes "NUL \<notin> set t" "n < length t"
  shows "rskip (t @ NUL # r) n = length (rstripped (take (Suc n) t)) - 1"
  using assms
proof (induction n)
  case 0
  have "length (rstripped (take (Suc 0) t)) \<le> length (take (Suc 0) t)"
    unfolding rstripped_def by (simp only: length_rev) (metis length_dropWhile_le length_rev)
  also have "\<dots> \<le> 1" by simp
  finally show ?case by simp
next
  case (Suc n)
  have t: "take (Suc (Suc n)) t = take (Suc n) t @ [t ! Suc n]"
    using Suc.prems(2) by (rule take_Suc_conv_app_nth)
  have "t ! Suc n \<noteq> NUL" using Suc.prems nth_mem by fastforce
  then show ?case
    using Suc t by (simp add: nth_append strchr_hit_blank rstripped_def)
qed

lemma rstripped_split: "\<exists>bs. t = rstripped t @ bs \<and> (\<forall>b \<in> set bs. blank b)"
proof -
  have "rev t = takeWhile blank (rev t) @ dropWhile blank (rev t)"
    by simp
  then have "t = rev (dropWhile blank (rev t)) @ rev (takeWhile blank (rev t))"
    by (metis rev_append rev_rev_ident)
  then show ?thesis
    unfolding rstripped_def by (metis set_rev set_takeWhileD)
qed

text \<open>The two ends of the scan from the right: nothing but blanks, or a last character to keep.\<close>

lemma rStrip_blank:
  assumes nul: "NUL \<notin> set t" and t: "t \<noteq> []" and blank: "\<forall>b \<in> set t. blank b" "rstripped t = []"
  shows "rStrip (Some (t @ NUL # r)) = Inr (Some ((t @ NUL # r)[0 := NUL, 1 := NUL]))"
proof -
  have "rskip (t @ NUL # r) (length t - 1) = 0"
    using rskip_eq [OF nul, of "length t - 1" r] t blank(2) by simp
  moreover obtain b bs where b: "t = b # bs" using t by (cases t) auto
  have "strchr_hit skipCharacter b"
    using blank(1) b by (simp add: blank_def strchr_hit_def)
  ultimately show ?thesis
    using strlen_text [OF nul, of r] b by (simp add: rStrip_def)
qed

lemma rStrip_kept:
  assumes nul: "NUL \<notin> set t" and t: "t = xs @ x # bs" "rstripped t = xs @ [x]"
  shows "rStrip (Some (t @ NUL # r)) = Inr (Some ((t @ NUL # r)[Suc (length xs) := NUL]))"
proof -
  have skip: "rskip (t @ NUL # r) (length t - 1) = length xs"
    using rskip_eq [OF nul, of "length t - 1" r] t by simp
  have "dropWhile blank (rev t) = x # rev xs"
    using t(2) by (simp add: rstripped_def rev_swap)
  then have "\<not> blank x"
    using hd_dropWhile [of blank "rev t"] by simp
  moreover have "t ! 0 \<noteq> NUL" using nul t(1) nth_mem [of 0 t] by fastforce
  ultimately have "\<not> (length xs = 0 \<and> strchr_hit skipCharacter ((t @ NUL # r) ! 0))"
    using t(1) by (auto simp: strchr_hit_blank)
  then show ?thesis
    using skip strlen_text [OF nul, of r] t(1) by (auto simp: rStrip_def Let_def)
qed

lemma rStrip_text:
  assumes "NUL \<notin> set t"
  shows "\<exists>r'. rStrip (Some (t @ NUL # r)) = Inr (Some (rstripped t @ NUL # r')) \<and>
     length (rstripped t @ NUL # r') = length (t @ NUL # r)"
proof (cases "t = []")
  case True
  then show ?thesis
    using strlen_text [of "[]" r] by (simp add: rStrip_def rstripped_def)
next
  case False
  obtain bs where bs: "t = rstripped t @ bs" "\<forall>b \<in> set bs. blank b"
    using rstripped_split by blast
  show ?thesis
  proof (cases "rstripped t = []")
    case True
    then have t: "t = bs" using bs(1) by simp
    then obtain b bs' where b: "t = b # bs'" using False by (cases t) auto
    have "rStrip (Some (t @ NUL # r)) = Inr (Some ((t @ NUL # r)[0 := NUL, 1 := NUL]))"
      using bs(2) t True False by (intro rStrip_blank assms) simp_all
    then show ?thesis
      using True b by (cases bs') auto
  next
    case ne: False
    then obtain xs x where x: "rstripped t = xs @ [x]" by (metis rev_exhaust)
    have tx: "t = xs @ x # bs" using bs(1) x by simp
    have "(t @ NUL # r)[Suc (length xs) := NUL] = rstripped t @ NUL # tl (bs @ NUL # r)"
      using tx x by (cases bs) (simp_all add: list_update_append)
    then show ?thesis
      using rStrip_kept [OF assms tx x, of r] tx x by (cases bs) simp_all
  qed
qed

text \<open>On any buffer that holds a string, and on the null pointer.\<close>

lemma lStrip_spec:
  assumes "NUL \<in> set buf"
  shows "\<exists>buf'. lStrip (Some buf) = Inr (Some buf') \<and> length buf' = length buf \<and> NUL \<in> set buf' \<and>
     c_str buf' = lstripped (c_str buf)"
proof -
  obtain r where r: "buf = c_str buf @ NUL # r" using c_str_split [OF assms] by blast
  obtain r' where "lStrip (Some buf) = Inr (Some (lstripped (c_str buf) @ NUL # r'))"
    "length (lstripped (c_str buf) @ NUL # r') = length buf"
    using lStrip_text [OF c_str_no_NUL, of buf r] r by metis
  moreover have "NUL \<notin> set (lstripped (c_str buf))"
    using c_str_no_NUL [of buf] by (auto simp: lstripped_def dest: set_dropWhileD)
  ultimately show ?thesis by (auto simp: c_str_append)
qed

lemma rStrip_spec:
  assumes "NUL \<in> set buf"
  shows "\<exists>buf'. rStrip (Some buf) = Inr (Some buf') \<and> length buf' = length buf \<and> NUL \<in> set buf' \<and>
     c_str buf' = rstripped (c_str buf)"
proof -
  obtain r where r: "buf = c_str buf @ NUL # r" using c_str_split [OF assms] by blast
  obtain r' where "rStrip (Some buf) = Inr (Some (rstripped (c_str buf) @ NUL # r'))"
    "length (rstripped (c_str buf) @ NUL # r') = length buf"
    using rStrip_text [OF c_str_no_NUL, of buf r] r by metis
  moreover have "NUL \<notin> set (rstripped (c_str buf))"
    using c_str_no_NUL [of buf] by (auto simp: rstripped_def dest: set_dropWhileD)
  ultimately show ?thesis by (auto simp: c_str_append)
qed

definition stripped :: "string \<Rightarrow> string" where
  "stripped s = rstripped (lstripped s)"

lemma strip_both_spec:
  assumes "NUL \<in> set buf"
  shows "\<exists>buf'. bind_res (lStrip (Some buf)) rStrip = Inr (Some buf') \<and> length buf' = length buf \<and>
     NUL \<in> set buf' \<and> c_str buf' = stripped (c_str buf)"
proof -
  obtain b1 where "lStrip (Some buf) = Inr (Some b1)" "length b1 = length buf" "NUL \<in> set b1"
    "c_str b1 = lstripped (c_str buf)"
    using lStrip_spec [OF assms] by blast
  then show ?thesis
    using rStrip_spec [of b1] by (auto simp: stripped_def)
qed

text \<open>A string that neither begins nor ends with white space.\<close>

definition trimmed :: "string \<Rightarrow> bool" where
  "trimmed s \<longleftrightarrow> s = [] \<or> \<not> blank (hd s) \<and> \<not> blank (last s)"

lemma stripped_trimmed_id: "trimmed s \<Longrightarrow> stripped s = s"
proof (cases "s = []")
  case True
  then show ?thesis by (simp add: stripped_def lstripped_def rstripped_def)
next
  case False
  assume "trimmed s"
  then have "\<not> blank (hd s)" "\<not> blank (hd (rev s))"
    using False by (simp_all add: trimmed_def hd_rev)
  then have "dropWhile blank s = s" "dropWhile blank (rev s) = rev s"
    using False by (simp_all add: dropWhile_eq_self_iff)
  then show ?thesis by (simp add: stripped_def lstripped_def rstripped_def)
qed

lemma trimmed_stripped: "trimmed (stripped s)"
proof (cases "stripped s = []")
  case True
  then show ?thesis by (simp add: trimmed_def)
next
  case False
  let ?l = "lstripped s"
  obtain bs where bs: "?l = stripped s @ bs"
    using rstripped_split [of ?l] by (auto simp: stripped_def)
  then have "?l \<noteq> []" using False by simp
  then have "\<not> blank (hd ?l)" unfolding lstripped_def by (rule hd_dropWhile)
  then have "\<not> blank (hd (stripped s))" using bs False by (metis hd_append2)
  moreover have "\<not> blank (last (stripped s))"
    using False hd_dropWhile [of blank "rev ?l"] by (simp add: stripped_def rstripped_def last_rev)
  ultimately show ?thesis by (simp add: trimmed_def)
qed

end
