(* ===== verification/Xfly_Conf.thy ===== *)
theory Xfly_Conf
  imports Xfly_Func
begin

text \<open>
  \<open>app/xfly_conf.cpp\<close>: the \<open>Config\<close> singleton, a list of (name, content) items read from a file
  line by line. The file is its unread text with the end-of-file flag of \<open>feof\<close>; \<open>f_bad\<close> says
  that reading ends with an error instead of an end of file, which leaves that flag clear.
  Lookups compare names without case and take the first item that matches.
\<close>

record ConfigItem =
  ItemName :: string
  ItemContent :: string

record cfile =
  f_data :: string
  f_eof :: bool
  f_bad :: bool

abbreviation NL :: char where "NL \<equiv> CHR 0x0A"

section \<open>The C library functions the component uses\<close>

text \<open>Up to \<open>n\<close> characters, through the first newline; then whether the end was hit.\<close>

fun take_line :: "nat \<Rightarrow> string \<Rightarrow> string \<times> string \<times> bool" where
  "take_line 0 xs = ([], xs, False)"
| "take_line (Suc n) [] = ([], [], True)"
| "take_line (Suc n) (c # cs) =
     (if c = NL then ([c], cs, False)
      else let (l, r, e) = take_line n cs in (c # l, r, e))"

definition fgets :: "nat \<Rightarrow> cfile \<Rightarrow> string option \<times> cfile" where
  "fgets sz fp =
     (let (l, r, e) = take_line (sz - 1) (f_data fp)
      in if e \<and> f_bad fp then (None, fp\<lparr>f_data := r\<rparr>)
         else if l = [] then (None, fp\<lparr>f_data := r, f_eof := f_eof fp \<or> e\<rparr>)
         else (Some (l @ [NUL]), fp\<lparr>f_data := r, f_eof := f_eof fp \<or> e\<rparr>))"

definition strchr_pos :: "string \<Rightarrow> char \<Rightarrow> nat option" where
  "strchr_pos buf c =
     (let t = c_str buf; p = length (takeWhile (\<lambda>x. x \<noteq> c) t)
      in if p < length t then Some p else None)"

definition strncpy :: "string \<Rightarrow> string \<Rightarrow> nat \<Rightarrow> string res" where
  "strncpy dst src n =
     (let t = take n (c_str src)
      in if n \<le> length dst then Inr (overwrite 0 (t @ replicate (n - length t) NUL) dst)
         else Inl (Fault Out_of_bounds))"

definition strcpy :: "string \<Rightarrow> string \<Rightarrow> string res" where
  "strcpy dst src =
     (let t = c_str src @ [NUL]
      in if length t \<le> length dst then Inr (overwrite 0 t dst) else Inl (Fault Out_of_bounds))"

definition to_lower :: "char \<Rightarrow> char" where
  "to_lower c =
     (let n = of_char c :: nat in if 65 \<le> n \<and> n \<le> 90 then char_of (n + 32) else c)"

text \<open>\<open>strcasecmp(a, b) == 0\<close>.\<close>

definition strcaseeq :: "string \<Rightarrow> string \<Rightarrow> bool" where
  "strcaseeq a b \<longleftrightarrow> map to_lower (c_str a) = map to_lower (c_str b)"

definition isspace :: "char \<Rightarrow> bool" where
  "isspace c \<longleftrightarrow> c = CHR '' '' \<or> 9 \<le> (of_char c :: nat) \<and> (of_char c :: nat) \<le> 13"

definition isdigit :: "char \<Rightarrow> bool" where
  "isdigit c \<longleftrightarrow> 48 \<le> (of_char c :: nat) \<and> (of_char c :: nat) \<le> 57"

definition digits_val :: "string \<Rightarrow> int" where
  "digits_val ds = foldl (\<lambda>n d. 10 * n + (int (of_char d) - 48)) 0 ds"

text \<open>\<open>atoi\<close> is \<open>(int) strtol(s, NULL, 10)\<close>: saturating at 64 bits, then cut to 32.\<close>

definition atoi :: "string \<Rightarrow> int" where
  "atoi s =
     (let t = dropWhile isspace (c_str s);
          neg = (t \<noteq> [] \<and> hd t = CHR ''-'');
          ds = (if t \<noteq> [] \<and> (hd t = CHR ''-'' \<or> hd t = CHR ''+'') then tl t else t);
          n = digits_val (takeWhile isdigit ds);
          v = (if neg then max (- (2 ^ 63)) (- n) else min (2 ^ 63 - 1) n)
      in sint (of_int v :: u32))"

text \<open>Decimal numerals, as \<open>sprintf("%d")\<close> prints them.\<close>

fun dec_of_nat :: "nat \<Rightarrow> string" where
  "dec_of_nat n = (if n < 10 then [char_of (48 + n)] else dec_of_nat (n div 10) @ [char_of (48 + n mod 10)])"

declare dec_of_nat.simps [simp del]

definition dec_of_int :: "int \<Rightarrow> string" where
  "dec_of_int n = (if n < 0 then CHR ''-'' # dec_of_nat (nat (- n)) else dec_of_nat (nat n))"

section \<open>Loading\<close>

text \<open>
  The literal of \<open>lineInvalid\<close> begins with a NUL, so for \<open>strchr\<close> it is the empty string.
\<close>

definition lineInvalid_skip :: string where
  "lineInvalid_skip = [NUL, CHR ''#'', CHR '';'', NL, CHR 0x09, CHR ''['', CHR '' '', NUL]"

definition lineInvalid :: "string \<Rightarrow> bool res" where
  "lineInvalid line =
     bind_res (strlen line) (\<lambda>len.
       if len = 0 then Inr True
       else Inr (strchr_hit (c_str lineInvalid_skip) (line ! 0)))"

text \<open>\<open>lStrip\<close> then \<open>rStrip\<close> on one of the arrays of an item.\<close>

definition strip_field :: "string \<Rightarrow> string res" where
  "strip_field buf =
     bind_res (bind_res (lStrip (Some buf)) rStrip) (\<lambda>r.
       case r of None \<Rightarrow> Inl (Fault Null_deref) | Some buf' \<Rightarrow> Inr buf')"

definition load_line :: "string \<Rightarrow> ConfigItem list \<Rightarrow> ConfigItem list res" where
  "load_line linebuf items =
     bind_res (lineInvalid linebuf) (\<lambda>inv.
       if inv then Inr items
       else case strchr_pos linebuf (CHR ''='') of
              None \<Rightarrow> Inr items
            | Some pEqual \<Rightarrow>
                bind_res (strncpy (replicate 51 NUL) linebuf pEqual) (\<lambda>name.
                bind_res (strcpy (replicate 501 NUL) (drop (Suc pEqual) linebuf)) (\<lambda>content.
                bind_res (strip_field name) (\<lambda>name'.
                bind_res (strip_field content) (\<lambda>content'.
                  Inr (items @ [\<lparr>ItemName = name', ItemContent = content'\<rparr>]))))))"

text \<open>The \<open>while (!feof(fp))\<close> loop, which may run for ever.\<close>

partial_function (option) load_loop :: "cfile \<Rightarrow> ConfigItem list \<Rightarrow> ConfigItem list res option" where
  "load_loop fp items =
     (if f_eof fp then Some (Inr items)
      else case fgets 500 fp of
             (None, fp') \<Rightarrow> load_loop fp' items
           | (Some line, fp') \<Rightarrow>
               (case load_line line items of
                  Inl e \<Rightarrow> Some (Inl e)
                | Inr items' \<Rightarrow> load_loop fp' items'))"

text \<open>\<open>fopen\<close> gave \<open>fp\<close>; the items loaded before are kept.\<close>

definition load_conf :: "cfile option \<Rightarrow> ConfigItem list \<Rightarrow> (bool \<times> ConfigItem list) res option" where
  "load_conf fp items =
     (case fp of
        None \<Rightarrow> Some (Inr (False, items))
      | Some f \<Rightarrow>
          (case load_loop f items of
             None \<Rightarrow> None
           | Some r \<Rightarrow> Some (bind_res r (\<lambda>items'. Inr (True, items')))))"

section \<open>Lookup\<close>

primrec getString :: "ConfigItem list \<Rightarrow> string \<Rightarrow> string option" where
  "getString [] pItemName = None"
| "getString (item # rest) pItemName =
     (if strcaseeq (ItemName item) pItemName then Some (c_str (ItemContent item))
      else getString rest pItemName)"

primrec getIntDefault :: "ConfigItem list \<Rightarrow> string \<Rightarrow> int \<Rightarrow> int" where
  "getIntDefault [] pItemName value = value"
| "getIntDefault (item # rest) pItemName value =
     (if strcaseeq (ItemName item) pItemName then atoi (ItemContent item)
      else getIntDefault rest pItemName value)"

text \<open>The printer \<open>operator<<\<close>.\<close>

definition print_conf :: "ConfigItem list \<Rightarrow> string" where
  "print_conf items =
     ''m_configItemList: '' @ [NL] @
     concat (map (\<lambda>it. c_str (ItemName it) @ '' -> '' @ c_str (ItemContent it) @ [NL]) items)"

end
