(* ===== verification/Conf_Spec.thy ===== *)
theory Conf_Spec
  imports Xfly_Conf
begin

text \<open>
  What loading a configuration file means. \<open>conf_items\<close> reads the items off the text; the load
  loop refines it on every file whose keys fit their array, and printing items one per line and
  loading them gives the items back. Numbers survive being printed and read by \<open>atoi\<close>.
\<close>

section \<open>Reading lines\<close>

lemma take_line_append: "take_line n xs = (l, r, e) \<Longrightarrow> xs = l @ r"
  by (induction n xs arbitrary: l r e rule: take_line.induct) (auto split: if_splits prod.splits)

lemma take_line_length: "take_line n xs = (l, r, e) \<Longrightarrow> length l \<le> n"
  by (induction n xs arbitrary: l r e rule: take_line.induct) (auto split: if_splits prod.splits)

lemma take_line_end: "take_line n xs = (l, r, e) \<Longrightarrow> e \<Longrightarrow> r = []"
  by (induction n xs arbitrary: l r e rule: take_line.induct) (auto split: if_splits prod.splits)

lemma take_line_empty: "take_line (Suc n) xs = (l, r, e) \<Longrightarrow> l = [] \<longleftrightarrow> xs = []"
  by (cases xs) (auto split: if_splits prod.splits)

lemma take_line_exact:
  "NL \<notin> set t \<Longrightarrow> length t < n \<Longrightarrow> take_line n (t @ NL # rest) = (t @ [NL], rest, False)"
proof (induction t arbitrary: n)
  case Nil
  then show ?case by (cases n) auto
next
  case (Cons c t)
  then show ?case by (cases n) auto
qed

function text_lines :: "string \<Rightarrow> string list" where
  "text_lines xs =
     (if xs = [] then [] else let (l, r, e) = take_line 499 xs in l # text_lines r)"
  by pat_completeness auto
termination
proof (relation "measure length")
  fix xs x l re :: string and r e y
  show "wf (measure (length :: string \<Rightarrow> nat))" by simp
  fix xs l r :: string and p y e
  assume "xs \<noteq> []" "p = take_line 499 xs" "(l, y) = p" "(r, e) = y"
  moreover from this have t: "take_line (Suc 498) xs = (l, r, e)" by simp
  ultimately show "(r, xs) \<in> measure length"
    using take_line_append [OF t] take_line_empty [OF t] by (cases l) auto
qed

declare text_lines.simps [simp del]

section \<open>The items of a text\<close>

definition line_items :: "string \<Rightarrow> (string \<times> string) list" where
  "line_items t =
     (if CHR ''='' \<in> set t
      then [(stripped (takeWhile (\<lambda>c. c \<noteq> CHR ''='') t),
             stripped (tl (dropWhile (\<lambda>c. c \<noteq> CHR ''='') t)))]
      else [])"

definition conf_items :: "string \<Rightarrow> (string \<times> string) list" where
  "conf_items text = concat (map line_items (text_lines text))"

definition item_view :: "ConfigItem \<Rightarrow> string \<times> string" where
  "item_view it = (c_str (ItemName it), c_str (ItemContent it))"

text \<open>The key of every item line fits \<open>ItemName\<close> with its terminating NUL.\<close>

definition keys_fit :: "string \<Rightarrow> bool" where
  "keys_fit text \<longleftrightarrow>
     (\<forall>t \<in> set (text_lines text). CHR ''='' \<in> set t \<longrightarrow>
        length (takeWhile (\<lambda>c. c \<noteq> CHR ''='') t) \<le> 50)"

section \<open>One line\<close>

lemma c_str_skip_literal [simp]: "c_str lineInvalid_skip = []"
  by (simp add: c_str_def lineInvalid_skip_def)

text \<open>No line is ever skipped for its first character.\<close>

lemma lineInvalid_eq:
  assumes "NUL \<notin> set t"
  shows "lineInvalid (t @ [NUL]) = Inr (t = [])"
  using strlen_text [OF assms, of "[]"] assms
  by (cases t) (auto simp: lineInvalid_def strchr_hit_def)

lemma strip_field_spec:
  assumes "NUL \<in> set buf"
  shows "\<exists>buf'. strip_field buf = Inr buf' \<and> length buf' = length buf \<and> c_str buf' = stripped (c_str buf)"
  using strip_both_spec [OF assms] by (auto simp: strip_field_def)

lemma strncpy_name:
  assumes "NUL \<notin> set t" "p \<le> length t" "p \<le> 50"
  shows "\<exists>name. strncpy (replicate 51 NUL) (t @ r) p = Inr name \<and> length name = 51 \<and>
           NUL \<in> set name \<and> c_str name = take p t"
proof -
  have c: "take p (c_str (t @ r)) = take p t"
    using assms by (auto simp: c_str_def takeWhile_append)
  have eq: "overwrite 0 (take p t) (replicate 51 NUL) = take p t @ NUL # replicate (50 - p) NUL"
    using assms by (simp add: overwrite_def min_absorb2 Suc_diff_le flip: replicate_Suc)
  have n: "NUL \<notin> set (take p t)" using assms(1) by (auto dest: in_set_takeD)
  have "strncpy (replicate 51 NUL) (t @ r) p = Inr (take p t @ NUL # replicate (50 - p) NUL)"
    using assms c eq by (simp add: strncpy_def min_absorb2)
  then show ?thesis
    using assms c_str_append [OF n] by auto
qed

lemma strcpy_content:
  assumes "NUL \<notin> set t" "length t \<le> 500"
  shows "\<exists>buf. strcpy (replicate 501 NUL) (t @ [NUL]) = Inr buf \<and> length buf = 501 \<and>
           NUL \<in> set buf \<and> c_str buf = t"
proof -
  have "overwrite 0 (t @ [NUL]) (replicate 501 NUL) = t @ NUL # replicate (500 - length t) NUL"
    using assms by (simp add: overwrite_def)
  then have "strcpy (replicate 501 NUL) (t @ [NUL]) = Inr (t @ NUL # replicate (500 - length t) NUL)"
    using assms c_str_append [OF assms(1), of "[]"] by (simp add: strcpy_def)
  then show ?thesis
    using assms c_str_append [OF assms(1)] by auto
qed

lemma strchr_pos_eq:
  assumes "NUL \<notin> set t"
  shows "strchr_pos (t @ [NUL]) c =
    (if c \<in> set t then Some (length (takeWhile (\<lambda>x. x \<noteq> c) t)) else None)"
proof -
  have "length (takeWhile (\<lambda>x. x \<noteq> c) t) < length t \<longleftrightarrow> c \<in> set t"
    by (induction t) auto
  then show ?thesis
    using c_str_append [OF assms, of "[]"] by (simp add: strchr_pos_def Let_def)
qed

lemma load_line_spec:
  assumes t: "NUL \<notin> set t" "length t \<le> 499"
    and key: "CHR ''='' \<in> set t \<Longrightarrow> length (takeWhile (\<lambda>c. c \<noteq> CHR ''='') t) \<le> 50"
  shows "\<exists>new. load_line (t @ [NUL]) items = Inr (items @ new) \<and> map item_view new = line_items t"
proof (cases "CHR ''='' \<in> set t")
  case False
  then show ?thesis
    using lineInvalid_eq [OF t(1)] strchr_pos_eq [OF t(1), of "CHR ''=''"]
    by (simp add: load_line_def line_items_def)
next
  case True
  let ?p = "length (takeWhile (\<lambda>c. c \<noteq> CHR ''='') t)"
  have tk: "take ?p t = takeWhile (\<lambda>c. c \<noteq> CHR ''='') t"
    by (metis takeWhile_eq_take)
  have p: "?p < length t" using True by (induction t) auto
  have dr: "drop (Suc ?p) t = tl (dropWhile (\<lambda>c. c \<noteq> CHR ''='') t)"
    by (simp add: dropWhile_eq_drop drop_Suc flip: tl_drop)
  obtain name where name: "strncpy (replicate 51 NUL) (t @ [NUL]) ?p = Inr name" "NUL \<in> set name"
    "c_str name = take ?p t"
    using strncpy_name [OF t(1), of ?p "[NUL]"] p key [OF True] by auto
  have "NUL \<notin> set (drop (Suc ?p) t)" using t(1) by (auto dest: in_set_dropD)
  moreover have "length (drop (Suc ?p) t) \<le> 500" using t(2) by simp
  ultimately obtain content where content: "strcpy (replicate 501 NUL) (drop (Suc ?p) t @ [NUL]) = Inr content"
    "NUL \<in> set content" "c_str content = drop (Suc ?p) t"
    using strcpy_content by blast
  have d: "drop (Suc ?p) (t @ [NUL]) = drop (Suc ?p) t @ [NUL]" using p by simp
  obtain n' c' where "strip_field name = Inr n'" "c_str n' = stripped (c_str name)"
    "strip_field content = Inr c'" "c_str c' = stripped (c_str content)"
    using strip_field_spec [OF name(2)] strip_field_spec [OF content(2)] by blast
  then show ?thesis
    using lineInvalid_eq [OF t(1)] strchr_pos_eq [OF t(1), of "CHR ''=''"] True name content d tk dr
    by (auto simp: load_line_def line_items_def item_view_def)
qed

section \<open>The whole file\<close>

lemma conf_items_Nil [simp]: "conf_items [] = []"
  by (simp add: conf_items_def text_lines.simps)

lemma conf_items_step:
  "xs \<noteq> [] \<Longrightarrow> take_line 499 xs = (l, r, e) \<Longrightarrow> conf_items xs = line_items l @ conf_items r"
  by (simp add: conf_items_def text_lines.simps [of xs])

lemma keys_fit_step:
  "xs \<noteq> [] \<Longrightarrow> take_line 499 xs = (l, r, e) \<Longrightarrow> keys_fit xs \<longleftrightarrow>
     (CHR ''='' \<in> set l \<longrightarrow> length (takeWhile (\<lambda>c. c \<noteq> CHR ''='') l) \<le> 50) \<and> keys_fit r"
  by (simp add: keys_fit_def text_lines.simps [of xs])

lemma fgets_line:
  assumes "take_line 499 (f_data fp) = (l, r, e)" "f_data fp \<noteq> []" "\<not> f_bad fp"
  shows "fgets 500 fp = (Some (l @ [NUL]), fp\<lparr>f_data := r, f_eof := f_eof fp \<or> e\<rparr>)"
proof -
  have "take_line (Suc 498) (f_data fp) = (l, r, e)" using assms(1) by simp
  then have "l \<noteq> []" using take_line_empty assms(2) by blast
  then show ?thesis using assms by (simp add: fgets_def)
qed

lemma fgets_end:
  "f_data fp = [] \<Longrightarrow> fgets 500 fp = (None, if f_bad fp then fp else fp\<lparr>f_eof := True\<rparr>)"
  by (cases fp) (simp add: fgets_def numeral_eq_Suc)

lemma load_loop_text:
  assumes "\<not> f_bad fp" "\<not> f_eof fp" "NUL \<notin> set (f_data fp)" "keys_fit (f_data fp)"
  shows "\<exists>new. load_loop fp items = Some (Inr (items @ new)) \<and> map item_view new = conf_items (f_data fp)"
  using assms
proof (induction "length (f_data fp)" arbitrary: fp items rule: less_induct)
  case less
  show ?case
  proof (cases "f_data fp = []")
    case True
    then show ?thesis
      using less.prems by (subst load_loop.simps) (simp add: fgets_end load_loop.simps [of "fp\<lparr>f_eof := True\<rparr>"])
  next
    case False
    obtain l r e where tl: "take_line 499 (f_data fp) = (l, r, e)" by (cases "take_line 499 (f_data fp)") auto
    let ?fp = "fp\<lparr>f_data := r, f_eof := e\<rparr>"
    have data: "f_data fp = l @ r" using tl by (rule take_line_append)
    have "take_line (Suc 498) (f_data fp) = (l, r, e)" using tl by simp
    then have l: "l \<noteq> []" "length l \<le> 499"
      using take_line_empty False take_line_length [OF tl] by blast+
    have key: "CHR ''='' \<in> set l \<Longrightarrow> length (takeWhile (\<lambda>c. c \<noteq> CHR ''='') l) \<le> 50" "keys_fit r"
      using less.prems(4) keys_fit_step [OF False tl] by auto
    obtain new where new: "load_line (l @ [NUL]) items = Inr (items @ new)" "map item_view new = line_items l"
      using load_line_spec [of l items] l(2) key(1) less.prems(3) data by auto
    have run: "load_loop fp items = load_loop ?fp (items @ new)"
      using less.prems(2) fgets_line [OF tl False less.prems(1)] new(1)
      by (subst load_loop.simps) simp
    have ci: "conf_items (f_data fp) = line_items l @ conf_items r"
      using conf_items_step [OF False tl] .
    show ?thesis
    proof (cases e)
      case True
      then have "r = []" using take_line_end [OF tl] by simp
      then show ?thesis
        using run True new(2) ci by (simp add: load_loop.simps [of "fp\<lparr>f_data := [], f_eof := True\<rparr>"])
    next
      case False
      have "length (f_data ?fp) < length (f_data fp)" using data l(1) by simp
      then obtain new' where "load_loop ?fp (items @ new) = Some (Inr ((items @ new) @ new'))"
        "map item_view new' = conf_items r"
        using less.hyps [of ?fp "items @ new"] less.prems False key(2) data by auto
      then show ?thesis using run new(2) ci by auto
    qed
  qed
qed

text \<open>A file whose reading fails at once: the loop never ends.\<close>

lemma load_loop_bad:
  assumes "load_loop fp items = Some r"
  shows "\<not> (f_data fp = [] \<and> f_bad fp \<and> \<not> f_eof fp)"
  using assms
proof (rule load_loop.raw_induct [rotated])
  fix rec :: "cfile \<Rightarrow> ConfigItem list \<Rightarrow> ConfigItem list res option" and fp items r
  assume rec: "\<And>fp items r. rec fp items = Some r \<Longrightarrow> \<not> (f_data fp = [] \<and> f_bad fp \<and> \<not> f_eof fp)"
    and step: "(if f_eof fp then Some (Inr items)
        else case fgets 500 fp of (None, fp') \<Rightarrow> rec fp' items
             | (Some line, fp') \<Rightarrow> (case load_line line items of Inl e \<Rightarrow> Some (Inl e)
                                   | Inr items' \<Rightarrow> rec fp' items')) = Some r"
  show "\<not> (f_data fp = [] \<and> f_bad fp \<and> \<not> f_eof fp)"
  proof
    assume bad: "f_data fp = [] \<and> f_bad fp \<and> \<not> f_eof fp"
    then have "rec fp items = Some r" using step by (simp add: fgets_end)
    then show False using rec bad by blast
  qed
qed

section \<open>Printing and loading\<close>

definition render_item :: "string \<times> string \<Rightarrow> string" where
  "render_item kv = fst kv @ [CHR ''=''] @ snd kv @ [NL]"

definition item_ok :: "string \<times> string \<Rightarrow> bool" where
  "item_ok kv \<longleftrightarrow> trimmed (fst kv) \<and> trimmed (snd kv) \<and> length (fst kv) \<le> 50 \<and>
     length (fst kv) + length (snd kv) \<le> 497 \<and> CHR ''='' \<notin> set (fst kv) \<and>
     {NUL, NL} \<inter> (set (fst kv) \<union> set (snd kv)) = {}"

lemma stripped_newline: "trimmed v \<Longrightarrow> stripped (v @ [NL]) = v"
proof (cases "v = []")
  case True
  then show ?thesis by (simp add: stripped_def lstripped_def rstripped_def blank_def skipCharacter_def)
next
  case False
  assume v: "trimmed v"
  then have "lstripped (v @ [NL]) = v @ [NL]"
    using False by (cases v) (auto simp: trimmed_def lstripped_def)
  moreover have "rstripped (v @ [NL]) = rstripped v"
    by (simp add: rstripped_def blank_def skipCharacter_def)
  moreover have "rstripped v = v"
    using v False by (cases v rule: rev_cases) (auto simp: trimmed_def rstripped_def)
  ultimately show ?thesis by (simp add: stripped_def)
qed

lemma render_line:
  assumes "item_ok kv"
  shows "take_line 499 (render_item kv @ rest) = (render_item kv, rest, False)"
    "line_items (render_item kv) = [kv]"
proof -
  obtain k v where kv: "kv = (k, v)" by fastforce
  have "take_line 499 ((k @ CHR ''='' # v) @ NL # rest) = ((k @ CHR ''='' # v) @ [NL], rest, False)"
    using assms by (intro take_line_exact) (auto simp: item_ok_def kv)
  then show "take_line 499 (render_item kv @ rest) = (render_item kv, rest, False)"
    by (simp add: render_item_def kv)
  have "takeWhile (\<lambda>c. c \<noteq> CHR ''='') (k @ CHR ''='' # v @ [NL]) = k"
    "dropWhile (\<lambda>c. c \<noteq> CHR ''='') (k @ CHR ''='' # v @ [NL]) = CHR ''='' # v @ [NL]"
    using assms by (subst takeWhile_append2 dropWhile_append2; fastforce simp: item_ok_def kv)+
  then show "line_items (render_item kv) = [kv]"
    using assms stripped_newline [of v] stripped_trimmed_id [of k]
    by (simp add: line_items_def render_item_def kv item_ok_def)
qed

lemma conf_items_render:
  "\<forall>kv \<in> set kvs. item_ok kv \<Longrightarrow> conf_items (concat (map render_item kvs)) = kvs"
proof (induction kvs)
  case Nil
  then show ?case by simp
next
  case (Cons kv kvs)
  have "conf_items (render_item kv @ concat (map render_item kvs)) =
      line_items (render_item kv) @ conf_items (concat (map render_item kvs))"
    using render_line(1) Cons.prems
    by (intro conf_items_step [where e = False]) (simp_all add: render_item_def)
  then show ?case
    using Cons render_line(2) by simp
qed

lemma render_no_NUL: "\<forall>kv \<in> set kvs. item_ok kv \<Longrightarrow> NUL \<notin> set (concat (map render_item kvs))"
  by (induction kvs) (auto simp: render_item_def item_ok_def)

lemma keys_fit_render:
  "\<forall>kv \<in> set kvs. item_ok kv \<Longrightarrow> keys_fit (concat (map render_item kvs))"
proof (induction kvs)
  case Nil
  then show ?case by (simp add: keys_fit_def text_lines.simps)
next
  case (Cons kv kvs)
  have "takeWhile (\<lambda>c. c \<noteq> CHR ''='') (render_item kv) = fst kv"
    using Cons.prems unfolding render_item_def
    by (subst takeWhile_append2) (auto simp: item_ok_def)
  moreover have "length (fst kv) \<le> 50"
    using Cons.prems by (simp add: item_ok_def)
  moreover have "keys_fit (render_item kv @ concat (map render_item kvs)) \<longleftrightarrow>
     (CHR ''='' \<in> set (render_item kv) \<longrightarrow> length (takeWhile (\<lambda>c. c \<noteq> CHR ''='') (render_item kv)) \<le> 50) \<and>
     keys_fit (concat (map render_item kvs))"
    using render_line(1) Cons.prems
    by (intro keys_fit_step [where e = False]) (simp_all add: render_item_def)
  ultimately show ?case
    using Cons by simp
qed

section \<open>Lookup\<close>

definition lookup :: "(string \<times> string) list \<Rightarrow> string \<Rightarrow> string option" where
  "lookup kvs name =
     map_option snd (List.find (\<lambda>kv. map to_lower (fst kv) = map to_lower name) kvs)"

lemma getString_lookup: "getString items name = lookup (map item_view items) (c_str name)"
  by (induction items) (auto simp: lookup_def strcaseeq_def item_view_def)

lemma atoi_c_str: "NUL \<notin> set t \<Longrightarrow> c_str s = t \<Longrightarrow> atoi s = atoi t"
proof -
  assume "NUL \<notin> set t" "c_str s = t"
  moreover from this have "c_str t = t"
    by (auto simp: c_str_def takeWhile_eq_all_conv)
  ultimately show ?thesis by (simp add: atoi_def)
qed

lemma getIntDefault_lookup:
  "getIntDefault items name v =
     (case lookup (map item_view items) (c_str name) of None \<Rightarrow> v | Some t \<Rightarrow> atoi t)"
proof (induction items)
  case Nil
  then show ?case by (simp add: lookup_def)
next
  case (Cons it items)
  have "atoi (ItemContent it) = atoi (c_str (ItemContent it))"
    by (rule atoi_c_str [OF c_str_no_NUL refl])
  then show ?case
    using Cons by (auto simp: lookup_def strcaseeq_def item_view_def)
qed

section \<open>Numbers\<close>

lemma of_char_char_of_small: "n < 256 \<Longrightarrow> (of_char (char_of n) :: nat) = n"
  by simp

lemma digits_val_append: "digits_val (ds @ [d]) = 10 * digits_val ds + (int (of_char d) - 48)"
  by (simp add: digits_val_def)

lemma dec_of_nat_digits: "digits_val (dec_of_nat n) = int n \<and> (\<forall>d \<in> set (dec_of_nat n). isdigit d) \<and> dec_of_nat n \<noteq> []"
proof (induction n rule: dec_of_nat.induct)
  case (1 n)
  have d: "(of_char (char_of (48 + m) :: char) :: nat) = 48 + m" if "m < 10" for m :: nat
    using that by (intro of_char_char_of_small) simp
  show ?case
  proof (cases "n < 10")
    case True
    then show ?thesis
      using d [of n] by (subst (1 2 3) dec_of_nat.simps) (simp add: digits_val_def isdigit_def)
  next
    case False
    have m: "n mod 10 < 10" by simp
    from False have "dec_of_nat n = dec_of_nat (n div 10) @ [char_of (48 + n mod 10)]"
      by (subst dec_of_nat.simps) simp
    moreover have "10 * int (n div 10) + int (n mod 10) = int n"
      using div_mult_mod_eq [of n 10] by linarith
    moreover have "n mod 10 \<le> 9" using m by linarith
    ultimately show ?thesis
      using 1 False d [OF m] by (simp add: digits_val_append isdigit_def)
  qed
qed

lemma digit_not_space: "isdigit d \<Longrightarrow> \<not> isspace d \<and> d \<noteq> CHR ''-'' \<and> d \<noteq> CHR ''+'' \<and> d \<noteq> NUL"
  by (auto simp: isdigit_def isspace_def)

lemma c_str_id: "NUL \<notin> set t \<Longrightarrow> c_str t = t"
  by (auto simp: c_str_def takeWhile_eq_all_conv)

lemma atoi_digits:
  assumes "\<forall>d \<in> set ds. isdigit d" "ds \<noteq> []"
  shows "atoi ds = sint (of_int (min (2 ^ 63 - 1) (digits_val ds)) :: u32)"
    "atoi (CHR ''-'' # ds) = sint (of_int (max (- (2 ^ 63)) (- digits_val ds)) :: u32)"
proof -
  have n: "NUL \<notin> set ds" using assms(1) digit_not_space by blast
  obtain d r where ds: "ds = d # r" using assms(2) by (cases ds) auto
  then have d: "\<not> isspace d" "d \<noteq> CHR ''-''" "d \<noteq> CHR ''+''"
    using assms(1) digit_not_space by auto
  have tw: "takeWhile isdigit ds = ds" using assms(1) by (simp add: takeWhile_eq_all_conv)
  show "atoi ds = sint (of_int (min (2 ^ 63 - 1) (digits_val ds)) :: u32)"
    using c_str_id [OF n] tw d ds by (simp add: atoi_def Let_def)
  have "c_str (CHR ''-'' # ds) = CHR ''-'' # ds" using n by (intro c_str_id) simp
  moreover have "\<not> isspace (CHR ''-'')" by (simp add: isspace_def)
  ultimately show "atoi (CHR ''-'' # ds) = sint (of_int (max (- (2 ^ 63)) (- digits_val ds)) :: u32)"
    by (simp add: atoi_def Let_def tw del: takeWhile_eq_all_conv)
qed

lemma sint_u32_of_int: "- (2 ^ 31) \<le> n \<Longrightarrow> n < 2 ^ 31 \<Longrightarrow> sint (of_int n :: u32) = n"
  by (simp add: signed_of_int signed_take_bit_int_eq_self)

lemma atoi_dec_of_int:
  assumes "- (2 ^ 31) \<le> n" "n < 2 ^ 31"
  shows "atoi (dec_of_int n) = n"
proof (cases "n < 0")
  case True
  then show ?thesis
    using assms dec_of_nat_digits [of "nat (- n)"] atoi_digits(2) [of "dec_of_nat (nat (- n))"]
      sint_u32_of_int [OF assms]
    by (simp add: dec_of_int_def max_absorb2)
next
  case False
  then show ?thesis
    using assms dec_of_nat_digits [of "nat n"] atoi_digits(1) [of "dec_of_nat (nat n)"]
      sint_u32_of_int [OF assms]
    by (simp add: dec_of_int_def min_absorb2)
qed

end
