(* ===== verification/Socket_Listen.thy ===== *)
theory Socket_Listen
  imports Socket_Worker Conf_Spec
begin

text \<open>
  The life of the \<open>CSocket\<close> object outside the event loop (\<open>net/xfly_socket.cpp\<close>): constructor
  and destructor, reading the configuration, opening and closing the listening sockets; and
  \<open>sock_ntop\<close> (\<open>net/xfly_socket_inet.cpp\<close>), which only ends the process. The counters the
  constructor leaves uninitialised are parameters. Ports are given to \<open>sys_bind\<close> in host order.
\<close>

section \<open>Construction and configuration\<close>

definition CSocket_new :: "int \<Rightarrow> int \<Rightarrow> 'k \<Rightarrow> 'k csocket" where
  "CSocket_new cn fn k =
     \<lparr>heap = Map.empty, next_addr = 0, m_worker_connections = 1, m_listenPortCount = 1,
      m_epollhandle = -1, m_pconnections = 0, pool = [], m_pfree_connections = None,
      m_connection_n = cn, m_free_connection_n = fn, m_listenSocketList = [],
      m_iLenPkgHeader = sizeof_COMM_PKG_HEADER, m_iLenMsgHeader = sizeof_STRUC_MSG_HEADER,
      m_MsgRecvQueue = [], use_accept4 = True, kern = k, logs = []\<rparr>"

definition CSocket_destroy :: "'k csocket \<Rightarrow> 'k csocket res" where
  "CSocket_destroy s =
     (let s1 = s\<lparr>m_listenSocketList := []\<rparr>;
          s2 = (if m_pconnections s1 \<noteq> 0 then s1\<lparr>pool := []\<rparr> else s1)
      in clearMsgRecvQueue s2)"

definition readConf :: "ConfigItem list \<Rightarrow> 'k csocket \<Rightarrow> 'k csocket" where
  "readConf conf s =
     (let s1 = s\<lparr>m_listenPortCount :=
                   getIntDefault conf ''ListenPortCount'' (m_listenPortCount s)\<rparr>
      in s1\<lparr>m_worker_connections :=
                   getIntDefault conf ''worker_connections'' (m_worker_connections s1)\<rparr>)"

section \<open>Listening sockets\<close>

text \<open>The body of the loop: one listening socket; whether to go on.\<close>

definition open_listening_socket ::
  "'k os \<Rightarrow> ConfigItem list \<Rightarrow> nat \<Rightarrow> 'k csocket \<Rightarrow> bool \<times> 'k csocket" where
  "open_listening_socket os conf i s =
     (let (isock, k) = sys_socket os (kern s); s = s\<lparr>kern := k\<rparr>
      in if isock = -1 then (False, put_log L_ERR Create_socket_error s)
      else let (r, k) = sys_setsockopt_reuseaddr os isock (kern s); s = s\<lparr>kern := k\<rparr>
      in if r = -1 then (False, put_log L_ERR Setsockopt_error s)
      else let (ok, s) = setnonblocking os isock s
      in if \<not> ok then
           (let s = put_log L_ERR Setnonblocking_error s; (r, k) = sys_close os isock (kern s)
            in (False, s\<lparr>kern := k\<rparr>))
      else let iport = getIntDefault conf (''ListenPort'' @ dec_of_nat i) 10000;
               (r, k) = sys_bind os isock (of_int iport) (kern s); s = s\<lparr>kern := k\<rparr>
      in if r = -1 then
           (let s = put_log L_ERR Bind_error s; (r, k) = sys_close os isock (kern s)
            in (False, s\<lparr>kern := k\<rparr>))
      else let (r, k) = sys_listen os isock XFLY_LISTEN_BACKLOG (kern s); s = s\<lparr>kern := k\<rparr>
      in if r = -1 then
           (let s = put_log L_ERR Listen_failed s; (r, k) = sys_close os isock (kern s)
            in (False, s\<lparr>kern := k\<rparr>))
      else let item = \<lparr>l_port = iport, l_fd = isock, l_connection = None\<rparr>;
               s = put_log L_INF (Listening_on iport) s
           in (True, s\<lparr>m_listenSocketList := m_listenSocketList s @ [item]\<rparr>))"

primrec open_ports :: "'k os \<Rightarrow> ConfigItem list \<Rightarrow> nat list \<Rightarrow> 'k csocket \<Rightarrow> bool \<times> 'k csocket" where
  "open_ports os conf [] s = (True, put_poll True s)"
| "open_ports os conf (i # is) s =
     (let (ok, s1) = open_listening_socket os conf i s
      in if ok then open_ports os conf is s1 else (False, s1))"

text \<open>\<open>std::views::iota(0, n)\<close> has no meaning for a negative \<open>n\<close>.\<close>

definition open_listening_sockets ::
  "'k os \<Rightarrow> ConfigItem list \<Rightarrow> 'k csocket \<Rightarrow> (bool \<times> 'k csocket) res" where
  "open_listening_sockets os conf s =
     (if m_listenPortCount s < 0 then Inl (Fault Bad_range)
      else Inr (open_ports os conf [0..<nat (m_listenPortCount s)] s))"

primrec close_ports :: "'k os \<Rightarrow> nat list \<Rightarrow> 'k csocket \<Rightarrow> 'k csocket res" where
  "close_ports os [] s = Inr (put_poll True s)"
| "close_ports os (i # is) s =
     (if i < length (m_listenSocketList s)
      then let l = m_listenSocketList s ! i; (r, k) = sys_close os (l_fd l) (kern s)
           in close_ports os is (put_log L_INF (Closed_port (l_port l)) (s\<lparr>kern := k\<rparr>))
      else Inl (Fault Out_of_bounds))"

definition close_listening_sockets :: "'k os \<Rightarrow> 'k csocket \<Rightarrow> 'k csocket res" where
  "close_listening_sockets os s =
     (if m_listenPortCount s < 0 then Inl (Fault Bad_range)
      else close_ports os [0..<nat (m_listenPortCount s)] s)"

definition Initialize :: "'k os \<Rightarrow> ConfigItem list \<Rightarrow> 'k csocket \<Rightarrow> (bool \<times> 'k csocket) res" where
  "Initialize os conf s = open_listening_sockets os conf (readConf conf s)"

definition sock_ntop :: "byte list \<Rightarrow> int \<Rightarrow> byte list \<Rightarrow> nat \<Rightarrow> 'k csocket \<Rightarrow> (nat \<times> 'k csocket) res" where
  "sock_ntop sa port text_buf len s = Inl (Exit 2)"

section \<open>What opening establishes\<close>

definition conf_port :: "ConfigItem list \<Rightarrow> nat \<Rightarrow> int" where
  "conf_port conf i = getIntDefault conf (''ListenPort'' @ dec_of_nat i) 10000"

text \<open>Opening changes only the kernel, the log and the list of listening sockets.\<close>

definition same_but_listen :: "'k csocket \<Rightarrow> 'k csocket \<Rightarrow> bool" where
  "same_but_listen s s' \<longleftrightarrow>
     (\<exists>k l ls. s' = s\<lparr>kern := k, logs := l, m_listenSocketList := ls\<rparr>)"

lemma same_but_listenI:
  "s' = s\<lparr>kern := kern s', logs := logs s', m_listenSocketList := m_listenSocketList s'\<rparr>
   \<Longrightarrow> same_but_listen s s'"
  unfolding same_but_listen_def by blast

lemma same_but_listen_trans: "same_but_listen s t \<Longrightarrow> same_but_listen t u \<Longrightarrow> same_but_listen s u"
proof -
  assume "same_but_listen s t" "same_but_listen t u"
  then obtain k l ls k' l' ls' where "t = s\<lparr>kern := k, logs := l, m_listenSocketList := ls\<rparr>"
    "u = t\<lparr>kern := k', logs := l', m_listenSocketList := ls'\<rparr>"
    unfolding same_but_listen_def by blast
  then have "u = s\<lparr>kern := k', logs := l', m_listenSocketList := ls'\<rparr>" by simp
  then show ?thesis unfolding same_but_listen_def by blast
qed

lemma open_listening_socket_frame:
  "open_listening_socket os conf i s = (ok, s') \<Longrightarrow> same_but_listen s s'"
  by (rule same_but_listenI)
     (auto simp: open_listening_socket_def setnonblocking_def put_log_def Let_def
       split: prod.splits if_splits)

lemma open_listening_socket_True:
  assumes "open_listening_socket os conf i s = (True, s')"
  shows "\<exists>fd. fd \<noteq> -1 \<and> m_listenSocketList s' = m_listenSocketList s @
           [\<lparr>l_port = conf_port conf i, l_fd = fd, l_connection = None\<rparr>]"
  using assms
  by (auto simp: open_listening_socket_def setnonblocking_def conf_port_def put_log_def Let_def
      split: prod.splits if_splits)

lemma open_listening_socket_False:
  assumes "open_listening_socket os conf i s = (False, s')"
  shows "m_listenSocketList s' = m_listenSocketList s"
  using assms
  by (auto simp: open_listening_socket_def setnonblocking_def put_log_def Let_def
      split: prod.splits if_splits)

lemma open_ports_frame: "open_ports os conf is s = (ok, s') \<Longrightarrow> same_but_listen s s'"
proof (induction "is" arbitrary: s)
  case Nil
  then show ?case
    by (intro same_but_listenI) (auto simp: put_poll_def)
next
  case (Cons i "is")
  then show ?case
    using open_listening_socket_frame same_but_listen_trans
    by (fastforce split: prod.splits if_splits)
qed

lemma open_ports_list:
  assumes "open_ports os conf is s = (ok, s')"
  shows "\<exists>new n. m_listenSocketList s' = m_listenSocketList s @ new \<and> n \<le> length is \<and>
     (ok \<longrightarrow> n = length is) \<and>
     map l_port new = map (conf_port conf) (take n is) \<and>
     (\<forall>l \<in> set new. l_fd l \<noteq> -1 \<and> l_connection l = None)"
  using assms
proof (induction "is" arbitrary: s)
  case Nil
  then show ?case by (auto simp: put_poll_def)
next
  case (Cons i "is")
  obtain b s1 where step: "open_listening_socket os conf i s = (b, s1)" by fastforce
  show ?case
  proof (cases b)
    case True
    then obtain fd where fd: "fd \<noteq> -1" "m_listenSocketList s1 = m_listenSocketList s @
           [\<lparr>l_port = conf_port conf i, l_fd = fd, l_connection = None\<rparr>]"
      using open_listening_socket_True [of os conf i s s1] step by auto
    have "open_ports os conf is s1 = (ok, s')" using Cons.prems step True by simp
    from Cons.IH [OF this] obtain new n where new:
      "m_listenSocketList s' = m_listenSocketList s1 @ new" "n \<le> length is" "ok \<longrightarrow> n = length is"
      "map l_port new = map (conf_port conf) (take n is)"
      "\<forall>l \<in> set new. l_fd l \<noteq> -1 \<and> l_connection l = None" by blast
    let ?new = "\<lparr>l_port = conf_port conf i, l_fd = fd, l_connection = None\<rparr> # new"
    have "m_listenSocketList s' = m_listenSocketList s @ ?new" using new(1) fd(2) by simp
    moreover have "map l_port ?new = map (conf_port conf) (take (Suc n) (i # is))" using new(4) by simp
    ultimately show ?thesis
      using new(2,3,5) fd(1)
      by (intro exI [of _ ?new] exI [of _ "Suc n"]) (auto simp del: take_Suc_Cons)
  next
    case False
    then have "s' = s1" "\<not> ok" using Cons.prems step by simp_all
    then show ?thesis
      using open_listening_socket_False [of os conf i s s1] step False
      by (intro exI [of _ "[]"] exI [of _ 0]) auto
  qed
qed

lemma same_but_listen_ready:
  "same_but_listen s s' \<Longrightarrow> heap s' = heap s \<and> m_MsgRecvQueue s' = m_MsgRecvQueue s \<and>
     m_iLenPkgHeader s' = m_iLenPkgHeader s \<and> m_iLenMsgHeader s' = m_iLenMsgHeader s \<and>
     m_worker_connections s' = m_worker_connections s \<and> m_listenPortCount s' = m_listenPortCount s"
  by (auto simp: same_but_listen_def)

text \<open>
  A successful \<open>Initialize\<close> of a new object listens on exactly the configured ports, in order,
  and leaves the object ready for \<open>epoll_init\<close>.
\<close>

lemma Initialize_ready:
  assumes "Initialize os conf (CSocket_new cn fn k) = Inr (True, s)"
  shows "socket_ready s \<and>
     m_listenPortCount s = getIntDefault conf ''ListenPortCount'' 1 \<and> 0 \<le> m_listenPortCount s \<and>
     m_worker_connections s = getIntDefault conf ''worker_connections'' 1 \<and>
     map l_port (m_listenSocketList s) = map (conf_port conf) [0..<nat (m_listenPortCount s)]"
proof -
  let ?s0 = "readConf conf (CSocket_new cn fn k)"
  let ?n = "nat (m_listenPortCount ?s0)"
  have open1: "open_ports os conf [0..<?n] ?s0 = (True, s)" and pos: "0 \<le> m_listenPortCount ?s0"
    using assms by (auto simp: Initialize_def open_listening_sockets_def split: if_splits)
  obtain new where new: "m_listenSocketList s = new" "map l_port new = map (conf_port conf) [0..<?n]"
    "\<forall>l \<in> set new. l_fd l \<noteq> -1"
    using open_ports_list [OF open1] by (auto simp: readConf_def CSocket_new_def)
  note fr = same_but_listen_ready [OF open_ports_frame [OF open1]]
  have s0: "heap ?s0 = Map.empty" "m_MsgRecvQueue ?s0 = []"
    "m_iLenPkgHeader ?s0 = sizeof_COMM_PKG_HEADER" "m_iLenMsgHeader ?s0 = sizeof_STRUC_MSG_HEADER"
    "m_listenPortCount ?s0 = getIntDefault conf ''ListenPortCount'' 1"
    "m_worker_connections ?s0 = getIntDefault conf ''worker_connections'' 1"
    by (simp_all add: readConf_def CSocket_new_def)
  show ?thesis
    using new fr s0 pos by (simp add: socket_ready_def)
qed

section \<open>What the kernel listens on\<close>

text \<open>
  What the socket calls promise. \<open>bound\<close> gives the port of a descriptor that was bound, \<open>listening\<close> the
  descriptors that accept connections: a new socket is neither, \<open>bind\<close> and \<open>listen\<close> that do not fail make
  it so, and the options change nothing of that.
\<close>

definition listen_law ::
  "'k os \<Rightarrow> ('k \<Rightarrow> int \<Rightarrow> u16 option) \<Rightarrow> ('k \<Rightarrow> int set) \<Rightarrow> bool" where
  "listen_law os bound listening \<longleftrightarrow>
     (\<forall>k fd k'. sys_socket os k = (fd, k') \<longrightarrow> fd \<noteq> -1 \<longrightarrow>
        bound k fd = None \<and> fd \<notin> listening k \<and> bound k' = bound k \<and> listening k' = listening k) \<and>
     (\<forall>fd k. bound (snd (sys_setsockopt_reuseaddr os fd k)) = bound k \<and>
        listening (snd (sys_setsockopt_reuseaddr os fd k)) = listening k) \<and>
     (\<forall>fd k. bound (snd (sys_ioctl_fionbio os fd k)) = bound k \<and>
        listening (snd (sys_ioctl_fionbio os fd k)) = listening k) \<and>
     (\<forall>fd port k r k'. sys_bind os fd port k = (r, k') \<longrightarrow> r \<noteq> -1 \<longrightarrow>
        bound k' = (bound k)(fd \<mapsto> port) \<and> listening k' = listening k) \<and>
     (\<forall>fd n k r k'. sys_listen os fd n k = (r, k') \<longrightarrow> r \<noteq> -1 \<longrightarrow>
        bound k' = bound k \<and> listening k' = insert fd (listening k))"

lemma listen_lawD:
  assumes "listen_law os bound listening"
  shows "sys_socket os k = (fd, k') \<Longrightarrow> fd \<noteq> -1 \<Longrightarrow> bound k fd = None \<and> fd \<notin> listening k \<and>
      bound k' = bound k \<and> listening k' = listening k"
    "sys_setsockopt_reuseaddr os fd k = (r, k') \<Longrightarrow> bound k' = bound k \<and> listening k' = listening k"
    "sys_ioctl_fionbio os fd k = (r, k') \<Longrightarrow> bound k' = bound k \<and> listening k' = listening k"
    "sys_bind os fd port k = (r, k') \<Longrightarrow> r \<noteq> -1 \<Longrightarrow>
      bound k' = (bound k)(fd \<mapsto> port) \<and> listening k' = listening k"
    "sys_listen os fd n k = (r, k') \<Longrightarrow> r \<noteq> -1 \<Longrightarrow>
      bound k' = bound k \<and> listening k' = insert fd (listening k)"
proof -
  note law = assms [unfolded listen_law_def]
  show "sys_socket os k = (fd, k') \<Longrightarrow> fd \<noteq> -1 \<Longrightarrow> bound k fd = None \<and> fd \<notin> listening k \<and>
      bound k' = bound k \<and> listening k' = listening k"
    using law [THEN conjunct1] by metis
  show "sys_setsockopt_reuseaddr os fd k = (r, k') \<Longrightarrow> bound k' = bound k \<and> listening k' = listening k"
    using law [THEN conjunct2, THEN conjunct1] by (metis snd_conv)
  show "sys_ioctl_fionbio os fd k = (r, k') \<Longrightarrow> bound k' = bound k \<and> listening k' = listening k"
    using law [THEN conjunct2, THEN conjunct2, THEN conjunct1] by (metis snd_conv)
  show "sys_bind os fd port k = (r, k') \<Longrightarrow> r \<noteq> -1 \<Longrightarrow>
      bound k' = (bound k)(fd \<mapsto> port) \<and> listening k' = listening k"
    using law [THEN conjunct2, THEN conjunct2, THEN conjunct2, THEN conjunct1] by metis
  show "sys_listen os fd n k = (r, k') \<Longrightarrow> r \<noteq> -1 \<Longrightarrow>
      bound k' = bound k \<and> listening k' = insert fd (listening k)"
    using law [THEN conjunct2, THEN conjunct2, THEN conjunct2, THEN conjunct2] by metis
qed

lemma open_listening_socket_listens:
  assumes law: "listen_law os bound listening" and run: "open_listening_socket os conf i s = (True, s')"
  shows "\<exists>fd. m_listenSocketList s' = m_listenSocketList s @
        [\<lparr>l_port = conf_port conf i, l_fd = fd, l_connection = None\<rparr>] \<and>
      bound (kern s) fd = None \<and> fd \<notin> listening (kern s) \<and>
      bound (kern s') = (bound (kern s))(fd \<mapsto> of_int (conf_port conf i)) \<and>
      listening (kern s') = insert fd (listening (kern s))"
proof -
  obtain fd k1 where k1: "sys_socket os (kern s) = (fd, k1)" by fastforce
  obtain r2 k2 where k2: "sys_setsockopt_reuseaddr os fd k1 = (r2, k2)" by fastforce
  obtain r3 k3 where k3: "sys_ioctl_fionbio os fd k2 = (r3, k3)" by fastforce
  obtain r4 k4 where k4: "sys_bind os fd (of_int (conf_port conf i)) k3 = (r4, k4)" by fastforce
  obtain r5 k5 where k5: "sys_listen os fd XFLY_LISTEN_BACKLOG k4 = (r5, k5)" by fastforce
  have ok: "fd \<noteq> -1" "r4 \<noteq> -1" "r5 \<noteq> -1" "kern s' = k5" "m_listenSocketList s' = m_listenSocketList s @
        [\<lparr>l_port = conf_port conf i, l_fd = fd, l_connection = None\<rparr>]"
    using run k1 k2 k3 k4 k5
    by (auto simp: open_listening_socket_def setnonblocking_def conf_port_def put_log_def Let_def
        split: prod.splits if_splits)
  show ?thesis
    using listen_lawD(1) [OF law k1 ok(1)] listen_lawD(2) [OF law k2] listen_lawD(3) [OF law k3]
      listen_lawD(4) [OF law k4 ok(2)] listen_lawD(5) [OF law k5 ok(3)] ok(4,5)
    by (intro exI [of _ fd]) simp
qed

text \<open>The listening sockets \<open>ls\<close> were added: each is bound to its port and listens, and nothing else does.\<close>

definition listens_on ::
  "('k \<Rightarrow> int \<Rightarrow> u16 option) \<Rightarrow> ('k \<Rightarrow> int set) \<Rightarrow> 'k \<Rightarrow> listening list \<Rightarrow> u16 list \<Rightarrow> 'k \<Rightarrow> bool" where
  "listens_on bound listening k ls ports k' \<longleftrightarrow>
     distinct (map l_fd ls) \<and> map (bound k' \<circ> l_fd) ls = map Some ports \<and>
     (\<forall>l \<in> set ls. bound k (l_fd l) = None \<and> l_fd l \<notin> listening k) \<and>
     (\<forall>fd. fd \<notin> l_fd ` set ls \<longrightarrow> bound k' fd = bound k fd) \<and>
     listening k' = listening k \<union> l_fd ` set ls"

lemma open_ports_listens:
  assumes law: "listen_law os bound listening" and run: "open_ports os conf is s = (True, s')"
  shows "\<exists>new. m_listenSocketList s' = m_listenSocketList s @ new \<and>
    listens_on bound listening (kern s) new (map (\<lambda>i. of_int (conf_port conf i)) is) (kern s')"
  using run
proof (induction "is" arbitrary: s)
  case Nil
  then show ?case by (auto simp: put_poll_def listens_on_def)
next
  case (Cons i "is")
  obtain s1 where s1: "open_listening_socket os conf i s = (True, s1)" "open_ports os conf is s1 = (True, s')"
    using Cons.prems by (auto split: prod.splits if_splits)
  obtain fd where fd: "m_listenSocketList s1 = m_listenSocketList s @
        [\<lparr>l_port = conf_port conf i, l_fd = fd, l_connection = None\<rparr>]"
      "bound (kern s) fd = None" "fd \<notin> listening (kern s)"
      "bound (kern s1) = (bound (kern s))(fd \<mapsto> of_int (conf_port conf i))"
      "listening (kern s1) = insert fd (listening (kern s))"
    using open_listening_socket_listens [OF law s1(1)] by blast
  obtain new where new: "m_listenSocketList s' = m_listenSocketList s1 @ new"
    "listens_on bound listening (kern s1) new (map (\<lambda>i. of_int (conf_port conf i)) is) (kern s')"
    using Cons.IH [OF s1(2)] by blast
  have other: "fd \<notin> l_fd ` set new"
    using new(2) fd(5) by (auto simp: listens_on_def)
  then have "listens_on bound listening (kern s)
      (\<lparr>l_port = conf_port conf i, l_fd = fd, l_connection = None\<rparr> # new)
      (map (\<lambda>i. of_int (conf_port conf i)) (i # is)) (kern s')"
    using new(2) fd(2-5) by (auto simp: listens_on_def split: if_splits)
  then show ?case
    using fd(1) new(1) by simp
qed

lemma Initialize_listens:
  assumes law: "listen_law os bound listening" and run: "Initialize os conf (CSocket_new cn fn k) = Inr (True, s)"
  shows "listens_on bound listening k (m_listenSocketList s)
    (map (\<lambda>i. of_int (conf_port conf i)) [0..<nat (m_listenPortCount s)]) (kern s)"
proof -
  let ?s0 = "readConf conf (CSocket_new cn fn k)"
  have run: "open_ports os conf [0..<nat (m_listenPortCount ?s0)] ?s0 = (True, s)"
    using run by (auto simp: Initialize_def open_listening_sockets_def split: if_splits)
  moreover have "kern ?s0 = k" "m_listenSocketList ?s0 = []"
    by (simp_all add: readConf_def CSocket_new_def)
  ultimately show ?thesis
    using open_ports_listens [OF law run] same_but_listen_ready [OF open_ports_frame [OF run]] by auto
qed

section \<open>Ports\<close>

text \<open>The port \<open>bind\<close> is given: the configured number cut to 16 bits.\<close>

lemma bound_port_exact: "0 \<le> p \<Longrightarrow> p < 65536 \<Longrightarrow> uint (of_int p :: u16) = p"
  by (simp add: unsigned_of_int take_bit_int_eq_self)

lemma open_listening_socket_ok:
  assumes "sys_socket os (kern s) = (fd, k1)" "fd \<noteq> -1"
    and "sys_setsockopt_reuseaddr os fd k1 = (r1, k2)" "r1 \<noteq> -1"
    and "sys_ioctl_fionbio os fd k2 = (r2, k3)" "r2 \<noteq> 1"
    and "sys_bind os fd (of_int (conf_port conf i)) k3 = (r3, k4)" "r3 \<noteq> -1"
    and "sys_listen os fd XFLY_LISTEN_BACKLOG k4 = (r4, k5)" "r4 \<noteq> -1"
  shows "open_listening_socket os conf i s =
    (True, s\<lparr>kern := k5, logs := logs s @ [Log L_INF (Listening_on (conf_port conf i))],
       m_listenSocketList := m_listenSocketList s @
         [\<lparr>l_port = conf_port conf i, l_fd = fd, l_connection = None\<rparr>]\<rparr>)"
  using assms
  by (simp add: open_listening_socket_def setnonblocking_def conf_port_def put_log_def Let_def)

text \<open>A failing \<open>setsockopt\<close> ends the loop without closing the new descriptor.\<close>

lemma open_listening_socket_setsockopt_error:
  assumes "sys_socket os (kern s) = (fd, k1)" "fd \<noteq> -1"
    and "sys_setsockopt_reuseaddr os fd k1 = (-1, k2)"
  shows "open_listening_socket os conf i s = (False, put_log L_ERR Setsockopt_error (s\<lparr>kern := k2\<rparr>))"
  using assms by (simp add: open_listening_socket_def Let_def)

section \<open>Destruction\<close>

lemma clearMsgRecvQueue_eq:
  assumes "m_MsgRecvQueue s = map Some qs" "distinct qs" "set qs \<subseteq> dom (heap s)"
  shows "clearMsgRecvQueue s = Inr (s\<lparr>m_MsgRecvQueue := [], heap := heap s |` (- set qs)\<rparr>)"
  using assms
proof (induction qs arbitrary: s)
  case Nil
  then show ?case by (simp add: clearMsgRecvQueue.simps restrict_map_def)
next
  case (Cons q qs)
  let ?s1 = "s\<lparr>m_MsgRecvQueue := map Some qs, heap := (heap s)(q := None)\<rparr>"
  have "FreeMemory (Some q) (s\<lparr>m_MsgRecvQueue := map Some qs\<rparr>) = Inr ?s1"
    using Cons.prems by (subst FreeMemory_live) auto
  moreover have "clearMsgRecvQueue ?s1 = Inr (?s1\<lparr>m_MsgRecvQueue := [], heap := heap ?s1 |` (- set qs)\<rparr>)"
    using Cons.prems by (intro Cons.IH) auto
  moreover have "(heap s)(q := None) |` (- set qs) = heap s |` (- set (q # qs))"
    by (auto simp: restrict_map_def fun_eq_iff)
  ultimately show ?case
    using Cons.prems by (subst clearMsgRecvQueue.simps) simp
qed

text \<open>
  The destructor frees every queued message; what stays allocated are the blocks of connections
  that were in the middle of a package.
\<close>

lemma CSocket_destroy_leak:
  assumes "sock_inv fl qs s"
  shows "\<exists>s'. CSocket_destroy s = Inr s' \<and> m_MsgRecvQueue s' = [] \<and> m_listenSocketList s' = [] \<and>
           dom (heap s') = ran (buf_of fl s)"
proof -
  have q: "m_MsgRecvQueue s = map Some qs" and ow: "owns (heap s) qs (buf_of fl s)"
    using assms by (simp_all add: sock_inv_def own_inv_def)
  let ?t = "if m_pconnections s \<noteq> 0 then s\<lparr>m_listenSocketList := [], pool := []\<rparr>
            else s\<lparr>m_listenSocketList := []\<rparr>"
  have "clearMsgRecvQueue ?t = Inr (?t\<lparr>m_MsgRecvQueue := [], heap := heap ?t |` (- set qs)\<rparr>)"
    using q ow by (intro clearMsgRecvQueue_eq) (auto simp: owns_def)
  then have "CSocket_destroy s = Inr (?t\<lparr>m_MsgRecvQueue := [], heap := heap s |` (- set qs)\<rparr>)"
    by (simp add: CSocket_destroy_def Let_def split: if_splits)
  moreover have "dom (heap s |` (- set qs)) = ran (buf_of fl s)"
    using ow by (auto simp: owns_def)
  ultimately show ?thesis by auto
qed

end
