(* ===== verification/Worker_Events.thy ===== *)
theory Worker_Events
  imports Socket_Worker
begin

text \<open>
  What individual events do: accepting a client, refusing one when the pool is empty, falling
  back from \<open>accept4\<close>, and the fate of events that were queued for a connection which has since
  been closed or handed to another client.
\<close>

section \<open>Accepting\<close>

lemma event_accept_accept4:
  assumes "oldc < length (pool s)" "use_accept4 s"
    and "sys_accept4 os (c_fd (pool s ! oldc)) (kern s) = (Accepted sock addr, k)"
  shows "event_accept os oldc s = accept_connection os oldc sock addr (s\<lparr>kern := k\<rparr>)"
  using assms by (subst event_accept.simps) simp

lemma accept_connection_success:
  assumes wf: "pool_wf (i # fl) s" and use: "use_accept4 s" and old: "oldc < length (pool s)" "oldc \<noteq> i"
    and addr: "length addr = 16"
    and ctl: "sys_epoll_ctl os (m_epollhandle s) EPOLL_CTL_ADD sock
        \<lparr>ev_events = EPOLLIN OR EPOLLRDHUP,
         ev_data = tag_ptr (conn_addr (m_pconnections s) i) (\<not> c_instance (pool s ! i))\<rparr> (kern s) = (r, k)"
      "r \<noteq> -1"
  shows "accept_connection os oldc sock addr s =
    Inr (s\<lparr>kern := k, m_pfree_connections := c_data (pool s ! i),
           m_free_connection_n := int (length fl),
           pool := (pool s)[i := (fresh_connection i sock (pool s ! i))
             \<lparr>c_sockaddr := addr, c_listening := c_listening (pool s ! oldc), w_ready := 1,
              rhandler := Some Wait_request_handler\<rparr>]\<rparr>)"
proof -
  have i: "i < length (pool s)" using wf by (simp add: pool_wf_def)
  let ?c = "fresh_connection i sock (pool s ! i)"
  let ?s1 = "s\<lparr>m_pfree_connections := c_data (pool s ! i), m_free_connection_n := int (length fl),
               pool := (pool s)[i := ?c]\<rparr>"
  have ow: "overwrite 0 addr (c_sockaddr ?c) = addr"
    using addr by (intro overwrite_all) (simp add: fresh_connection_def zero_connection_def)
  let ?s4 = "s\<lparr>m_pfree_connections := c_data (pool s ! i), m_free_connection_n := int (length fl),
               pool := (pool s)[i := ?c\<lparr>c_sockaddr := addr, c_listening := c_listening (pool s ! oldc),
                 w_ready := 1, rhandler := Some Wait_request_handler\<rparr>]\<rparr>"
  have add: "epoll_add_event os sock 1 0 0 EPOLL_CTL_ADD i ?s4 = Inr (1, ?s4\<lparr>kern := k\<rparr>)"
    using i ctl by (simp add: epoll_add_event_def fresh_connection_def)
  show ?thesis
    using get_connection_Cons [OF wf, of sock] i use old addr add ow ctl(2)
    by (simp add: accept_connection_def upd_conn_def)
qed

lemma accept_connection_full:
  assumes "pool_wf [] s" "sys_close os sock (kern s) = (r, k)" "r \<noteq> -1"
  shows "accept_connection os oldc sock addr s =
    Inr ((put_log L_ERR Get_connection_null s)\<lparr>kern := k\<rparr>)"
  using get_connection_empty [OF assms(1), of sock] assms(2,3) by (simp add: accept_connection_def)

lemma event_accept_fallback:
  assumes "oldc < length (pool s)" "use_accept4 s"
    and "sys_accept4 os (c_fd (pool s ! oldc)) (kern s) = (Accept_err ENOSYS, k)"
  shows "event_accept os oldc s = event_accept os oldc (s\<lparr>kern := k, use_accept4 := False\<rparr>)"
  using assms by (subst event_accept.simps) simp

text \<open>Once \<open>use_accept4\<close> is cleared, \<open>accept4\<close> is never called again.\<close>

lemma setnonblocking_use4: "use_accept4 (snd (setnonblocking os fd s)) = use_accept4 s"
  by (simp add: setnonblocking_def split_beta)

lemma epoll_add_event_cong:
  "epoll_add_event (os\<lparr>sys_accept4 := f\<rparr>) fd re we fl op c s = epoll_add_event os fd re we fl op c s"
  by (simp add: epoll_add_event_def)

lemma close_connection_cong: "close_connection (os\<lparr>sys_accept4 := f\<rparr>) i s = close_connection os i s"
  by (simp add: close_connection_def)

lemma setnonblocking_cong: "setnonblocking (os\<lparr>sys_accept4 := f\<rparr>) fd s = setnonblocking os fd s"
  by (simp add: setnonblocking_def)

lemma accept_connection_cong:
  "accept_connection (os\<lparr>sys_accept4 := f\<rparr>) oldc sock addr s = accept_connection os oldc sock addr s"
  by (simp add: accept_connection_def close_connection_cong setnonblocking_cong epoll_add_event_cong
      Let_def cong: option.case_cong if_cong)

lemma event_accept_no_accept4:
  assumes "\<not> use_accept4 s"
  shows "event_accept (os\<lparr>sys_accept4 := f\<rparr>) oldc s = event_accept os oldc s"
  using assms
  by (subst (1 2) event_accept.simps) (simp add: accept_connection_cong split_beta Let_def
       cong: accept_result.case_cong if_cong)

section \<open>Stale events\<close>

lemma process_event_closed:
  assumes "pool_placed (m_pconnections s) (length (pool s))" "i < length (pool s)"
    and "ev_data ev = tag_ptr (conn_addr (m_pconnections s) i) b" "c_fd (pool s ! i) = -1"
  shows "process_event os ev s = Inr s"
  using assms tag_roundtrip [OF assms(1,2), of b] by (simp add: process_event_def)

lemma process_event_other_instance:
  assumes "pool_placed (m_pconnections s) (length (pool s))" "i < length (pool s)"
    and "ev_data ev = tag_ptr (conn_addr (m_pconnections s) i) b" "c_instance (pool s ! i) \<noteq> b"
  shows "process_event os ev s = Inr s"
  using assms tag_roundtrip [OF assms(1,2), of b] by (simp add: process_event_def)

lemma process_event_readable:
  assumes "pool_placed (m_pconnections s) (length (pool s))" "i < length (pool s)"
    and "ev_data ev = tag_ptr (conn_addr (m_pconnections s) i) (c_instance (pool s ! i))"
    and "c_fd (pool s ! i) \<noteq> -1" "rhandler (pool s ! i) = Some h"
    and "ev_events ev AND (EPOLLIN OR EPOLLERR OR EPOLLHUP) \<noteq> 0"
  shows "process_event os ev s = call_handler os h i s"
proof -
  have "(if ev_events ev AND (EPOLLERR OR EPOLLHUP) \<noteq> 0 then ev_events ev OR (EPOLLIN OR EPOLLOUT)
         else ev_events ev) AND EPOLLIN \<noteq> 0"
  proof (cases "ev_events ev AND (EPOLLERR OR EPOLLHUP) = 0")
    case True
    then have "ev_events ev AND EPOLLIN \<noteq> 0"
      using assms(6) by (simp only: bit.conj_disj_distrib) auto
    then show ?thesis using True by simp
  next
    case False
    have "(ev_events ev OR (EPOLLIN OR EPOLLOUT)) AND EPOLLIN = EPOLLIN"
      by (rule bit_word_eqI) (auto simp: bit_simps bit_0)
    then show ?thesis using False by simp
  qed
  then show ?thesis
    using assms(1-5) tag_roundtrip [OF assms(1,2), of "c_instance (pool s ! i)"]
    by (simp add: process_event_def Let_def)
qed

text \<open>A connection closed and handed out again: what happens to its instance bit and sequence.\<close>

lemma close_then_get:
  assumes inv: "worker_inv_but X reg fl qs s" and X: "X \<subseteq> {i}" and i: "i \<in> used fl s"
    and os: "kernel_ok os reg" and fd: "fd \<noteq> -1"
  shows "\<exists>s1 s2. close_connection os i s = Inr s1 \<and> get_connection fd s1 = Inr (Some i, s2) \<and>
     worker_inv reg (i # fl) qs s1 \<and> worker_inv_but {i} reg fl qs s2 \<and>
     i \<in> used fl s2 \<and> same_pool s s1 \<and> same_pool s s2 \<and> c_fd (pool s1 ! i) = -1 \<and>
     c_fd (pool s2 ! i) = fd \<and> c_instance (pool s2 ! i) \<noteq> c_instance (pool s ! i) \<and>
     c_iCurrsequence (pool s2 ! i) = c_iCurrsequence (pool s ! i) + 2"
proof -
  obtain s1 where s1: "close_connection os i s = Inr s1" "worker_inv reg (i # fl) qs s1" "frame_conn i s s1"
    "pool s1 ! i = closed_connection (m_pfree_connections s) (pool s ! i)"
    using worker_close [OF inv i X os] by blast
  obtain s2 where s2: "get_connection fd s1 = Inr (Some i, s2)" "worker_inv_but {i} reg fl qs s2"
    "frame_conn i s1 s2" "i \<in> used fl s2" "pool s2 ! i = fresh_connection i fd (pool s1 ! i)"
    using worker_get [OF s1(2) fd] by blast
  show ?thesis
    using s1 s2 by (auto simp: same_pool_def frame_conn_def fresh_connection_def closed_connection_def)
qed

lemma stale_after_reuse:
  assumes inv: "worker_inv reg fl qs s" and i: "i \<in> used fl s" and os: "kernel_ok os reg" and fd: "fd \<noteq> -1"
    and ev: "ev_data ev = tag_ptr (conn_addr (m_pconnections s) i) (c_instance (pool s ! i))"
  shows "\<exists>s1 s2. close_connection os i s = Inr s1 \<and> process_event os ev s1 = Inr s1 \<and>
     get_connection fd s1 = Inr (Some i, s2) \<and> process_event os ev s2 = Inr s2"
proof -
  obtain s1 s2 where s: "close_connection os i s = Inr s1" "get_connection fd s1 = Inr (Some i, s2)"
     "same_pool s s1" "same_pool s s2" "c_fd (pool s1 ! i) = -1"
     "c_instance (pool s2 ! i) \<noteq> c_instance (pool s ! i)"
    using close_then_get [OF inv _ i os fd] by blast
  have p: "pool_placed (m_pconnections s) (length (pool s))" "i < length (pool s)"
    using inv i by (simp_all add: worker_inv_but_def used_def)
  have "process_event os ev s1 = Inr s1"
    using p ev s(3,5) by (intro process_event_closed [of s1 i]) (auto simp: same_pool_def)
  moreover have "process_event os ev s2 = Inr s2"
    using p ev s(4,6) by (intro process_event_other_instance [of s2 i]) (auto simp: same_pool_def)
  ultimately show ?thesis using s(1,2) by blast
qed

lemma stale_after_two_reuses:
  assumes inv: "worker_inv reg fl qs s" and i: "i \<in> used fl s" and os: "kernel_ok os reg"
    and fd: "fd1 \<noteq> -1" "fd2 \<noteq> -1"
    and ev: "ev_data ev = tag_ptr (conn_addr (m_pconnections s) i) (c_instance (pool s ! i))"
      "ev_events ev AND (EPOLLIN OR EPOLLERR OR EPOLLHUP) \<noteq> 0"
  shows "\<exists>s1 s2 s3 s4. close_connection os i s = Inr s1 \<and> get_connection fd1 s1 = Inr (Some i, s2) \<and>
     close_connection os i s2 = Inr s3 \<and> get_connection fd2 s3 = Inr (Some i, s4) \<and>
     c_iCurrsequence (pool s4 ! i) = c_iCurrsequence (pool s ! i) + 4 \<and>
     (\<forall>h s5. s5 = upd_conn i (\<lambda>c. c\<lparr>rhandler := Some h\<rparr>) s4 \<longrightarrow>
        process_event os ev s5 = call_handler os h i s5)"
proof -
  obtain s1 s2 where s: "close_connection os i s = Inr s1" "get_connection fd1 s1 = Inr (Some i, s2)"
     "worker_inv_but {i} reg fl qs s2" "i \<in> used fl s2" "same_pool s s2"
     "c_instance (pool s2 ! i) \<noteq> c_instance (pool s ! i)"
     "c_iCurrsequence (pool s2 ! i) = c_iCurrsequence (pool s ! i) + 2"
    using close_then_get [OF inv _ i os fd(1)] by blast
  obtain s3 s4 where t: "close_connection os i s2 = Inr s3" "get_connection fd2 s3 = Inr (Some i, s4)"
     "same_pool s2 s4" "c_fd (pool s4 ! i) = fd2" "c_instance (pool s4 ! i) \<noteq> c_instance (pool s2 ! i)"
     "c_iCurrsequence (pool s4 ! i) = c_iCurrsequence (pool s2 ! i) + 2"
    using close_then_get [OF s(3) subset_refl s(4) os fd(2)] by blast
  have p: "pool_placed (m_pconnections s) (length (pool s))" "i < length (pool s)"
    using inv i by (simp_all add: worker_inv_but_def used_def)
  have "process_event os ev s5 = call_handler os h i s5"
    if "s5 = upd_conn i (\<lambda>c. c\<lparr>rhandler := Some h\<rparr>) s4" for h s5
    using p ev s(5,6) t(3,4,5) fd(2)
    by (intro process_event_readable) (auto simp: that same_pool_def)
  then show ?thesis
    using s(1,2,7) t(1,2,6) by (intro exI conjI) (auto simp: add.assoc)
qed

end
