(* ===== verification/Proc_State.thy ===== *)
theory Proc_State
  imports Socket_Listen
begin

text \<open>
  The process around the network component: the globals of \<open>_include/xfly_global.h\<close>, the process
  system calls, and the log statements of the process code. The kernel state is the one in
  \<open>g_socket\<close>, so that network and process calls act on the same kernel. A value of
  \<open>'k proc\<close> is one process; \<open>fork\<close> is seen from inside the process it returns in.
\<close>

datatype ProcessType = MasterProcess | WorkerProcess

text \<open>One constructor per log statement, with the values it prints.\<close>

datatype proc_msg =
    Sigaction_failed int
  | Signal_from string int
  | Signal_received string
  | Waitpid_failed
  | Exited_on_signal int int
  | Exited_with_code int int
  | Sigprocmask_failed
  | Master_started
  | Worker_started
  | Spawn_failed int
  | Daemon_failed
  | Setsid_failed
  | Open_null_failed
  | Dup2_stdin_failed
  | Dup2_stdout_failed
  | Close_fd_failed

datatype proc_entry = PLog log_level proc_msg | PPoll bool

text \<open>What a signal is set to do, and what \<open>waitpid\<close> reports.\<close>

datatype sig_action = Sa_handler | Sa_ignore

datatype wait_pid_result = Wait_child int u32 | Wait_nothing | Wait_error int

record 'k proc_os =
  sys_sigaction :: "int \<Rightarrow> sig_action \<Rightarrow> 'k \<Rightarrow> int \<times> 'k"
  sys_waitpid :: "'k \<Rightarrow> wait_pid_result \<times> 'k"
  sys_fork :: "'k \<Rightarrow> int \<times> 'k"
  sys_sigprocmask_block :: "int list \<Rightarrow> 'k \<Rightarrow> int \<times> 'k"
  sys_sigprocmask_set :: "int list \<Rightarrow> 'k \<Rightarrow> int \<times> 'k"
  sys_setsid :: "'k \<Rightarrow> int \<times> 'k"
  sys_umask0 :: "'k \<Rightarrow> 'k"
  sys_open_null :: "'k \<Rightarrow> int \<times> 'k"
  sys_dup2 :: "int \<Rightarrow> int \<Rightarrow> 'k \<Rightarrow> int \<times> 'k"
  sys_pclose :: "int \<Rightarrow> 'k \<Rightarrow> int \<times> 'k"
  sys_sigsuspend :: "'k \<Rightarrow> (int \<times> int option) \<times> 'k"
  sys_fopen_append :: "string \<Rightarrow> 'k \<Rightarrow> bool \<times> 'k"

record 'k proc =
  g_socket :: "'k csocket"
  processType :: ProcessType
  invalidProcess :: int
  m_configItemList :: "ConfigItem list"
  currentLogLevel :: log_level
  plogs :: "proc_entry list"

definition pkern :: "'k proc \<Rightarrow> 'k" where "pkern p = kern (g_socket p)"

definition set_pkern :: "'k \<Rightarrow> 'k proc \<Rightarrow> 'k proc" where
  "set_pkern k p = p\<lparr>g_socket := (g_socket p)\<lparr>kern := k\<rparr>\<rparr>"

definition plog :: "log_level \<Rightarrow> proc_msg \<Rightarrow> 'k proc \<Rightarrow> 'k proc" where
  "plog l m p = p\<lparr>plogs := plogs p @ [PLog l m]\<rparr>"

definition ppoll :: "bool \<Rightarrow> 'k proc \<Rightarrow> 'k proc" where
  "ppoll force p = p\<lparr>plogs := plogs p @ [PPoll force]\<rparr>"

text \<open>A system call of the process.\<close>

definition pcall :: "('k \<Rightarrow> 'a \<times> 'k) \<Rightarrow> 'k proc \<Rightarrow> 'a \<times> 'k proc" where
  "pcall f p = (let (r, k) = f (pkern p) in (r, set_pkern k p))"

lemma pkern_set [simp]: "pkern (set_pkern k p) = k"
  by (simp add: pkern_def set_pkern_def)

lemma set_pkern_frame [simp, frame_simps]:
  "processType (set_pkern k p) = processType p" "invalidProcess (set_pkern k p) = invalidProcess p"
  "plogs (set_pkern k p) = plogs p" "m_configItemList (set_pkern k p) = m_configItemList p"
  "set_pkern k (set_pkern k' p) = set_pkern k p"
  by (simp_all add: set_pkern_def)

lemma plog_frame [simp, frame_simps]:
  "pkern (plog l m p) = pkern p" "processType (plog l m p) = processType p"
  "invalidProcess (plog l m p) = invalidProcess p" "plogs (plog l m p) = plogs p @ [PLog l m]"
  "g_socket (plog l m p) = g_socket p" "m_configItemList (plog l m p) = m_configItemList p"
  by (simp_all add: plog_def pkern_def)

lemma ppoll_frame [simp, frame_simps]:
  "pkern (ppoll b p) = pkern p" "processType (ppoll b p) = processType p"
  "invalidProcess (ppoll b p) = invalidProcess p" "plogs (ppoll b p) = plogs p @ [PPoll b]"
  "g_socket (ppoll b p) = g_socket p" "m_configItemList (ppoll b p) = m_configItemList p"
  by (simp_all add: ppoll_def pkern_def)

lemma pcall_eq: "f (pkern p) = (r, k) \<Longrightarrow> pcall f p = (r, set_pkern k p)"
  by (simp add: pcall_def)

end
