(* ===== verification/Xfly_Signal.thy ===== *)
theory Xfly_Signal
  imports Proc_State
begin

text \<open>
  \<open>signal/xfly_signal.cpp\<close>: the table of signals, installing the handlers, and the handler itself,
  which in the master notes a finished child, logs the signal and reaps all children that have
  ended. A handler runs to its end before the next signal; what it interrupts is not modelled.
\<close>

section \<open>Signal numbers (Linux)\<close>

abbreviation (input) SIGHUP :: int where "SIGHUP \<equiv> 1"
abbreviation (input) SIGINT :: int where "SIGINT \<equiv> 2"
abbreviation (input) SIGQUIT :: int where "SIGQUIT \<equiv> 3"
abbreviation (input) SIGUSR1 :: int where "SIGUSR1 \<equiv> 10"
abbreviation (input) SIGUSR2 :: int where "SIGUSR2 \<equiv> 12"
abbreviation (input) SIGALRM :: int where "SIGALRM \<equiv> 14"
abbreviation (input) SIGTERM :: int where "SIGTERM \<equiv> 15"
abbreviation (input) SIGCHLD :: int where "SIGCHLD \<equiv> 17"
abbreviation (input) SIGWINCH :: int where "SIGWINCH \<equiv> 28"
abbreviation (input) SIGIO :: int where "SIGIO \<equiv> 29"
abbreviation (input) SIGSYS :: int where "SIGSYS \<equiv> 31"
abbreviation (input) ECHILD :: int where "ECHILD \<equiv> 10"

section \<open>The table\<close>

text \<open>\<open>has_handler\<close>: the entry's handler is \<open>signalHandler\<close>, not null.\<close>

record xfly_signal =
  signo :: int
  signame :: "string option"
  has_handler :: bool

definition signals :: "xfly_signal list" where
  "signals =
     [\<lparr>signo = SIGHUP, signame = Some ''SIGHUP'', has_handler = True\<rparr>,
      \<lparr>signo = SIGINT, signame = Some ''SIGINT'', has_handler = True\<rparr>,
      \<lparr>signo = SIGTERM, signame = Some ''SIGTERM'', has_handler = True\<rparr>,
      \<lparr>signo = SIGCHLD, signame = Some ''SIGCHLD'', has_handler = True\<rparr>,
      \<lparr>signo = SIGQUIT, signame = Some ''SIGQUIT'', has_handler = True\<rparr>,
      \<lparr>signo = SIGIO, signame = Some ''SIGIO'', has_handler = True\<rparr>,
      \<lparr>signo = SIGSYS, signame = Some ''SIGSYS, SIG_IGN'', has_handler = False\<rparr>,
      \<lparr>signo = 0, signame = None, has_handler = False\<rparr>]"

section \<open>Operations\<close>

primrec install_from :: "'k proc_os \<Rightarrow> xfly_signal list \<Rightarrow> 'k proc \<Rightarrow> (bool \<times> 'k proc) res" where
  "install_from pos [] p = Inl (Fault Out_of_bounds)"
| "install_from pos (sig # rest) p =
     (if signo sig = 0 then Inr (True, p)
      else let (r, p1) = pcall (sys_sigaction pos (signo sig)
                           (if has_handler sig then Sa_handler else Sa_ignore)) p
           in if r = -1 then Inr (False, plog L_ERR (Sigaction_failed (signo sig)) p1)
              else install_from pos rest p1)"

definition initSignals :: "'k proc_os \<Rightarrow> 'k proc \<Rightarrow> (bool \<times> 'k proc) res" where
  "initSignals pos p = install_from pos signals p"

text \<open>The loop of the handler: the entry of the signal, or the one that ends the table.\<close>

primrec find_signal :: "xfly_signal list \<Rightarrow> int \<Rightarrow> xfly_signal res" where
  "find_signal [] n = Inl (Fault Out_of_bounds)"
| "find_signal (sig # rest) n =
     (if signo sig = 0 then Inr sig else if signo sig = n then Inr sig else find_signal rest n)"

definition WTERMSIG :: "u32 \<Rightarrow> int" where "WTERMSIG status = uint (status AND 127)"

definition WEXITSTATUS :: "u32 \<Rightarrow> int" where
  "WEXITSTATUS status = uint (drop_bit 8 (status AND 65280))"

text \<open>The \<open>for (;;)\<close> of \<open>cleanWorker\<close>.\<close>

partial_function (option) clean_loop :: "'k proc_os \<Rightarrow> bool \<Rightarrow> 'k proc \<Rightarrow> 'k proc option" where
  "clean_loop pos success p =
     (case pcall (sys_waitpid pos) p of (r, p1) \<Rightarrow>
       (case r of
          Wait_nothing \<Rightarrow> Some p1
        | Wait_error err \<Rightarrow>
            if err = EINTR then clean_loop pos success p1
            else if err = ECHILD \<and> success then Some p1
            else if err = ECHILD then Some (plog L_INF Waitpid_failed p1)
            else Some (plog L_INF Waitpid_failed p1)
        | Wait_child pid status \<Rightarrow>
            clean_loop pos True
              (if WTERMSIG status \<noteq> 0 then plog L_INF (Exited_on_signal pid (WTERMSIG status)) p1
               else plog L_INF (Exited_with_code pid (WEXITSTATUS status)) p1)))"

definition cleanWorker :: "'k proc_os \<Rightarrow> 'k proc \<Rightarrow> 'k proc option" where
  "cleanWorker pos p = clean_loop pos False p"

text \<open>
  The log statement: \<open>siginfo\<close> is the sender's pid, 0 if the signal has none, \<open>None\<close> for the null
  pointer.
\<close>

definition received_msg :: "string \<Rightarrow> int option \<Rightarrow> proc_msg" where
  "received_msg name siginfo =
     (case siginfo of None \<Rightarrow> Signal_received name
      | Some si_pid \<Rightarrow> if si_pid \<noteq> 0 then Signal_from name si_pid else Signal_received name)"

text \<open>Printing the null name of the entry that ends the table would follow a null pointer.\<close>

definition signalHandler ::
  "'k proc_os \<Rightarrow> int \<Rightarrow> int option \<Rightarrow> 'k proc \<Rightarrow> 'k proc res option" where
  "signalHandler pos n siginfo p =
     (case find_signal signals n of
        Inl e \<Rightarrow> Some (Inl e)
      | Inr sig \<Rightarrow>
          let p1 = (if processType p = MasterProcess \<and> n = SIGCHLD then p\<lparr>invalidProcess := 1\<rparr> else p)
          in case signame sig of
               None \<Rightarrow> Some (Inl (Fault Null_deref))
             | Some name \<Rightarrow>
                 let p2 = plog L_INF (received_msg name siginfo) p1
                 in case (if n = SIGCHLD then cleanWorker pos p2 else Some p2) of
                      None \<Rightarrow> None
                    | Some p3 \<Rightarrow> Some (Inr (ppoll True p3)))"

section \<open>Reaping children\<close>

text \<open>
  What \<open>waitpid(-1, &status, WNOHANG)\<close> documents: it reports the children that have ended
  (\<open>dead k\<close>) one by one, then 0 while others are running, or \<open>ECHILD\<close> if there are none; a
  signal may interrupt it a bounded number of times (\<open>intr k\<close>).
\<close>

definition waitpid_law ::
  "'k proc_os \<Rightarrow> ('k \<Rightarrow> (int \<times> u32) list) \<Rightarrow> ('k \<Rightarrow> bool) \<Rightarrow> ('k \<Rightarrow> nat) \<Rightarrow> bool" where
  "waitpid_law pos dead alive intr \<longleftrightarrow>
     (\<forall>k. case sys_waitpid pos k of
            (Wait_child pid st, k') \<Rightarrow> dead k = (pid, st) # dead k' \<and> alive k' = alive k
          | (Wait_nothing, k') \<Rightarrow> dead k = [] \<and> dead k' = [] \<and> alive k \<and> alive k'
          | (Wait_error e, k') \<Rightarrow>
              (e = EINTR \<and> dead k' = dead k \<and> alive k' = alive k \<and> intr k' < intr k) \<or>
              (e = ECHILD \<and> dead k = [] \<and> dead k' = [] \<and> \<not> alive k \<and> \<not> alive k'))"

definition exit_msg :: "int \<times> u32 \<Rightarrow> proc_entry" where
  "exit_msg c =
     (if WTERMSIG (snd c) \<noteq> 0 then PLog L_INF (Exited_on_signal (fst c) (WTERMSIG (snd c)))
      else PLog L_INF (Exited_with_code (fst c) (WEXITSTATUS (snd c))))"

text \<open>The outcome of the loop from state \<open>p\<close>: every dead child is reaped and written down.\<close>

definition reaped ::
  "('k \<Rightarrow> (int \<times> u32) list) \<Rightarrow> ('k \<Rightarrow> bool) \<Rightarrow> bool \<Rightarrow> 'k proc \<Rightarrow> 'k proc option \<Rightarrow> bool" where
  "reaped dead alive success p r \<longleftrightarrow>
     (\<exists>p'. r = Some p' \<and> dead (pkern p') = [] \<and>
     alive (pkern p') = alive (pkern p) \<and> processType p' = processType p \<and>
     invalidProcess p' = invalidProcess p \<and>
     plogs p' = plogs p @ map exit_msg (dead (pkern p)) @
       (if \<not> success \<and> dead (pkern p) = [] \<and> \<not> alive (pkern p) then [PLog L_INF Waitpid_failed] else []))"

lemma reaped_child:
  assumes "dead (pkern p) = (pid, st) # dead k" "alive k = alive (pkern p)"
    and "\<And>p1. pkern p1 = k \<Longrightarrow> plogs p1 = plogs p @ [exit_msg (pid, st)] \<Longrightarrow> processType p1 = processType p \<Longrightarrow>
      invalidProcess p1 = invalidProcess p \<Longrightarrow> reaped dead alive True p1 (clean_loop pos True p1)"
    and "pcall (sys_waitpid pos) p = (Wait_child pid st, set_pkern k p)"
  shows "reaped dead alive success p (clean_loop pos success p)"
proof -
  let ?p1 = "if WTERMSIG st \<noteq> 0 then plog L_INF (Exited_on_signal pid (WTERMSIG st)) (set_pkern k p)
             else plog L_INF (Exited_with_code pid (WEXITSTATUS st)) (set_pkern k p)"
  have "clean_loop pos success p = clean_loop pos True ?p1"
    using assms(4) by (subst clean_loop.simps) simp
  moreover have p1: "pkern ?p1 = k" "plogs ?p1 = plogs p @ [exit_msg (pid, st)]"
    "processType ?p1 = processType p" "invalidProcess ?p1 = invalidProcess p"
    by (simp_all add: exit_msg_def)
  moreover have "reaped dead alive True ?p1 (clean_loop pos True ?p1)"
    by (rule assms(3) [OF p1])
  ultimately show ?thesis
    using assms(1,2) unfolding reaped_def by auto
qed

lemma clean_loop_reaped:
  assumes "waitpid_law pos dead alive intr"
  shows "reaped dead alive success p (clean_loop pos success p)"
proof (induction "(length (dead (pkern p)), intr (pkern p))" arbitrary: success p
    rule: wf_induct_rule [OF wf_lex_prod [OF wf_measure [of id] wf_measure [of id]]])
  case (1 p success)
  obtain r k where call: "sys_waitpid pos (pkern p) = (r, k)" by fastforce
  have run: "pcall (sys_waitpid pos) p = (r, set_pkern k p)"
    using call by (rule pcall_eq)
  have law: "case (r, k) of
            (Wait_child pid st, k') \<Rightarrow> dead (pkern p) = (pid, st) # dead k' \<and> alive k' = alive (pkern p)
          | (Wait_nothing, k') \<Rightarrow> dead (pkern p) = [] \<and> dead k' = [] \<and> alive (pkern p) \<and> alive k'
          | (Wait_error e, k') \<Rightarrow>
              (e = EINTR \<and> dead k' = dead (pkern p) \<and> alive k' = alive (pkern p) \<and> intr k' < intr (pkern p)) \<or>
              (e = ECHILD \<and> dead (pkern p) = [] \<and> dead k' = [] \<and> \<not> alive (pkern p) \<and> \<not> alive k')"
    using assms [unfolded waitpid_law_def, rule_format, of "pkern p"] by (simp only: call)
  show ?case
  proof (cases r)
    case Wait_nothing
    then show ?thesis using law run by (subst clean_loop.simps) (simp add: reaped_def)
  next
    case (Wait_error e)
    show ?thesis
    proof (cases "e = EINTR")
      case True
      then have l: "dead k = dead (pkern p)" "alive k = alive (pkern p)" "intr k < intr (pkern p)"
        using law Wait_error by auto
      have "clean_loop pos success p = clean_loop pos success (set_pkern k p)"
        using run Wait_error True by (subst clean_loop.simps) simp
      then show ?thesis
        using 1 [of "set_pkern k p" success] l by (simp add: reaped_def)
    next
      case False
      then have "e = ECHILD" "dead (pkern p) = []" "dead k = []" "\<not> alive (pkern p)" "\<not> alive k"
        using law Wait_error by auto
      then show ?thesis
        using run Wait_error by (subst clean_loop.simps) (simp add: reaped_def)
    qed
  next
    case (Wait_child pid st)
    then have l: "dead (pkern p) = (pid, st) # dead k" "alive k = alive (pkern p)"
      using law by auto
    show ?thesis
      using l(1) by (intro reaped_child [OF l _ run [unfolded Wait_child]] 1) simp
  qed
qed

lemma clean_loop_reaps:
  assumes "waitpid_law pos dead alive intr"
  shows "\<exists>p'. clean_loop pos success p = Some p' \<and> dead (pkern p') = [] \<and>
     alive (pkern p') = alive (pkern p) \<and> processType p' = processType p \<and>
     invalidProcess p' = invalidProcess p \<and>
     plogs p' = plogs p @ map exit_msg (dead (pkern p)) @
       (if \<not> success \<and> dead (pkern p) = [] \<and> \<not> alive (pkern p) then [PLog L_INF Waitpid_failed] else [])"
  using clean_loop_reaped [OF assms] by (simp add: reaped_def)

section \<open>The handler\<close>

lemma find_signal_table:
  "find_signal signals SIGHUP = Inr \<lparr>signo = SIGHUP, signame = Some ''SIGHUP'', has_handler = True\<rparr>"
  "find_signal signals SIGINT = Inr \<lparr>signo = SIGINT, signame = Some ''SIGINT'', has_handler = True\<rparr>"
  "find_signal signals SIGTERM = Inr \<lparr>signo = SIGTERM, signame = Some ''SIGTERM'', has_handler = True\<rparr>"
  "find_signal signals SIGCHLD = Inr \<lparr>signo = SIGCHLD, signame = Some ''SIGCHLD'', has_handler = True\<rparr>"
  "find_signal signals SIGQUIT = Inr \<lparr>signo = SIGQUIT, signame = Some ''SIGQUIT'', has_handler = True\<rparr>"
  "find_signal signals SIGIO = Inr \<lparr>signo = SIGIO, signame = Some ''SIGIO'', has_handler = True\<rparr>"
  unfolding signals_def by simp_all

lemma signalHandler_other:
  assumes "n \<in> {SIGHUP, SIGINT, SIGTERM, SIGQUIT, SIGIO}"
  shows "\<exists>name. signalHandler pos n siginfo p =
           Some (Inr (ppoll True (plog L_INF (received_msg name siginfo) p)))"
  using assms by (auto simp: signalHandler_def find_signal_table Let_def)

lemma signalHandler_chld:
  assumes "waitpid_law pos dead alive intr"
  shows "\<exists>p'. signalHandler pos SIGCHLD siginfo p = Some (Inr p') \<and> dead (pkern p') = [] \<and>
     processType p' = processType p \<and>
     invalidProcess p' = (if processType p = MasterProcess then 1 else invalidProcess p) \<and>
     plogs p' = plogs p @ PLog L_INF (received_msg ''SIGCHLD'' siginfo) # map exit_msg (dead (pkern p)) @
       (if dead (pkern p) = [] \<and> \<not> alive (pkern p) then [PLog L_INF Waitpid_failed] else []) @ [PPoll True]"
proof -
  define p1 where "p1 = (if processType p = MasterProcess then p\<lparr>invalidProcess := 1\<rparr> else p)"
  let ?m = "received_msg ''SIGCHLD'' siginfo"
  have p1: "pkern p1 = pkern p" "processType p1 = processType p" "plogs p1 = plogs p"
    "invalidProcess p1 = (if processType p = MasterProcess then 1 else invalidProcess p)"
    by (simp_all add: p1_def pkern_def)
  obtain p3 where p3: "clean_loop pos False (plog L_INF ?m p1) = Some p3" "dead (pkern p3) = []"
     "processType p3 = processType p" "invalidProcess p3 = invalidProcess p1"
     "plogs p3 = plogs p @ PLog L_INF ?m # map exit_msg (dead (pkern p)) @
       (if dead (pkern p) = [] \<and> \<not> alive (pkern p) then [PLog L_INF Waitpid_failed] else [])"
    using clean_loop_reaps [OF assms, of False "plog L_INF ?m p1"] p1 by auto
  have "signalHandler pos SIGCHLD siginfo p = Some (Inr (ppoll True p3))"
    using p3(1) by (simp add: signalHandler_def find_signal_table cleanWorker_def p1_def Let_def)
  then show ?thesis
    using p3 p1 by auto
qed

text \<open>Which signals are installed, and how.\<close>

lemma install_from_success:
  "\<forall>k n a. fst (sys_sigaction pos n a k) \<noteq> -1 \<Longrightarrow> \<exists>sig \<in> set tbl. signo sig = 0 \<Longrightarrow>
   install_from pos tbl p =
     Inr (True, fold (\<lambda>sig p. snd (pcall (sys_sigaction pos (signo sig)
                  (if has_handler sig then Sa_handler else Sa_ignore)) p))
                (takeWhile (\<lambda>sig. signo sig \<noteq> 0) tbl) p)"
proof (induction tbl arbitrary: p)
  case Nil
  then show ?case by simp
next
  case (Cons sig tbl)
  show ?case
  proof (cases "signo sig = 0")
    case True
    then show ?thesis by simp
  next
    case False
    then show ?thesis
      using Cons by (simp add: pcall_def split_beta)
  qed
qed

end
