(* ===== verification/Xfly_Process.thy ===== *)
theory Xfly_Process
  imports Xfly_Signal
begin

text \<open>
  \<open>app/xfly.cpp\<close>, \<open>proc/xfly_process.cpp\<close> and \<open>proc/xfly_daemon.cpp\<close>: starting the server. \<open>fork\<close>
  returns twice; the model follows one process, and which one it is shows in the result of the
  call. A function that may continue as a worker therefore returns \<open>forked\<close>: still the parent,
  or the worker with its number, which never comes back.
\<close>

datatype 'k forked = In_parent bool "'k proc" | In_worker int "'k proc"

section \<open>The daemon\<close>

definition createDaemon :: "'k proc_os \<Rightarrow> 'k proc \<Rightarrow> int \<times> 'k proc" where
  "createDaemon pos p =
     (let (pid, p) = pcall (sys_fork pos) p in
      if pid = -1 then (-1, ppoll False (plog L_ERR Daemon_failed p))
      else if pid \<noteq> 0 then (1, p)
      else let (r, p) = pcall (sys_setsid pos) p in
      if r = -1 then (-1, ppoll False (plog L_ERR Setsid_failed p))
      else let p = set_pkern (sys_umask0 pos (pkern p)) p;
               (fd, p) = pcall (sys_open_null pos) p in
      if fd = -1 then (-1, ppoll False (plog L_ERR Open_null_failed p))
      else let (r, p) = pcall (sys_dup2 pos fd 0) p in
      if r = -1 then (-1, ppoll False (plog L_ERR Dup2_stdin_failed p))
      else let (r, p) = pcall (sys_dup2 pos fd 1) p in
      if r = -1 then (-1, ppoll False (plog L_ERR Dup2_stdout_failed p))
      else if fd > 2 then
        (let (r, p) = pcall (sys_pclose pos fd) p in
         if r = -1 then (-1, ppoll False (plog L_ERR Close_fd_failed p)) else (0, p))
      else (0, p))"

section \<open>Workers\<close>

definition spawnProcess :: "'k proc_os \<Rightarrow> int \<Rightarrow> 'k proc \<Rightarrow> 'k forked" where
  "spawnProcess pos i p =
     (let (pid, p1) = pcall (sys_fork pos) p
      in if pid = -1 then In_parent False (plog L_ERR (Spawn_failed i) p1)
         else if pid = 0 then In_worker i (ppoll True (plog L_INF Worker_started p1))
         else In_parent True p1)"

text \<open>The loop of \<open>startWorkProcess\<close> ignores the result of \<open>spawnProcess\<close>.\<close>

primrec spawn_from :: "'k proc_os \<Rightarrow> nat list \<Rightarrow> 'k proc \<Rightarrow> 'k forked" where
  "spawn_from pos [] p = In_parent True p"
| "spawn_from pos (i # is) p =
     (case spawnProcess pos (int i) p of
        In_parent b p1 \<Rightarrow> spawn_from pos is p1
      | In_worker n p1 \<Rightarrow> In_worker n p1)"

definition startWorkProcess :: "'k proc_os \<Rightarrow> int \<Rightarrow> 'k proc \<Rightarrow> 'k forked" where
  "startWorkProcess pos processNum p = spawn_from pos [0..<nat processNum] p"

text \<open>
  \<open>workerProcessCycle\<close> up to its loop, whose rounds are \<open>worker_rounds\<close> on \<open>g_socket\<close>.
\<close>

definition workerProcessCycle ::
  "'k os \<Rightarrow> 'k proc_os \<Rightarrow> u64 \<Rightarrow> (nat \<Rightarrow> connection) \<Rightarrow> int \<Rightarrow> 'k proc \<Rightarrow> 'k proc res" where
  "workerProcessCycle os pos base garbage i p =
     (let p1 = p\<lparr>processType := WorkerProcess\<rparr>;
          (r, p2) = pcall (sys_sigprocmask_set pos []) p1;
          p3 = (if r = -1 then plog L_WRN Sigprocmask_failed p2 else p2)
      in bind_res (epoll_init os base garbage (g_socket p3)) (\<lambda>(r, s). Inr (p3\<lparr>g_socket := s\<rparr>)))"

section \<open>The master\<close>

text \<open>The ten signals blocked while the workers are forked.\<close>

definition master_mask :: "int list" where
  "master_mask = [SIGCHLD, SIGALRM, SIGIO, SIGINT, SIGHUP, SIGUSR1, SIGUSR2, SIGWINCH, SIGTERM, SIGQUIT]"

text \<open>\<open>masterProcessCycle\<close> up to its loop.\<close>

definition masterProcessCycle :: "'k proc_os \<Rightarrow> 'k proc \<Rightarrow> 'k forked" where
  "masterProcessCycle pos p =
     (let p1 = p\<lparr>processType := MasterProcess\<rparr>;
          (r, p2) = pcall (sys_sigprocmask_block pos master_mask) p1;
          p3 = (if r = -1 then plog L_WRN Sigprocmask_failed p2 else p2);
          p4 = ppoll True (plog L_INF Master_started p3);
          workProcess = getIntDefault (m_configItemList p4) ''WorkerProcesses'' 1
      in startWorkProcess pos workProcess p4)"

text \<open>One round of the master's loop: \<open>sigsuspend\<close> returns after the handler of one signal ran.\<close>

definition master_round :: "'k proc_os \<Rightarrow> 'k proc \<Rightarrow> 'k proc res option" where
  "master_round pos p =
     (let ((n, siginfo), p1) = pcall (sys_sigsuspend pos) p in signalHandler pos n siginfo p1)"

section \<open>main\<close>

definition toLevel :: "log_level list" where
  "toLevel = [L_DBG, L_INF, L_WRN, L_ERR, L_OFF]"

text \<open>
  A missing \<open>Log\<close> item gives \<open>setLogFile\<close> a null pointer; a file that cannot be opened makes it
  throw.
\<close>

definition initLog :: "'k proc_os \<Rightarrow> 'k proc \<Rightarrow> 'k proc res" where
  "initLog pos p =
     (let logFile = getString (m_configItemList p) ''Log'';
          level = getIntDefault (m_configItemList p) ''LogLevel'' 1
      in case logFile of
           None \<Rightarrow> Inl (Fault Null_deref)
         | Some f \<Rightarrow>
             (let (ok, p1) = pcall (sys_fopen_append pos f) p
              in if \<not> ok then Inl (Fault Uncaught)
                 else if 0 \<le> level \<and> level < int (length toLevel)
                      then Inr (p1\<lparr>currentLogLevel := toLevel ! nat level\<rparr>)
                      else Inl (Fault Out_of_bounds)))"

text \<open>\<open>main\<close> after the configuration was loaded, up to the loop of the master or of a worker.\<close>

definition main_configured :: "'k os \<Rightarrow> 'k proc_os \<Rightarrow> 'k proc \<Rightarrow> 'k forked res" where
  "main_configured os pos p =
     bind_res (initLog pos p) (\<lambda>p1.
     bind_res (initSignals pos p1) (\<lambda>(ok, p2).
       if \<not> ok then Inl (Exit 1)
       else bind_res (Initialize os (m_configItemList p2) (g_socket p2)) (\<lambda>(ok, s).
         let p3 = p2\<lparr>g_socket := s\<rparr>
         in if \<not> ok then Inl (Exit 1)
            else if getIntDefault (m_configItemList p3) ''Daemon'' 0 = 1
            then (let (processId, p4) = createDaemon pos p3
                  in if processId = 1 \<or> processId = -1 then Inl (Exit 1)
                     else Inr (masterProcessCycle pos p4))
            else Inr (masterProcessCycle pos p3))))"

definition xfly_main ::
  "'k os \<Rightarrow> 'k proc_os \<Rightarrow> cfile option \<Rightarrow> 'k proc \<Rightarrow> 'k forked res option" where
  "xfly_main os pos conf_file p =
     (case load_conf conf_file (m_configItemList p) of
        None \<Rightarrow> None
      | Some r \<Rightarrow>
          Some (bind_res r (\<lambda>(ok, items).
            if \<not> ok then Inl (Exit 1)
            else main_configured os pos (p\<lparr>m_configItemList := items\<rparr>))))"

section \<open>What starting establishes\<close>

text \<open>
  The daemon process: the child of the fork, in a session of its own, its standard input and output
  on \<open>/dev/null\<close> and the extra descriptor closed, every call having succeeded.
\<close>

definition daemonised :: "'k proc_os \<Rightarrow> 'k \<Rightarrow> 'k \<Rightarrow> bool" where
  "daemonised pos k k' \<longleftrightarrow>
     (let (pid, k1) = sys_fork pos k; (sid, k2) = sys_setsid pos k1;
          (fd, k3) = sys_open_null pos (sys_umask0 pos k2);
          (in_r, k4) = sys_dup2 pos fd 0 k3; (out_r, k5) = sys_dup2 pos fd 1 k4
      in pid = 0 \<and> sid \<noteq> -1 \<and> fd \<noteq> -1 \<and> in_r \<noteq> -1 \<and> out_r \<noteq> -1 \<and>
         (if fd \<le> 2 then k' = k5
          else let (r, k6) = sys_pclose pos fd k5 in r \<noteq> -1 \<and> k' = k6))"

lemma createDaemon_outcome:
  assumes "createDaemon pos p = (r, p')"
  shows "r \<in> {-1, 0, 1} \<and> (r = -1 \<longrightarrow> (\<exists>m. plogs p' = plogs p @ [PLog L_ERR m, PPoll False])) \<and>
     (r \<noteq> -1 \<longrightarrow> plogs p' = plogs p) \<and>
     (r = 1 \<longleftrightarrow> fst (sys_fork pos (pkern p)) \<notin> {0, -1}) \<and>
     (r = 0 \<longleftrightarrow> (\<exists>k. daemonised pos (pkern p) k)) \<and> (r = 0 \<longrightarrow> daemonised pos (pkern p) (pkern p'))"
  using assms
  by (auto simp: createDaemon_def daemonised_def pcall_def Let_def split: prod.splits if_splits)

text \<open>A worker is forked from the loop and never forks itself.\<close>

definition forks_law :: "'k proc_os \<Rightarrow> ('k \<Rightarrow> nat) \<Rightarrow> bool" where
  "forks_law pos forks \<longleftrightarrow> (\<forall>k. forks (snd (sys_fork pos k)) = Suc (forks k))"

lemma spawn_from_forks:
  assumes "forks_law pos forks"
  shows "case spawn_from pos [a..<b] p of
      In_parent ok p' \<Rightarrow> forks (pkern p') = forks (pkern p) + (b - a)
    | In_worker i p' \<Rightarrow> int a \<le> i \<and> i < int b \<and> forks (pkern p') = forks (pkern p) + nat (i + 1 - int a)"
proof (induction "b - a" arbitrary: a p)
  case 0
  then show ?case by simp
next
  case (Suc n)
  then have ab: "a < b" "[a..<b] = a # [Suc a..<b]" by (simp_all add: upt_conv_Cons)
  obtain pid k where fork: "sys_fork pos (pkern p) = (pid, k)" by fastforce
  then have k: "forks k = Suc (forks (pkern p))"
    using assms by (metis forks_law_def snd_conv)
  have run: "pcall (sys_fork pos) p = (pid, set_pkern k p)"
    using fork by (rule pcall_eq)
  have IH: "case spawn_from pos [Suc a..<b] q of
      In_parent ok p' \<Rightarrow> forks (pkern p') = forks (pkern q) + (b - Suc a)
    | In_worker i p' \<Rightarrow> int (Suc a) \<le> i \<and> i < int b \<and>
        forks (pkern p') = forks (pkern q) + nat (i + 1 - int (Suc a))" for q
    using Suc by (intro Suc.hyps(1)) simp
  show ?case
  proof (cases "pid = 0")
    case True
    then show ?thesis using ab run k by (simp add: spawnProcess_def)
  next
    case False
    then obtain b' q where q: "spawnProcess pos (int a) p = In_parent b' q" "pkern q = k"
      using run by (cases "pid = -1") (auto simp: spawnProcess_def)
    then show ?thesis
      using IH [of q] ab k by (auto split: forked.splits)
  qed
qed

text \<open>From \<open>Initialize\<close> to the worker, only the kernel part of \<open>g_socket\<close> changes.\<close>

definition socket_kept :: "'k proc \<Rightarrow> 'k proc \<Rightarrow> bool" where
  "socket_kept p p' \<longleftrightarrow> (g_socket p')\<lparr>kern := kern (g_socket p)\<rparr> = g_socket p"

lemma socket_kept_refl [simp]: "socket_kept p p"
  by (simp add: socket_kept_def)

lemma socket_kept_simps [simp]:
  "socket_kept p (set_pkern k q) = socket_kept p q" "socket_kept p (plog l m q) = socket_kept p q"
  "socket_kept p (ppoll b q) = socket_kept p q"
  "socket_kept p (q\<lparr>processType := t\<rparr>) = socket_kept p q"
  "socket_kept p (q\<lparr>currentLogLevel := lv\<rparr>) = socket_kept p q"
  by (simp_all add: socket_kept_def set_pkern_def)

lemma socket_kept_pcall: "pcall f p = (r, p') \<Longrightarrow> socket_kept q p' = socket_kept q p"
  by (auto simp: pcall_def split: prod.splits)

lemma socket_kept_eq: "socket_kept p p' \<Longrightarrow> \<exists>k. g_socket p' = (g_socket p)\<lparr>kern := k\<rparr>"
proof -
  assume "socket_kept p p'"
  then have "(g_socket p')\<lparr>kern := kern (g_socket p)\<rparr> = g_socket p"
    by (simp only: socket_kept_def)
  from arg_cong [where f = "\<lambda>g. g\<lparr>kern := kern (g_socket p')\<rparr>", OF this] show ?thesis
    by (intro exI [of _ "kern (g_socket p')"]) simp
qed

definition forked_proc :: "'k forked \<Rightarrow> 'k proc" where
  "forked_proc f = (case f of In_parent b p \<Rightarrow> p | In_worker i p \<Rightarrow> p)"

lemma spawn_from_kept: "socket_kept q p \<Longrightarrow> socket_kept q (forked_proc (spawn_from pos is p))"
proof (induction "is" arbitrary: p)
  case Nil
  then show ?case by (simp add: forked_proc_def)
next
  case (Cons i "is")
  then show ?case
    by (auto simp: spawnProcess_def forked_proc_def socket_kept_pcall split: prod.splits forked.splits)
qed

lemma createDaemon_kept: "createDaemon pos p = (r, p') \<Longrightarrow> socket_kept q p' = socket_kept q p"
  by (auto simp: createDaemon_def Let_def socket_kept_pcall split: prod.splits if_splits)

lemma masterProcessCycle_kept: "socket_kept q p \<Longrightarrow> socket_kept q (forked_proc (masterProcessCycle pos p))"
  by (auto simp: masterProcessCycle_def startWorkProcess_def Let_def socket_kept_pcall
      intro!: spawn_from_kept split: prod.splits)

lemma pcall_conf: "pcall f p = (r, p') \<Longrightarrow> m_configItemList p' = m_configItemList p"
  by (auto simp: pcall_def split: prod.splits)

lemma install_from_conf:
  "install_from pos tbl p = Inr (ok, p') \<Longrightarrow> m_configItemList p' = m_configItemList p \<and>
     (\<forall>q. socket_kept q p' = socket_kept q p)"
proof (induction tbl arbitrary: p)
  case Nil
  then show ?case by simp
next
  case (Cons sig tbl)
  then show ?case
    by (auto simp: socket_kept_pcall pcall_conf split: prod.splits if_splits)
qed

lemma initLog_conf:
  "initLog pos p = Inr p' \<Longrightarrow> m_configItemList p' = m_configItemList p \<and>
     (\<forall>q. socket_kept q p' = socket_kept q p)"
  by (auto simp: initLog_def Let_def socket_kept_pcall pcall_conf split: option.splits prod.splits if_splits)

text \<open>
  Whatever process comes out of \<open>main\<close>, its socket object is one that \<open>Initialize\<close> completed for
  the loaded configuration.
\<close>

lemma main_configured_socket:
  assumes "main_configured os pos p = Inr f"
  shows "\<exists>p2 s. Initialize os (m_configItemList p) (g_socket p2) = Inr (True, s) \<and>
           socket_kept p p2 \<and> (\<exists>k. g_socket (forked_proc f) = s\<lparr>kern := k\<rparr>)"
proof -
  obtain p1 ok p2 where p1: "initLog pos p = Inr p1" and p2: "initSignals pos p1 = Inr (ok, p2)" "ok"
    using assms by (auto simp: main_configured_def bind_res_eq_Inr split: if_splits)
  have c: "m_configItemList p2 = m_configItemList p" "socket_kept p p2"
    using initLog_conf [OF p1] install_from_conf [of pos signals p1 ok p2] p2
    by (simp_all add: initSignals_def)
  obtain ok2 s where s: "Initialize os (m_configItemList p) (g_socket p2) = Inr (ok2, s)" "ok2"
    using assms p1 p2 c by (auto simp: main_configured_def bind_res_eq_Inr Let_def split: if_splits)
  let ?p3 = "p2\<lparr>g_socket := s\<rparr>"
  have "socket_kept ?p3 (forked_proc f)"
  proof (cases "getIntDefault (m_configItemList p) ''Daemon'' 0 = 1")
    case True
    obtain r p4 where d: "createDaemon pos ?p3 = (r, p4)" by fastforce
    then have "f = masterProcessCycle pos p4"
      using assms p1 p2 c s True by (auto simp: main_configured_def Let_def split: if_splits)
    then show ?thesis
      using masterProcessCycle_kept [of ?p3 p4 pos] createDaemon_kept [OF d, of ?p3] by simp
  next
    case False
    then have "f = masterProcessCycle pos ?p3"
      using assms p1 p2 c s by (auto simp: main_configured_def Let_def)
    then show ?thesis
      using masterProcessCycle_kept [of ?p3 ?p3 pos] by simp
  qed
  from socket_kept_eq [OF this] show ?thesis
    using s c by auto
qed

lemma socket_ready_kern [simp]: "socket_ready (s\<lparr>kern := k\<rparr>) = socket_ready s"
  by (simp add: socket_ready_def)

text \<open>The start of a worker that \<open>main\<close> forked: \<open>epoll_init\<close> on what \<open>Initialize\<close> left in \<open>g_socket\<close>.\<close>

lemma main_worker_init:
  assumes main: "main_configured os pos p = Inr (In_worker i w)"
    and new: "g_socket p = CSocket_new cn fn k0"
  obtains g w1 where "socket_ready g" "m_worker_connections g = getIntDefault (m_configItemList p) ''worker_connections'' 1"
    "kern g = snd (sys_sigprocmask_set pos [] (pkern w))" "processType w1 = WorkerProcess"
    "workerProcessCycle os pos base garbage i w =
       bind_res (epoll_init os base garbage g) (\<lambda>(r, s). Inr (w1\<lparr>g_socket := s\<rparr>))"
proof -
  obtain p2 s k where s: "Initialize os (m_configItemList p) (g_socket p2) = Inr (True, s)"
    "socket_kept p p2" "g_socket w = s\<lparr>kern := k\<rparr>"
    using main_configured_socket [OF main] by (auto simp: forked_proc_def)
  obtain k2 where "g_socket p2 = CSocket_new cn fn k2"
    using socket_kept_eq [OF s(2)] new by (auto simp: CSocket_new_def)
  then have rdy: "socket_ready s" "m_worker_connections s = getIntDefault (m_configItemList p) ''worker_connections'' 1"
    using Initialize_ready [of os "m_configItemList p" cn fn k2 s] s(1) by auto
  obtain r km where mask: "sys_sigprocmask_set pos [] (pkern w) = (r, km)" by fastforce
  let ?w = "set_pkern km (w\<lparr>processType := WorkerProcess\<rparr>)"
  have "workerProcessCycle os pos base garbage i w =
      bind_res (epoll_init os base garbage (s\<lparr>kern := km\<rparr>)) (\<lambda>(r', s').
        Inr ((if r = -1 then plog L_WRN Sigprocmask_failed ?w else ?w)\<lparr>g_socket := s'\<rparr>))"
    using mask s(3) by (simp add: workerProcessCycle_def pcall_def pkern_def set_pkern_def)
  then show thesis
    using rdy mask
    by (intro that [of "s\<lparr>kern := km\<rparr>" "if r = -1 then plog L_WRN Sigprocmask_failed ?w else ?w"]) simp_all
qed

text \<open>Such a worker runs for ever, unless \<open>epoll_init\<close> ends it.\<close>

lemma main_worker_runs:
  assumes main: "main_configured os pos p = Inr (In_worker i w)"
    and new: "g_socket p = CSocket_new cn fn k0"
    and os: "kernel_ok os reg"
    and n: "0 \<le> getIntDefault (m_configItemList p) ''worker_connections'' 1"
    and placed: "pool_placed base (nat (getIntDefault (m_configItemList p) ''worker_connections'' 1))"
    and empty: "reg (snd (sys_sigprocmask_set pos [] (pkern w))) = {}"
  shows "workerProcessCycle os pos base garbage i w = Inl (Exit 2) \<or>
    (\<exists>w'. workerProcessCycle os pos base garbage i w = Inr w' \<and> processType w' = WorkerProcess \<and>
       (\<forall>n. \<exists>s. worker_rounds os n (g_socket w') = Inr s))"
proof -
  obtain g w1 where g: "socket_ready g" "m_worker_connections g = getIntDefault (m_configItemList p) ''worker_connections'' 1"
    "kern g = snd (sys_sigprocmask_set pos [] (pkern w))" "processType w1 = WorkerProcess"
    "workerProcessCycle os pos base garbage i w =
       bind_res (epoll_init os base garbage g) (\<lambda>(r, s). Inr (w1\<lparr>g_socket := s\<rparr>))"
    by (rule main_worker_init [OF main new])
  have pre: "reg (kern g) = {}" "pool_placed base (nat (m_worker_connections g))" "0 \<le> m_worker_connections g"
    using g(2,3) n placed empty by simp_all
  consider "epoll_init os base garbage g = Inl (Exit 2)"
    | s' fl where "epoll_init os base garbage g = Inr (1, s')" "worker_inv reg fl [] s'"
    using epoll_init_inv [OF g(1) os pre] by blast
  then show ?thesis
  proof cases
    case 1
    then show ?thesis using g(5) by simp
  next
    case 2
    then have "\<exists>t. worker_rounds os n s' = Inr t" for n
      using wl.rounds_ok [of os reg s' n] os by (auto simp: worker_rounds_def)
    then show ?thesis
      using g(4,5) 2(1) by simp
  qed
qed

lemma main_worker_negative:
  assumes main: "main_configured os pos p = Inr (In_worker i w)"
    and new: "g_socket p = CSocket_new cn fn k0"
    and n: "getIntDefault (m_configItemList p) ''worker_connections'' 1 < 0"
  shows "workerProcessCycle os pos base garbage i w \<in> {Inl (Exit 2), Inl (Fault Bad_alloc)}"
proof -
  obtain g w1 where g: "m_worker_connections g = getIntDefault (m_configItemList p) ''worker_connections'' 1"
    "workerProcessCycle os pos base garbage i w =
       bind_res (epoll_init os base garbage g) (\<lambda>(r, s). Inr (w1\<lparr>g_socket := s\<rparr>))"
    by (rule main_worker_init [OF main new])
  then show ?thesis
    using epoll_init_negative [of g os base garbage] n by simp
qed

end
