(* ===== verification/Scenario.thy ===== *)
theory Scenario
  imports Socket_Listen Worker_Events Xfly_Process
begin

text \<open>
  A small concrete world in which the theorems are exercised: a kernel whose state lists the
  bytes, clients and event batches still to come, with the system calls over it, and a worker
  with one connection in use and one free.
\<close>

record demo_kernel =
  k_incoming :: "byte list"
  k_clients :: "nat list"
  k_events :: "epoll_event list list"
  k_regs :: "u64 list"

text \<open>\<open>recv\<close> hands out at most three bytes per call, so packages arrive in fragments.\<close>

definition demo_os :: "demo_kernel os" where
  "demo_os =
     \<lparr>sys_recv = (\<lambda>fd n k. (Recv_bytes (take (min 3 (nat n)) (k_incoming k)),
                           k\<lparr>k_incoming := drop (min 3 (nat n)) (k_incoming k)\<rparr>)),
      sys_close = (\<lambda>fd k. (0, k)),
      sys_accept4 = (\<lambda>fd k. case k_clients k of [] \<Rightarrow> (Accept_err EAGAIN, k)
                       | c # cs \<Rightarrow> (Accepted (int c) (replicate 16 0), k\<lparr>k_clients := cs\<rparr>)),
      sys_accept = (\<lambda>fd k. case k_clients k of [] \<Rightarrow> (Accept_err EAGAIN, k)
                       | c # cs \<Rightarrow> (Accepted (int c) (replicate 16 0), k\<lparr>k_clients := cs\<rparr>)),
      sys_ioctl_fionbio = (\<lambda>fd k. (0, k)),
      sys_epoll_create = (\<lambda>n k. (3, k)),
      sys_epoll_ctl = (\<lambda>ep op fd ev k. (0, k\<lparr>k_regs := ev_data ev # k_regs k\<rparr>)),
      sys_epoll_wait = (\<lambda>ep n t k. case k_events k of [] \<Rightarrow> (Wait_events [], k)
                          | es # ess \<Rightarrow> (Wait_events (filter (\<lambda>e. ev_data e \<in> set (k_regs k)) (take n es)),
                                         k\<lparr>k_events := ess\<rparr>)),
      sys_socket = (\<lambda>k. (4, k)),
      sys_setsockopt_reuseaddr = (\<lambda>fd k. (0, k)),
      sys_bind = (\<lambda>fd port k. (0, k)),
      sys_listen = (\<lambda>fd n k. (0, k))\<rparr>"

lemma demo_recv [simp]:
  "sys_recv demo_os fd n k = (Recv_bytes (take (min 3 (nat n)) (k_incoming k)),
                              k\<lparr>k_incoming := drop (min 3 (nat n)) (k_incoming k)\<rparr>)"
  by (simp add: demo_os_def)

lemma demo_close [simp]: "sys_close demo_os fd k = (0, k)"
  by (simp add: demo_os_def)

lemma demo_recv_bounded: "recv_bounded demo_os"
  by (auto simp: recv_bounded_def min_def)

lemma demo_stream_socket: "stream_socket demo_os fd k_incoming"
  by (auto simp: stream_socket_def recv_law_def)

lemma demo_always_ready: "always_ready demo_os fd"
  by (simp add: always_ready_def)

definition demo_regs :: "demo_kernel \<Rightarrow> u64 set" where
  "demo_regs k = set (k_regs k)"

lemma demo_calls [simp]:
  "sys_accept4 demo_os fd k = (case k_clients k of [] \<Rightarrow> (Accept_err EAGAIN, k)
      | c # cs \<Rightarrow> (Accepted (int c) (replicate 16 0), k\<lparr>k_clients := cs\<rparr>))"
  "sys_accept demo_os fd k = (case k_clients k of [] \<Rightarrow> (Accept_err EAGAIN, k)
      | c # cs \<Rightarrow> (Accepted (int c) (replicate 16 0), k\<lparr>k_clients := cs\<rparr>))"
  "sys_ioctl_fionbio demo_os fd k = (0, k)" "sys_epoll_create demo_os n k = (3, k)"
  "sys_epoll_ctl demo_os ep op fd ev k = (0, k\<lparr>k_regs := ev_data ev # k_regs k\<rparr>)"
  "sys_epoll_wait demo_os ep m t k = (case k_events k of [] \<Rightarrow> (Wait_events [], k)
      | es # ess \<Rightarrow> (Wait_events (filter (\<lambda>e. ev_data e \<in> set (k_regs k)) (take m es)),
                     k\<lparr>k_events := ess\<rparr>))"
  "sys_socket demo_os k = (4, k)" "sys_setsockopt_reuseaddr demo_os fd k = (0, k)"
  "sys_bind demo_os fd port k = (0, k)" "sys_listen demo_os fd b k = (0, k)"
  by (simp_all add: demo_os_def)

lemma demo_kernel_ok: "kernel_ok demo_os demo_regs"
  using demo_recv_bounded
  by (auto simp: kernel_ok_def demo_regs_def split: list.splits
      intro: order_trans [OF length_filter_le])

definition demo_kernel0 :: demo_kernel where
  "demo_kernel0 = \<lparr>k_incoming = [], k_clients = [], k_events = [], k_regs = []\<rparr>"

text \<open>A worker with connection 0 waiting for a header on descriptor 5 and connection 1 free.\<close>

definition demo_worker :: "byte list \<Rightarrow> demo_kernel csocket" where
  "demo_worker incoming =
     \<lparr>heap = Map.empty, next_addr = 0, m_worker_connections = 2, m_listenPortCount = 0,
      m_epollhandle = 3, m_pconnections = 4096,
      pool = [(fresh_connection 0 5 (zero_connection\<lparr>c_instance := True\<rparr>))
                \<lparr>rhandler := Some Wait_request_handler\<rparr>,
              zero_connection\<lparr>c_fd := -1, c_instance := True\<rparr>],
      m_pfree_connections = Some 1, m_connection_n = 2, m_free_connection_n = 1,
      m_listenSocketList = [], m_iLenPkgHeader = 8, m_iLenMsgHeader = 16, m_MsgRecvQueue = [],
      use_accept4 = True,
      kern = \<lparr>k_incoming = incoming, k_clients = [], k_events = [], k_regs = []\<rparr>, logs = []\<rparr>"

lemma demo_worker_used: "used [1] (demo_worker w) = {0}"
  by (auto simp: used_def demo_worker_def)

lemma demo_worker_inv: "sock_inv [1] [] (demo_worker w)"
proof -
  have "rx_head 0 (pool (demo_worker w) ! 0) []"
    using rx_head_fresh [of 0 5 "zero_connection\<lparr>c_instance := True\<rparr>"]
    by (simp add: demo_worker_def rx_head_def)
  then have "rx_inv [1] (demo_worker w)"
    unfolding rx_inv_def demo_worker_used rx_state_def by blast
  moreover have "buf_of [1] (demo_worker w) = Map.empty"
    unfolding buf_of_def demo_worker_used
    by (simp add: demo_worker_def fresh_connection_def fun_eq_iff)
  moreover have "pool_wf [1] (demo_worker w)"
    by (auto simp: pool_wf_def demo_worker_def zero_connection_def fresh_connection_def less_Suc_eq)
  ultimately show ?thesis
    by (simp add: sock_inv_def own_inv_def heap_wf_def owns_def sizeof_COMM_PKG_HEADER_def
        sizeof_STRUC_MSG_HEADER_def) (simp_all add: demo_worker_def)
qed

lemma demo_worker_worker: "worker_inv demo_regs [1] [] (demo_worker w)"
  using demo_worker_inv [of w] demo_worker_used [of w]
  by (simp add: worker_inv_but_def)
     (simp add: demo_worker_def pool_placed_def sizeof_connection_def regs_valid_def demo_regs_def)

text \<open>A package of ten bytes, and one that is only a header.\<close>

definition demo_package :: "byte list" where
  "demo_package = [0, 10, 0, 1, 0, 0, 0, 0, 72, 105]"

definition demo_empty_package :: "byte list" where
  "demo_empty_package = [0, 8, 0, 2, 0, 0, 0, 0]"

lemma demo_packages_ok: "package_ok demo_package" "package_ok demo_empty_package"
  by (simp_all add: package_ok_def demo_package_def demo_empty_package_def e_pkgLen_of_be
      bad_len_def sizeof_COMM_PKG_HEADER_def PKG_MAX_LENGTH_def)

text \<open>
  A worker about to start, with two connections, one listening socket, and one client who
  connects and sends a package.
\<close>

definition demo_boot :: "demo_kernel csocket" where
  "demo_boot = (CSocket_new 0 0
      (demo_kernel0\<lparr>k_incoming := demo_package, k_clients := [7],
         k_events := [[\<lparr>ev_events = 1, ev_data = 4096\<rparr>], [\<lparr>ev_events = 1, ev_data = 4240\<rparr>]]\<rparr>))
    \<lparr>m_worker_connections := 2,
     m_listenSocketList := [\<lparr>l_port = 10000, l_fd = 4, l_connection = None\<rparr>]\<rparr>"

lemma demo_boot_ready:
  "socket_ready demo_boot" "demo_regs (kern demo_boot) = {}"
  "pool_placed 4096 (nat (m_worker_connections demo_boot))" "0 \<le> m_worker_connections demo_boot"
  by (simp_all add: socket_ready_def demo_boot_def CSocket_new_def demo_regs_def demo_kernel0_def
      pool_placed_def sizeof_connection_def)

lemma demo_boot_init: "\<exists>s1. epoll_init demo_os 4096 (\<lambda>i. zero_connection) demo_boot = Inr (1, s1)"
  by (simp add: epoll_init_def demo_boot_def CSocket_new_def demo_kernel0_def get_connection_def
      epoll_add_event_def upd_conn_def zero_connection_def numeral_2_eq_2 Let_def)

section \<open>Processes\<close>

text \<open>
  A second kernel for the process calls: the results \<open>fork\<close> is going to give, the children that have
  ended, and how often \<open>waitpid\<close> is still interrupted. The network calls are those of
  \<open>demo_os\<close> on the field \<open>k_net\<close>.
\<close>

record demo_pkernel =
  k_net :: demo_kernel
  k_forks :: "int list"
  k_fork_count :: nat
  k_dead :: "(int \<times> u32) list"
  k_interrupts :: nat

definition on_net :: "(demo_kernel \<Rightarrow> 'a \<times> demo_kernel) \<Rightarrow> demo_pkernel \<Rightarrow> 'a \<times> demo_pkernel" where
  "on_net f k = (let (r, n) = f (k_net k) in (r, k\<lparr>k_net := n\<rparr>))"

definition demo_pos_os :: "demo_pkernel os" where
  "demo_pos_os =
     \<lparr>sys_recv = (\<lambda>fd n. on_net (sys_recv demo_os fd n)),
      sys_close = (\<lambda>fd. on_net (sys_close demo_os fd)),
      sys_accept4 = (\<lambda>fd. on_net (sys_accept4 demo_os fd)),
      sys_accept = (\<lambda>fd. on_net (sys_accept demo_os fd)),
      sys_ioctl_fionbio = (\<lambda>fd. on_net (sys_ioctl_fionbio demo_os fd)),
      sys_epoll_create = (\<lambda>n. on_net (sys_epoll_create demo_os n)),
      sys_epoll_ctl = (\<lambda>ep op fd ev. on_net (sys_epoll_ctl demo_os ep op fd ev)),
      sys_epoll_wait = (\<lambda>ep n t. on_net (sys_epoll_wait demo_os ep n t)),
      sys_socket = on_net (sys_socket demo_os),
      sys_setsockopt_reuseaddr = (\<lambda>fd. on_net (sys_setsockopt_reuseaddr demo_os fd)),
      sys_bind = (\<lambda>fd port. on_net (sys_bind demo_os fd port)),
      sys_listen = (\<lambda>fd n. on_net (sys_listen demo_os fd n))\<rparr>"

definition demo_proc_os :: "demo_pkernel proc_os" where
  "demo_proc_os =
     \<lparr>sys_sigaction = (\<lambda>n a k. (0, k)),
      sys_waitpid = (\<lambda>k.
        if 0 < k_interrupts k then (Wait_error EINTR, k\<lparr>k_interrupts := k_interrupts k - 1\<rparr>)
        else case k_dead k of [] \<Rightarrow> (Wait_error ECHILD, k)
             | c # cs \<Rightarrow> (Wait_child (fst c) (snd c), k\<lparr>k_dead := cs\<rparr>)),
      sys_fork = (\<lambda>k. let k1 = k\<lparr>k_fork_count := Suc (k_fork_count k)\<rparr>
                      in case k_forks k of [] \<Rightarrow> (-1, k1) | r # rs \<Rightarrow> (r, k1\<lparr>k_forks := rs\<rparr>)),
      sys_sigprocmask_block = (\<lambda>l k. (0, k)),
      sys_sigprocmask_set = (\<lambda>l k. (0, k)),
      sys_setsid = (\<lambda>k. (0, k)),
      sys_umask0 = (\<lambda>k. k),
      sys_open_null = (\<lambda>k. (3, k)),
      sys_dup2 = (\<lambda>a b k. (b, k)),
      sys_pclose = (\<lambda>fd k. (0, k)),
      sys_sigsuspend = (\<lambda>k. ((SIGCHLD, None), k)),
      sys_fopen_append = (\<lambda>f k. (True, k))\<rparr>"

lemma demo_proc_calls [simp]:
  "sys_sigaction demo_proc_os n a k = (0, k)" "sys_sigprocmask_block demo_proc_os l k = (0, k)"
  "sys_sigprocmask_set demo_proc_os l k = (0, k)" "sys_fopen_append demo_proc_os f k = (True, k)"
  "sys_setsid demo_proc_os k = (0, k)" "sys_umask0 demo_proc_os k = k"
  "sys_open_null demo_proc_os k = (3, k)" "sys_dup2 demo_proc_os x y k = (y, k)"
  "sys_pclose demo_proc_os fd k = (0, k)"
  "sys_fork demo_proc_os k = (let k1 = k\<lparr>k_fork_count := Suc (k_fork_count k)\<rparr>
     in case k_forks k of [] \<Rightarrow> (-1, k1) | r # rs \<Rightarrow> (r, k1\<lparr>k_forks := rs\<rparr>))"
  by (simp_all add: demo_proc_os_def)

lemma demo_forks: "forks_law demo_proc_os k_fork_count"
  by (auto simp: forks_law_def Let_def split: list.split)

lemma demo_waitpid: "waitpid_law demo_proc_os k_dead (\<lambda>k. False) k_interrupts"
  by (auto simp: waitpid_law_def demo_proc_os_def split: list.splits)

definition demo_pkernel0 :: demo_pkernel where
  "demo_pkernel0 = \<lparr>k_net = demo_kernel0, k_forks = [], k_fork_count = 0, k_dead = [], k_interrupts = 0\<rparr>"

lemma demo_pos_kernel_ok: "kernel_ok demo_pos_os (\<lambda>k. demo_regs (k_net k))"
proof -
  have "recv_bounded demo_pos_os"
    by (auto simp: recv_bounded_def demo_pos_os_def on_net_def min_def)
  then show ?thesis
    by (auto simp: kernel_ok_def demo_pos_os_def on_net_def demo_regs_def split: list.splits prod.splits
        intro: order_trans [OF length_filter_le])
qed

definition demo_proc :: "demo_pkernel \<Rightarrow> ConfigItem list \<Rightarrow> demo_pkernel proc" where
  "demo_proc k conf =
     \<lparr>g_socket = CSocket_new 0 0 k, processType = MasterProcess, invalidProcess = 0,
      m_configItemList = conf, currentLogLevel = L_INF, plogs = []\<rparr>"

definition demo_log_conf :: "ConfigItem list" where
  "demo_log_conf = [\<lparr>ItemName = ''Log'', ItemContent = ''log''\<rparr>]"

lemma demo_log_lookup:
  "getString demo_log_conf ''Log'' = Some ''log''" "getIntDefault demo_log_conf ''LogLevel'' 1 = 1"
  "getIntDefault demo_log_conf ''Daemon'' 0 = 0" "getIntDefault demo_log_conf ''WorkerProcesses'' 1 = 1"
  "getIntDefault demo_log_conf ''ListenPortCount'' 1 = 1"
  "getIntDefault demo_log_conf ''worker_connections'' 1 = 1"
  "getIntDefault demo_log_conf (''ListenPort'' @ dec_of_nat 0) 10000 = 10000"
  by code_simp+

end
