(* ===== verification/Log_Queue.thy ===== *)
theory Log_Queue
  imports Prelude
begin

text \<open>
  \<open>SPSCVarQueueOPT\<close> of \<open>log/fmtlog.h\<close>: the queue between the thread that logs and the thread that
  polls. The array of \<open>BLK_CNT\<close> headers is its bytes; the producer reserves a run of blocks
  (\<open>alloc\<close>), fills it, and publishes it by storing its size (\<open>push\<close>); the consumer looks at the
  oldest message (\<open>front\<close>) and releases it (\<open>pop\<close>). A size of 0 means nothing is there yet,
  1 that the queue goes on at block 0.
\<close>

section \<open>Bytes in memory\<close>

type_synonym bytes_mem = "nat \<Rightarrow> byte"

definition get_bytes :: "bytes_mem \<Rightarrow> nat \<Rightarrow> nat \<Rightarrow> byte list" where
  "get_bytes m a n = map m [a..<a + n]"

definition put_bytes :: "nat \<Rightarrow> byte list \<Rightarrow> bytes_mem \<Rightarrow> bytes_mem" where
  "put_bytes a bs m = (\<lambda>i. if a \<le> i \<and> i < a + length bs then bs ! (i - a) else m i)"

definition get32 :: "bytes_mem \<Rightarrow> nat \<Rightarrow> u32" where
  "get32 m a = of_nat (le_val (get_bytes m a 4))"

definition put32 :: "nat \<Rightarrow> u32 \<Rightarrow> bytes_mem \<Rightarrow> bytes_mem" where
  "put32 a v m = put_bytes a (le_bytes 4 (unat v)) m"

lemma length_get_bytes [simp, mem_simps]: "length (get_bytes m a n) = n"
  by (simp add: get_bytes_def)

lemma get_bytes_cong:
  "(\<And>k. a \<le> k \<Longrightarrow> k < a + n \<Longrightarrow> m' k = m k) \<Longrightarrow> get_bytes m' a n = get_bytes m a n"
  by (simp add: get_bytes_def)

lemma get_put_bytes [simp, mem_simps]: "length bs = n \<Longrightarrow> get_bytes (put_bytes a bs m) a n = bs"
  by (rule nth_equalityI) (simp_all add: get_bytes_def put_bytes_def)

lemma get32_cong: "(\<And>k. a \<le> k \<Longrightarrow> k < a + 4 \<Longrightarrow> m' k = m k) \<Longrightarrow> get32 m' a = get32 m a"
  unfolding get32_def by (simp cong: get_bytes_cong)

lemma get_put32 [simp, mem_simps]: "get32 (put32 a v m) a = v"
proof -
  have "le_val (le_bytes 4 (unat v)) = unat v"
    by (rule le_val_le_bytes) (use unsigned_less [of v] in simp)
  then show ?thesis
    by (simp add: get32_def put32_def)
qed

lemma put_bytes_other: "k < a \<or> a + length bs \<le> k \<Longrightarrow> put_bytes a bs m k = m k"
  by (auto simp: put_bytes_def)

lemma put32_other: "k < a \<or> a + 4 \<le> k \<Longrightarrow> put32 a v m k = m k"
  by (simp add: put32_def put_bytes_other)

section \<open>The queue\<close>

definition BLK_CNT :: nat where "BLK_CNT = 2 ^ 20 div 8"

record varq =
  q_blk :: bytes_mem
  write_idx :: u32
  free_write_cnt :: u32
  read_idx :: u32

definition varq_new :: varq where
  "varq_new = \<lparr>q_blk = (\<lambda>i. 0), write_idx = 0, free_write_cnt = of_nat BLK_CNT, read_idx = 0\<rparr>"

text \<open>\<open>blk[i].size\<close>, and storing it.\<close>

definition size_at :: "bytes_mem \<Rightarrow> nat \<Rightarrow> u32" where "size_at m i = get32 m (8 * i)"

definition logId_at :: "bytes_mem \<Rightarrow> nat \<Rightarrow> u32" where "logId_at m i = get32 m (8 * i + 4)"

definition set_size :: "nat \<Rightarrow> u32 \<Rightarrow> bytes_mem \<Rightarrow> bytes_mem" where
  "set_size i v m = put32 (8 * i) v m"

definition load_size :: "u32 \<Rightarrow> varq \<Rightarrow> u32 res" where
  "load_size i q =
     (if unat i < BLK_CNT then Inr (size_at (q_blk q) (unat i)) else Inl (Fault Out_of_bounds))"

definition store_size :: "u32 \<Rightarrow> u32 \<Rightarrow> varq \<Rightarrow> varq res" where
  "store_size i v q =
     (if unat i < BLK_CNT then Inr (q\<lparr>q_blk := set_size (unat i) v (q_blk q)\<rparr>)
      else Inl (Fault Out_of_bounds))"

text \<open>The blocks of \<open>size\<close> bytes; \<open>size\<close> includes the header.\<close>

definition blk_sz :: "u32 \<Rightarrow> u32" where "blk_sz sz = (sz + 8 - 1) div 8"

text \<open>
  \<open>alloc\<close> in the pieces between which another thread can look at the queue: the first store of the
  wrap-around, the second one with what follows it, the case without wrap-around, and the
  reservation.
\<close>

definition must_wrap :: "u32 \<Rightarrow> u32 \<Rightarrow> varq \<Rightarrow> bool" where
  "must_wrap rc b q \<longleftrightarrow> rc \<le> write_idx q \<and> of_nat BLK_CNT - write_idx q \<le> b \<and> rc \<noteq> 0"

definition wrap_zero :: "varq \<Rightarrow> varq res" where
  "wrap_zero q = store_size 0 0 (q\<lparr>free_write_cnt := of_nat BLK_CNT - write_idx q\<rparr>)"

definition wrap_mark :: "u32 \<Rightarrow> varq \<Rightarrow> varq res" where
  "wrap_mark rc q =
     bind_res (store_size (write_idx q) 1 q) (\<lambda>q1. Inr (q1\<lparr>write_idx := 0, free_write_cnt := rc\<rparr>))"

definition refill :: "u32 \<Rightarrow> varq \<Rightarrow> varq" where
  "refill rc q =
     (if rc \<le> write_idx q then q\<lparr>free_write_cnt := of_nat BLK_CNT - write_idx q\<rparr>
      else q\<lparr>free_write_cnt := rc - write_idx q\<rparr>)"

definition reserve :: "u32 \<Rightarrow> varq \<Rightarrow> (u32 \<times> varq) res" where
  "reserve b q =
     (let ret = write_idx q;
          q1 = q\<lparr>write_idx := write_idx q + b, free_write_cnt := free_write_cnt q - b\<rparr>
      in bind_res (store_size (write_idx q1) 0 q1) (\<lambda>q2. Inr (ret, q2)))"

definition alloc :: "u32 \<Rightarrow> varq \<Rightarrow> (u32 option \<times> varq) res" where
  "alloc sz q =
     (let b = blk_sz (sz + 8)
      in if free_write_cnt q \<le> b
         then bind_res (let read_idx_cache = read_idx q
                        in if must_wrap read_idx_cache b q
                           then bind_res (wrap_zero q) (wrap_mark read_idx_cache)
                           else Inr (refill read_idx_cache q)) (\<lambda>q1.
              if free_write_cnt q1 \<le> b then Inr (None, q1)
              else bind_res (reserve b q1) (\<lambda>(i, q2). Inr (Some i, q2)))
         else bind_res (reserve b q) (\<lambda>(i, q2). Inr (Some i, q2)))"

text \<open>\<open>MsgHeader::push\<close>; \<open>h\<close> is the index of the header.\<close>

definition push :: "u32 \<Rightarrow> u32 \<Rightarrow> varq \<Rightarrow> varq res" where
  "push h sz q = store_size h (sz + 8) q"

definition front :: "varq \<Rightarrow> (u32 option \<times> varq) res" where
  "front q =
     bind_res (load_size (read_idx q) q) (\<lambda>sz.
     bind_res (if sz = 1
               then (let q1 = q\<lparr>read_idx := 0\<rparr> in bind_res (load_size 0 q1) (\<lambda>sz. Inr (sz, q1)))
               else Inr (sz, q)) (\<lambda>(sz, q1).
       if sz = 0 then Inr (None, q1) else Inr (Some (read_idx q1), q1)))"

definition pop :: "varq \<Rightarrow> varq res" where
  "pop q = bind_res (load_size (read_idx q) q) (\<lambda>sz. Inr (q\<lparr>read_idx := read_idx q + blk_sz sz\<rparr>))"

text \<open>
  What \<open>log\<close> and \<open>logOnce\<close> store between \<open>alloc\<close> and \<open>push\<close>: the log id in the header, then the
  payload from \<open>header + 1\<close> on. Reading a message: the payload ends at \<open>header->size\<close>.
\<close>

type_synonym log_msg_bytes = "u32 \<times> byte list"

definition fill :: "u32 \<Rightarrow> log_msg_bytes \<Rightarrow> varq \<Rightarrow> varq res" where
  "fill h x q =
     (if 8 * unat h + 8 + length (snd x) \<le> 8 * BLK_CNT
      then Inr (q\<lparr>q_blk := put_bytes (8 * unat h + 8) (snd x) (put32 (8 * unat h + 4) (fst x) (q_blk q))\<rparr>)
      else Inl (Fault Out_of_bounds))"

definition read_msg :: "u32 \<Rightarrow> varq \<Rightarrow> log_msg_bytes" where
  "read_msg h q =
     (logId_at (q_blk q) (unat h),
      get_bytes (q_blk q) (8 * unat h + 8) (unat (size_at (q_blk q) (unat h)) - 8))"

section \<open>Messages in the array\<close>

definition nblk :: "log_msg_bytes \<Rightarrow> nat" where "nblk x = (length (snd x) + 15) div 8"

lemma nblk_pos [simp]: "0 < nblk x" "nblk x \<noteq> 0"
  by (simp_all add: nblk_def)

lemma nblk_bytes: "length (snd x) + 8 \<le> 8 * nblk x"
  by (simp add: nblk_def)

lemma unat_blk_sz: "unat v + 7 < 2 ^ 32 \<Longrightarrow> unat (blk_sz v) = (unat v + 7) div 8"
proof -
  assume *: "unat v + 7 < 2 ^ 32"
  have "v + 8 - 1 = v + 7" by simp
  moreover have "unat (v + 7) = unat v + 7"
    using * by (subst unat_add_lem [THEN iffD1]) simp_all
  ultimately show ?thesis
    by (simp only: blk_sz_def unat_div) simp
qed

definition msg_fits :: "log_msg_bytes \<Rightarrow> bool" where "msg_fits x \<longleftrightarrow> length (snd x) + 15 < 2 ^ 32"

definition msg_size :: "log_msg_bytes \<Rightarrow> u32" where "msg_size x = of_nat (length (snd x))"

lemma unat_msg_size: "msg_fits x \<Longrightarrow> unat (msg_size x) = length (snd x)"
  by (simp add: msg_fits_def msg_size_def unat_of_nat take_bit_nat_eq_self)

lemma unat_msg_size_8: "msg_fits x \<Longrightarrow> unat (msg_size x + 8) = length (snd x) + 8"
  by (subst unat_add_lem [THEN iffD1]) (simp_all add: unat_msg_size, simp add: msg_fits_def)

lemma unat_blk_sz_msg: "msg_fits x \<Longrightarrow> unat (blk_sz (msg_size x + 8)) = nblk x"
  by (subst unat_blk_sz) (simp_all add: unat_msg_size_8 nblk_def msg_fits_def)

lemma msg_size_8_nontrivial: "msg_fits x \<Longrightarrow> msg_size x + 8 \<noteq> 0 \<and> msg_size x + 8 \<noteq> 1"
  using unat_msg_size_8 [of x] by (cases "msg_size x + 8 = 0"; cases "msg_size x + 8 = 1") simp_all

text \<open>Message \<open>x\<close> lies at block \<open>i\<close>; the messages \<open>xs\<close> lie one after the other from \<open>i\<close> to \<open>j\<close>.\<close>

definition msg_at :: "bytes_mem \<Rightarrow> nat \<Rightarrow> log_msg_bytes \<Rightarrow> bool" where
  "msg_at m i x \<longleftrightarrow> msg_fits x \<and> size_at m i = msg_size x + 8 \<and> logId_at m i = fst x \<and>
     get_bytes m (8 * i + 8) (length (snd x)) = snd x"

primrec seg :: "bytes_mem \<Rightarrow> nat \<Rightarrow> nat \<Rightarrow> log_msg_bytes list \<Rightarrow> bool" where
  "seg m i j [] \<longleftrightarrow> i = j"
| "seg m i j (x # xs) \<longleftrightarrow> msg_at m i x \<and> seg m (i + nblk x) j xs"

lemma seg_le: "seg m i j xs \<Longrightarrow> i \<le> j"
  by (induction xs arbitrary: i) fastforce+

lemma msg_at_cong:
  assumes "\<And>k. 8 * i \<le> k \<Longrightarrow> k < 8 * (i + nblk x) \<Longrightarrow> m' k = m k"
  shows "msg_at m' i x = msg_at m i x"
proof -
  have "get32 m' (8 * i) = get32 m (8 * i)" "get32 m' (8 * i + 4) = get32 m (8 * i + 4)"
    "get_bytes m' (8 * i + 8) (length (snd x)) = get_bytes m (8 * i + 8) (length (snd x))"
    using assms nblk_bytes [of x] by (auto intro!: get32_cong get_bytes_cong)
  then show ?thesis
    by (simp add: msg_at_def size_at_def logId_at_def)
qed

lemma seg_cong:
  assumes "\<And>k. 8 * i \<le> k \<Longrightarrow> k < 8 * j \<Longrightarrow> m' k = m k"
  shows "seg m' i j xs = seg m i j xs"
  using assms
proof (induction xs arbitrary: i)
  case Nil
  then show ?case by simp
next
  case (Cons x xs)
  show ?case
  proof (cases "i + nblk x \<le> j")
    case True
    have "msg_at m' i x = msg_at m i x"
      using Cons.prems True by (intro msg_at_cong) simp
    moreover have "seg m' (i + nblk x) j xs = seg m (i + nblk x) j xs"
      using Cons.prems by (intro Cons.IH) simp
    ultimately show ?thesis by simp
  next
    case False
    then show ?thesis using seg_le by auto
  qed
qed

lemma seg_snoc: "seg m i j xs \<Longrightarrow> msg_at m j x \<Longrightarrow> k = j + nblk x \<Longrightarrow> seg m i k (xs @ [x])"
  by (induction xs arbitrary: i) auto

lemma msg_at_size: "msg_at m i x \<Longrightarrow> size_at m i \<noteq> 0 \<and> size_at m i \<noteq> 1"
  using msg_size_8_nontrivial [of x] by (simp add: msg_at_def)

lemma seg_empty: "seg m i j xs \<Longrightarrow> size_at m j \<in> {0, 1} \<Longrightarrow> size_at m i \<in> {0, 1} \<Longrightarrow> xs = []"
  by (cases xs) (auto dest: msg_at_size)

lemma size_at_set [simp, mem_simps]:
  "size_at (set_size i v m) j = (if i = j then v else size_at m j)"
proof (cases "i = j")
  case True
  then show ?thesis by (simp add: size_at_def set_size_def)
next
  case False
  then have "get32 (put32 (8 * i) v m) (8 * j) = get32 m (8 * j)"
    by (intro get32_cong put32_other) linarith
  then show ?thesis
    using False by (simp add: size_at_def set_size_def)
qed

lemma set_size_other: "i < 8 * k \<or> 8 * k + 4 \<le> i \<Longrightarrow> set_size k v m i = m i"
  by (simp add: set_size_def put32_other)

lemma seg_set: "k < i \<or> j \<le> k \<Longrightarrow> seg (set_size k v m) i j xs = seg m i j xs"
  by (intro seg_cong set_size_other) auto

end
