(* ===== verification/Log_Ring.thy ===== *)
theory Log_Ring
  imports Log_Queue
begin

text \<open>
  Correctness of the log queue. \<open>layout\<close> says where the unread messages lie; \<open>ring_inv\<close> adds what
  each side may rely on while the other one is in the middle of an operation. The two threads are
  the step functions \<open>producer_step\<close> and \<open>consumer_step\<close>, which share the queue and interleave at
  every single store and load of a size or of an index.
\<close>

section \<open>The layout\<close>

text \<open>
  Unread messages from \<open>r\<close> to \<open>t\<close>, or, wrapped around, from \<open>r\<close> to a mark and then from 0 to \<open>t\<close>.
\<close>

definition layout :: "bytes_mem \<Rightarrow> nat \<Rightarrow> nat \<Rightarrow> log_msg_bytes list \<Rightarrow> bool" where
  "layout m r t xs \<longleftrightarrow> size_at m t = 0 \<and> t < BLK_CNT \<and>
     (if r \<le> t then seg m r t xs
      else \<exists>e a b. xs = a @ b \<and> seg m r e a \<and> e < BLK_CNT \<and> size_at m e = 1 \<and> seg m 0 t b)"

lemma layout_bounds: "layout m r t xs \<Longrightarrow> r < BLK_CNT \<and> t < BLK_CNT"
  by (auto simp: layout_def dest!: seg_le split: if_splits)

lemma layout_wrapI:
  "t < r \<Longrightarrow> size_at m t = 0 \<Longrightarrow> t < BLK_CNT \<Longrightarrow> seg m r e a \<Longrightarrow> e < BLK_CNT \<Longrightarrow> size_at m e = 1 \<Longrightarrow>
   seg m 0 t b \<Longrightarrow> xs = a @ b \<Longrightarrow> layout m r t xs"
  by (auto simp: layout_def)

lemma layout_wrapE:
  assumes "layout m r t xs" "\<not> r \<le> t"
  obtains e a b where "xs = a @ b" "seg m r e a" "e < BLK_CNT" "size_at m e = 1" "seg m 0 t b"
    "r \<le> e" "size_at m t = 0" "t < BLK_CNT"
  using assms seg_le by (auto simp: layout_def)

lemma layout_store_ahead:
  assumes l: "layout m r t xs" and k: "t < k" "t < r \<Longrightarrow> k < r"
  shows "layout (set_size k v m) r t xs"
proof (cases "r \<le> t")
  case True
  then show ?thesis using l k by (simp add: layout_def seg_set)
next
  case False
  with l show ?thesis
  proof (rule layout_wrapE)
    fix e a b
    assume "xs = a @ b" "seg m r e a" "e < BLK_CNT" "size_at m e = 1" "seg m 0 t b" "r \<le> e"
      "size_at m t = 0" "t < BLK_CNT"
    then show ?thesis
      using k False by (intro layout_wrapI [of t r _ e a b]) (simp_all add: seg_set)
  qed
qed

lemma layout_wrap_zero:
  "layout m r t xs \<Longrightarrow> r \<le> t \<Longrightarrow> 0 < r \<Longrightarrow> layout (set_size 0 0 m) r t xs"
  unfolding layout_def using seg_set [of 0 r t 0 m xs] size_at_set [of 0 0 m t] by auto

lemma layout_wrap_mark:
  assumes "layout m r t xs" "r \<le> t" "0 < r" "size_at m 0 = 0"
  shows "layout (set_size t 1 m) r 0 xs"
proof -
  have "seg (set_size t 1 m) r t xs"
    using assms by (simp add: layout_def seg_set)
  then show ?thesis
    using assms by (intro layout_wrapI [of 0 r _ t xs "[]"]) (auto simp: layout_def)
qed

lemma layout_cong:
  assumes "layout m r t xs" "t < k" "t < r \<Longrightarrow> k \<le> r"
    and same: "\<And>i. i < 8 * t + 4 \<or> 8 * k \<le> i \<Longrightarrow> m' i = m i"
  shows "layout m' r t xs"
proof -
  have sz: "size_at m' j = size_at m j" if "j \<le> t \<or> k \<le> j" for j
    unfolding size_at_def using that by (intro get32_cong same) linarith
  have sg: "seg m' i j ys = seg m i j ys" if "j \<le> t \<or> k \<le> i" for i j ys
    using that by (intro seg_cong same) linarith
  show ?thesis
  proof (cases "r \<le> t")
    case True
    then show ?thesis using assms(1) by (simp add: layout_def sz sg)
  next
    case False
    with assms(1) show ?thesis
    proof (rule layout_wrapE)
      fix e a b
      assume "xs = a @ b" "seg m r e a" "e < BLK_CNT" "size_at m e = 1" "seg m 0 t b" "r \<le> e"
        "size_at m t = 0" "t < BLK_CNT"
      then show ?thesis
        using assms(3) False by (intro layout_wrapI [of t r _ e a b]) (simp_all add: sz sg)
    qed
  qed
qed

lemma layout_push:
  assumes "layout m r t xs" "msg_at (set_size t v m) t x" "size_at m (t + nblk x) = 0"
    "t + nblk x < BLK_CNT" "t < r \<Longrightarrow> t + nblk x < r"
  shows "layout (set_size t v m) r (t + nblk x) (xs @ [x])"
proof -
  let ?m = "set_size t v m"
  have sz: "size_at ?m (t + nblk x) = 0"
    using assms(3) nblk_pos [of x] by simp
  show ?thesis
  proof (cases "r \<le> t")
    case True
    then have "seg ?m r t xs"
      using assms(1) by (simp add: layout_def seg_set)
    then have "seg ?m r (t + nblk x) (xs @ [x])"
      using assms(2) by (rule seg_snoc) simp
    then show ?thesis
      using True assms(4) sz by (simp add: layout_def)
  next
    case False
    then obtain e a b where l: "xs = a @ b" "seg m r e a" "e < BLK_CNT" "size_at m e = 1" "seg m 0 t b"
      using assms(1) by (auto simp: layout_def)
    have "seg ?m r e a" "seg ?m 0 t b"
      using l False by (simp_all add: seg_set)
    moreover have "t < e"
      using l(2) False seg_le by fastforce
    moreover have "seg ?m 0 (t + nblk x) (b @ [x])"
      using \<open>seg ?m 0 t b\<close> assms(2) by (rule seg_snoc) simp
    ultimately show ?thesis
      using l False assms(4,5) sz by (intro layout_wrapI [of _ r _ e a "b @ [x]"]) auto
  qed
qed

lemma layout_no_mark: "layout m r t xs \<Longrightarrow> r \<le> t \<Longrightarrow> size_at m r \<noteq> 1"
  by (cases xs) (auto simp: layout_def dest: msg_at_size)

lemma layout_unwrap: "layout m r t xs \<Longrightarrow> size_at m r = 1 \<Longrightarrow> t < r \<and> layout m 0 t xs"
proof -
  assume l: "layout m r t xs" and 1: "size_at m r = 1"
  have "t < r"
    using layout_no_mark [OF l] 1 by (metis not_less)
  then obtain e a b where "xs = a @ b" "seg m r e a" "size_at m e = 1" "seg m 0 t b" "t < BLK_CNT"
      "size_at m t = 0"
    using l by (auto simp: layout_def)
  moreover have "a = []"
    using seg_empty [OF \<open>seg m r e a\<close>] \<open>size_at m e = 1\<close> 1 by simp
  ultimately show ?thesis
    using \<open>t < r\<close> by (simp add: layout_def)
qed

lemma layout_at_end: "layout m r t xs \<Longrightarrow> size_at m r = 0 \<Longrightarrow> xs = [] \<and> r = t"
proof (cases "r \<le> t")
  case True
  assume "layout m r t xs" "size_at m r = 0"
  then show ?thesis
    using True seg_empty [of m r t xs] by (auto simp: layout_def)
next
  case False
  assume l: "layout m r t xs" and 0: "size_at m r = 0"
  then obtain e a where "seg m r e a" "size_at m e = 1"
    using False by (auto simp: layout_def)
  moreover from this have "a = []"
    using seg_empty [of m r e a] 0 by simp
  ultimately show ?thesis using 0 by simp
qed

lemma layout_first:
  assumes "layout m r t xs" "size_at m r \<notin> {0, 1}"
  obtains x ys where "xs = x # ys" "msg_at m r x" "layout m (r + nblk x) t ys"
    "r \<le> t \<Longrightarrow> r + nblk x \<le> t"
proof (cases "r \<le> t")
  case True
  then have s: "seg m r t xs" "size_at m t = 0" "t < BLK_CNT"
    using assms(1) by (auto simp: layout_def)
  show ?thesis
  proof (cases xs)
    case Nil
    then show ?thesis using s assms(2) by simp
  next
    case (Cons x ys)
    moreover from this s have "seg m (r + nblk x) t ys" by simp
    ultimately show ?thesis
      using s seg_le [of m "r + nblk x" t ys] by (intro that [of x ys]) (auto simp: layout_def)
  qed
next
  case False
  then obtain e a b where l: "xs = a @ b" "seg m r e a" "e < BLK_CNT" "size_at m e = 1" "seg m 0 t b"
      "t < BLK_CNT" "size_at m t = 0"
    using assms(1) by (auto simp: layout_def)
  show ?thesis
  proof (cases a)
    case Nil
    then show ?thesis using l assms(2) by simp
  next
    case (Cons x a')
    then show ?thesis
      using l False by (intro that [of x "a' @ b"]) (auto simp: layout_def)
  qed
qed

section \<open>The two threads\<close>

text \<open>
  Where the producer stands in logging message \<open>x\<close>: before \<open>alloc\<close>; \<open>read_idx\<close> loaded into the
  local cache; first store of the wrap-around done; \<open>free_write_cnt\<close> up to date; blocks reserved;
  message written but not yet pushed.
\<close>

datatype producer =
    P_idle
  | P_loaded u32 log_msg_bytes
  | P_zeroed u32 log_msg_bytes
  | P_ready log_msg_bytes
  | P_reserved u32 log_msg_bytes
  | P_filled u32 log_msg_bytes

text \<open>
  Where the consumer stands: before \<open>front\<close>; in \<open>front\<close>, a size of 1 loaded; \<open>read_idx\<close> stored as 0;
  \<open>front\<close> has returned the header at an index; the message there has been handled; in \<open>pop\<close>, its size
  loaded.
\<close>

datatype consumer =
    C_idle
  | C_mark
  | C_first
  | C_held u32
  | C_handled log_msg_bytes
  | C_popping u32 log_msg_bytes

text \<open>\<open>pushed\<close> and \<open>popped\<close> record what went in and what came out.\<close>

record log_sys =
  ring :: varq
  phase :: producer
  cphase :: consumer
  pushed :: "log_msg_bytes list"
  popped :: "log_msg_bytes list"

definition log_sys_init :: log_sys where
  "log_sys_init = \<lparr>ring = varq_new, phase = P_idle, cphase = C_idle, pushed = [], popped = []\<rparr>"

abbreviation need_blocks :: "log_msg_bytes \<Rightarrow> u32" where
  "need_blocks x \<equiv> blk_sz (msg_size x + 8)"

fun producer_step :: "log_msg_bytes \<Rightarrow> log_sys \<Rightarrow> log_sys res" where
  "producer_step y s =
     (let q = ring s
      in case phase s of
           P_idle \<Rightarrow>
             Inr (s\<lparr>phase := (if free_write_cnt q \<le> need_blocks y then P_loaded (read_idx q) y
                             else P_ready y)\<rparr>)
         | P_loaded c x \<Rightarrow>
             if must_wrap c (need_blocks x) q
             then bind_res (wrap_zero q) (\<lambda>q1. Inr (s\<lparr>ring := q1, phase := P_zeroed c x\<rparr>))
             else Inr (s\<lparr>ring := refill c q, phase := P_ready x\<rparr>)
         | P_zeroed c x \<Rightarrow>
             bind_res (wrap_mark c q) (\<lambda>q1. Inr (s\<lparr>ring := q1, phase := P_ready x\<rparr>))
         | P_ready x \<Rightarrow>
             if free_write_cnt q \<le> need_blocks x then Inr (s\<lparr>phase := P_idle\<rparr>)
             else bind_res (reserve (need_blocks x) q)
                    (\<lambda>(i, q1). Inr (s\<lparr>ring := q1, phase := P_reserved i x\<rparr>))
         | P_reserved i x \<Rightarrow>
             bind_res (fill i x q) (\<lambda>q1. Inr (s\<lparr>ring := q1, phase := P_filled i x\<rparr>))
         | P_filled i x \<Rightarrow>
             bind_res (push i (msg_size x) q)
               (\<lambda>q1. Inr (s\<lparr>ring := q1, phase := P_idle, pushed := pushed s @ [x]\<rparr>)))"

text \<open>
  Each step of the consumer is one load or store of a size or of an index; the bytes of a message, which
  the producer does not touch between its \<open>push\<close> and its \<open>pop\<close>, are read in one step, as they are written
  in one step by the producer (\<open>P_reserved\<close>).
\<close>

definition consumer_step :: "log_sys \<Rightarrow> log_sys res" where
  "consumer_step s =
     (let q = ring s
      in case cphase s of
           C_idle \<Rightarrow>
             bind_res (load_size (read_idx q) q)
               (\<lambda>sz. Inr (s\<lparr>cphase := (if sz = 1 then C_mark else if sz = 0 then C_idle
                                        else C_held (read_idx q))\<rparr>))
         | C_mark \<Rightarrow> Inr (s\<lparr>ring := q\<lparr>read_idx := 0\<rparr>, cphase := C_first\<rparr>)
         | C_first \<Rightarrow>
             bind_res (load_size 0 q)
               (\<lambda>sz. Inr (s\<lparr>cphase := (if sz = 0 then C_idle else C_held (read_idx q))\<rparr>))
         | C_held h \<Rightarrow> Inr (s\<lparr>cphase := C_handled (read_msg h q)\<rparr>)
         | C_handled x \<Rightarrow>
             bind_res (load_size (read_idx q) q) (\<lambda>sz. Inr (s\<lparr>cphase := C_popping sz x\<rparr>))
         | C_popping sz x \<Rightarrow>
             Inr (s\<lparr>ring := q\<lparr>read_idx := read_idx q + blk_sz sz\<rparr>, cphase := C_idle,
                    popped := popped s @ [x]\<rparr>))"

text \<open>Undisturbed, the steps of the consumer are \<open>front\<close> and \<open>pop\<close>.\<close>

lemma front_by_steps:
  assumes "front (ring s) = Inr (r, q)" "cphase s = C_idle"
  shows "\<exists>n \<le> 3. iterate_res consumer_step n s =
    Inr (s\<lparr>ring := q, cphase := (case r of None \<Rightarrow> C_idle | Some h \<Rightarrow> C_held h)\<rparr>)"
proof (cases "size_at (q_blk (ring s)) (unat (read_idx (ring s))) = 1")
  case True
  then have "iterate_res consumer_step (Suc (Suc (Suc 0))) s =
      Inr (s\<lparr>ring := q, cphase := (case r of None \<Rightarrow> C_idle | Some h \<Rightarrow> C_held h)\<rparr>)"
    using assms by (auto simp: consumer_step_def front_def load_size_def Let_def split: if_splits)
  then show ?thesis by (intro exI [of _ 3]) (simp add: eval_nat_numeral)
next
  case False
  then have "iterate_res consumer_step (Suc 0) s =
      Inr (s\<lparr>ring := q, cphase := (case r of None \<Rightarrow> C_idle | Some h \<Rightarrow> C_held h)\<rparr>)"
    using assms by (auto simp: consumer_step_def front_def load_size_def Let_def split: if_splits)
  then show ?thesis by (intro exI [of _ "Suc 0"]) simp
qed

lemma pop_by_steps:
  assumes "pop (ring s) = Inr q" "cphase s = C_handled x"
  shows "iterate_res consumer_step (Suc (Suc 0)) s =
    Inr (s\<lparr>ring := q, cphase := C_idle, popped := popped s @ [x]\<rparr>)"
  using assms by (auto simp: consumer_step_def pop_def load_size_def Let_def split: if_splits)

inductive log_step :: "log_sys \<Rightarrow> log_sys \<Rightarrow> bool" where
  Produce: "msg_fits x \<Longrightarrow> producer_step x s = Inr s' \<Longrightarrow> log_step s s'"
| Consume: "consumer_step s = Inr s' \<Longrightarrow> log_step s s'"

inductive_cases log_stepE [elim!]: "log_step s s'"

inductive log_reach :: "log_sys \<Rightarrow> bool" where
  Start: "log_reach log_sys_init"
| Step: "log_reach s \<Longrightarrow> log_step s s' \<Longrightarrow> log_reach s'"

section \<open>The invariant\<close>

text \<open>Where the published messages end.\<close>

definition tail_of :: "varq \<Rightarrow> producer \<Rightarrow> nat" where
  "tail_of q ph = (case ph of P_reserved i x \<Rightarrow> unat i | P_filled i x \<Rightarrow> unat i
                   | _ \<Rightarrow> unat (write_idx q))"

definition phase_inv :: "varq \<Rightarrow> producer \<Rightarrow> bool" where
  "phase_inv q ph =
     (let m = q_blk q; r = unat (read_idx q); w = unat (write_idx q)
      in case ph of
           P_idle \<Rightarrow> True
         | P_loaded c x \<Rightarrow> msg_fits x \<and>
             (if r \<le> w then unat c \<le> r \<or> (w < unat c \<and> unat c \<le> BLK_CNT)
              else w < unat c \<and> unat c \<le> r)
         | P_zeroed c x \<Rightarrow> msg_fits x \<and> r \<le> w \<and> 0 < unat c \<and> unat c \<le> r \<and> size_at m 0 = 0
         | P_ready x \<Rightarrow> msg_fits x
         | P_reserved i x \<Rightarrow> msg_fits x \<and> unat i + nblk x = w \<and> size_at m w = 0
         | P_filled i x \<Rightarrow> msg_fits x \<and> unat i + nblk x = w \<and> size_at m w = 0 \<and>
             logId_at m (unat i) = fst x \<and> get_bytes m (8 * unat i + 8) (length (snd x)) = snd x)"

definition ring_inv :: "varq \<Rightarrow> producer \<Rightarrow> bool \<Rightarrow> log_msg_bytes list \<Rightarrow> bool" where
  "ring_inv q ph holds xs \<longleftrightarrow>
     layout (q_blk q) (unat (read_idx q)) (tail_of q ph) xs \<and> 0 < unat (free_write_cnt q) \<and>
     unat (write_idx q) + unat (free_write_cnt q) \<le>
       (if unat (read_idx q) \<le> tail_of q ph then BLK_CNT else unat (read_idx q)) \<and>
     (holds \<longrightarrow> size_at (q_blk q) (unat (read_idx q)) \<notin> {0, 1}) \<and> phase_inv q ph"

lemma BLK_CNT_u32 [simp]: "unat (of_nat BLK_CNT :: u32) = BLK_CNT"
  by (simp add: BLK_CNT_def)

lemma BLK_CNT_less: "BLK_CNT < 2 ^ 17 + 1"
  by (simp add: BLK_CNT_def)

lemma ring_inv_bounds:
  assumes "ring_inv q ph holds xs"
  shows "unat (read_idx q) < BLK_CNT" "unat (write_idx q) < BLK_CNT" "tail_of q ph < BLK_CNT"
proof -
  have l: "layout (q_blk q) (unat (read_idx q)) (tail_of q ph) xs"
    using assms by (simp add: ring_inv_def)
  show "unat (read_idx q) < BLK_CNT" "tail_of q ph < BLK_CNT"
    using layout_bounds [OF l] by simp_all
  then show "unat (write_idx q) < BLK_CNT"
    using assms by (auto simp: ring_inv_def split: if_splits)
qed

section \<open>The producer keeps the invariant\<close>

lemma tail_of_simps [simp]:
  "tail_of q P_idle = unat (write_idx q)" "tail_of q (P_loaded c x) = unat (write_idx q)"
  "tail_of q (P_zeroed c x) = unat (write_idx q)" "tail_of q (P_ready x) = unat (write_idx q)"
  "tail_of q (P_reserved i x) = unat i" "tail_of q (P_filled i x) = unat i"
  by (simp_all add: tail_of_def)

lemma ring_inv_start:
  "ring_inv q P_idle h xs \<Longrightarrow> msg_fits x \<Longrightarrow> ring_inv q (P_loaded (read_idx q) x) h xs"
  "ring_inv q P_idle h xs \<Longrightarrow> msg_fits x \<Longrightarrow> ring_inv q (P_ready x) h xs"
  "ring_inv q (P_ready x) h xs \<Longrightarrow> ring_inv q P_idle h xs"
  by (auto simp: ring_inv_def phase_inv_def Let_def)

lemma unat_room: "unat (write_idx q) < BLK_CNT \<Longrightarrow>
   unat (of_nat BLK_CNT - write_idx q) = BLK_CNT - unat (write_idx q)"
  by (subst unat_sub) (simp_all add: word_le_nat_alt)

lemma ring_inv_refill:
  assumes inv: "ring_inv q (P_loaded c x) h xs" and no: "\<not> must_wrap c b q"
  shows "ring_inv (refill c q) (P_ready x) h xs"
proof -
  note bnd = ring_inv_bounds [OF inv]
  show ?thesis
  proof (cases "c \<le> write_idx q")
    case True
    then show ?thesis
      using inv bnd by (auto simp: ring_inv_def phase_inv_def refill_def unat_room word_le_nat_alt Let_def
          split: if_splits)
  next
    case False
    then have "unat (c - write_idx q) = unat c - unat (write_idx q)"
      by (subst unat_sub) (simp_all add: word_le_nat_alt)
    then show ?thesis
      using inv bnd False by (auto simp: ring_inv_def phase_inv_def refill_def word_le_nat_alt Let_def
          split: if_splits)
  qed
qed

lemma ring_inv_wrap_zero:
  assumes inv: "ring_inv q (P_loaded c x) h xs" and wrap: "must_wrap c b q"
  shows "\<exists>q'. wrap_zero q = Inr q' \<and> ring_inv q' (P_zeroed c x) h xs"
proof -
  note bnd = ring_inv_bounds [OF inv]
  let ?r = "unat (read_idx q)" and ?w = "unat (write_idx q)"
  have c: "unat c \<le> ?w" "0 < unat c"
    using wrap by (auto simp: must_wrap_def word_le_nat_alt unat_gt_0)
  then have r: "?r \<le> ?w" "unat c \<le> ?r"
    using inv by (auto simp: ring_inv_def phase_inv_def Let_def split: if_splits)
  have l: "layout (q_blk q) ?r ?w xs"
    using inv by (simp add: ring_inv_def)
  then have "layout (set_size 0 0 (q_blk q)) ?r ?w xs"
    using r c by (intro layout_wrap_zero) simp_all
  then show ?thesis
    using inv bnd c r unfolding ring_inv_def phase_inv_def
    by (simp add: wrap_zero_def store_size_def unat_room Let_def)
qed

lemma ring_inv_wrap_mark:
  assumes inv: "ring_inv q (P_zeroed c x) h xs"
  shows "\<exists>q'. wrap_mark c q = Inr q' \<and> ring_inv q' (P_ready x) h xs"
proof -
  note bnd = ring_inv_bounds [OF inv]
  let ?r = "unat (read_idx q)" and ?w = "unat (write_idx q)"
  have c: "msg_fits x" "?r \<le> ?w" "0 < unat c" "unat c \<le> ?r" "size_at (q_blk q) 0 = 0"
    "layout (q_blk q) ?r ?w xs" "h \<longrightarrow> size_at (q_blk q) ?r \<notin> {0, 1}"
    using inv by (auto simp: ring_inv_def phase_inv_def Let_def)
  then have "layout (set_size ?w 1 (q_blk q)) ?r 0 xs"
    by (intro layout_wrap_mark) simp_all
  moreover have "h \<longrightarrow> ?r \<noteq> ?w"
    using c by (auto simp: layout_def)
  ultimately show ?thesis
    using c bnd by (auto simp: wrap_mark_def store_size_def ring_inv_def phase_inv_def Let_def)
qed

lemma ring_inv_reserve:
  assumes inv: "ring_inv q (P_ready x) h xs" and room: "\<not> free_write_cnt q \<le> need_blocks x"
  shows "\<exists>q'. reserve (need_blocks x) q = Inr (write_idx q, q') \<and>
           ring_inv q' (P_reserved (write_idx q) x) h xs"
proof -
  note bnd = ring_inv_bounds [OF inv]
  let ?r = "unat (read_idx q)" and ?w = "unat (write_idx q)" and ?f = "unat (free_write_cnt q)"
  let ?lim = "if ?r \<le> ?w then BLK_CNT else ?r"
  have x: "msg_fits x" "layout (q_blk q) ?r ?w xs" "?w + ?f \<le> ?lim" "h \<longrightarrow> size_at (q_blk q) ?r \<notin> {0, 1}"
    using inv by (auto simp: ring_inv_def phase_inv_def Let_def)
  have n: "unat (need_blocks x) = nblk x"
    using x(1) by (rule unat_blk_sz_msg)
  have f: "nblk x < ?f"
    using room n by (simp add: word_le_nat_alt)
  have lim: "?lim \<le> BLK_CNT" using bnd by simp
  have w: "unat (write_idx q + need_blocks x) = ?w + nblk x"
    using n f x(3) lim BLK_CNT_less by (subst unat_add_lem [THEN iffD1]) simp_all
  have f': "unat (free_write_cnt q - need_blocks x) = ?f - nblk x"
    using n f by (subst unat_sub) (simp_all add: word_le_nat_alt)
  have end_ok: "?w + nblk x < ?lim"
    using f x(3) by simp
  have "layout (set_size (?w + nblk x) 0 (q_blk q)) ?r ?w xs"
    using x(2) end_ok nblk_pos [of x] by (intro layout_store_ahead) (auto split: if_splits)
  moreover have "?r \<noteq> ?w + nblk x"
    using end_ok nblk_pos(1) [of x] by (auto split: if_splits)
  ultimately show ?thesis
    using x end_ok lim f w f' by (auto simp: reserve_def store_size_def ring_inv_def phase_inv_def Let_def)
qed

lemma ring_inv_fill:
  assumes inv: "ring_inv q (P_reserved i x) h xs"
  shows "\<exists>q'. fill i x q = Inr q' \<and> ring_inv q' (P_filled i x) h xs"
proof -
  note bnd = ring_inv_bounds [OF inv]
  let ?r = "unat (read_idx q)" and ?w = "unat (write_idx q)" and ?m = "q_blk q" and ?i = "unat i"
  let ?m' = "put_bytes (8 * ?i + 8) (snd x) (put32 (8 * ?i + 4) (fst x) ?m)"
  have x: "msg_fits x" "layout ?m ?r ?i xs" "?i + nblk x = ?w" "size_at ?m ?w = 0"
    "?w + unat (free_write_cnt q) \<le> (if ?r \<le> ?i then BLK_CNT else ?r)"
    "h \<longrightarrow> size_at ?m ?r \<notin> {0, 1}" "0 < unat (free_write_cnt q)"
    using inv by (auto simp: ring_inv_def phase_inv_def Let_def)
  have same: "?m' k = ?m k" if "k < 8 * ?i + 4 \<or> 8 * ?w \<le> k" for k
    using that nblk_bytes [of x] x(3) by (subst put_bytes_other; (subst put32_other)?) auto
  have "?i < ?w"
    using x(3) nblk_pos(1) [of x] by linarith
  then have l: "layout ?m' ?r ?i xs"
    using x same by (intro layout_cong [OF x(2), of ?w]) (auto split: if_splits)
  have sz: "size_at ?m' j = size_at ?m j" if "j \<le> ?i \<or> ?w \<le> j" for j
    unfolding size_at_def using that by (intro get32_cong same) linarith
  have "h \<longrightarrow> size_at ?m' ?r \<notin> {0, 1}"
    using x sz [of ?r] by (cases "?r \<le> ?i") auto
  moreover have "logId_at ?m' ?i = fst x"
  proof -
    have "get32 ?m' (8 * ?i + 4) = get32 (put32 (8 * ?i + 4) (fst x) ?m) (8 * ?i + 4)"
      by (intro get32_cong put_bytes_other) simp
    then show ?thesis by (simp add: logId_at_def)
  qed
  moreover have "get_bytes ?m' (8 * ?i + 8) (length (snd x)) = snd x"
    by simp
  moreover have "8 * ?i + 8 + length (snd x) \<le> 8 * BLK_CNT"
    using nblk_bytes [of x] x(3) bnd(2) by linarith
  ultimately show ?thesis
    using x l sz [of ?w] by (auto simp: fill_def ring_inv_def phase_inv_def Let_def split: if_splits)
qed

lemma ring_inv_push:
  assumes inv: "ring_inv q (P_filled i x) h xs"
  shows "\<exists>q'. push i (msg_size x) q = Inr q' \<and> ring_inv q' P_idle h (xs @ [x])"
proof -
  note bnd = ring_inv_bounds [OF inv]
  let ?r = "unat (read_idx q)" and ?w = "unat (write_idx q)" and ?m = "q_blk q" and ?i = "unat i"
  let ?m' = "set_size ?i (msg_size x + 8) ?m"
  have x: "msg_fits x" "layout ?m ?r ?i xs" "?i + nblk x = ?w" "size_at ?m ?w = 0"
    "?w + unat (free_write_cnt q) \<le> (if ?r \<le> ?i then BLK_CNT else ?r)"
    "h \<longrightarrow> size_at ?m ?r \<notin> {0, 1}" "0 < unat (free_write_cnt q)"
    "logId_at ?m ?i = fst x" "get_bytes ?m (8 * ?i + 8) (length (snd x)) = snd x"
    using inv by (auto simp: ring_inv_def phase_inv_def Let_def)
  have "logId_at ?m' ?i = logId_at ?m ?i"
    unfolding logId_at_def by (intro get32_cong set_size_other) simp
  moreover have "get_bytes ?m' (8 * ?i + 8) (length (snd x)) = get_bytes ?m (8 * ?i + 8) (length (snd x))"
    by (intro get_bytes_cong set_size_other) simp
  ultimately have "msg_at ?m' ?i x"
    using x by (simp add: msg_at_def)
  then have "layout ?m' ?r (?i + nblk x) (xs @ [x])"
    using x bnd by (intro layout_push) auto
  moreover have "h \<longrightarrow> size_at ?m' ?r \<notin> {0, 1}"
    using x(6) msg_size_8_nontrivial [OF x(1)] by simp
  moreover have "(?r \<le> ?i) = (?r \<le> ?w)"
    using x(3,5,7) by (auto split: if_splits)
  ultimately show ?thesis
    using x bnd by (auto simp: push_def store_size_def ring_inv_def phase_inv_def Let_def split: if_splits)
qed

section \<open>The consumer keeps the invariant\<close>

lemma ring_inv_unwrap:
  assumes inv: "ring_inv q ph h xs" and 1: "size_at (q_blk q) (unat (read_idx q)) = 1"
  shows "ring_inv (q\<lparr>read_idx := 0\<rparr>) ph False xs \<and> size_at (q_blk q) 0 \<noteq> 1"
proof -
  note bnd = ring_inv_bounds [OF inv]
  have t: "tail_of (q\<lparr>read_idx := 0\<rparr>) ph = tail_of q ph"
    by (simp add: tail_of_def split: producer.split)
  have l: "tail_of q ph < unat (read_idx q)" "layout (q_blk q) 0 (tail_of q ph) xs"
    using inv 1 layout_unwrap [of "q_blk q" "unat (read_idx q)" "tail_of q ph" xs]
    by (simp_all add: ring_inv_def)
  have "phase_inv (q\<lparr>read_idx := 0\<rparr>) ph"
    using inv l(1) bnd by (cases ph) (auto simp: ring_inv_def phase_inv_def Let_def)
  then show ?thesis
    using inv l t bnd layout_no_mark [OF l(2)] by (auto simp: ring_inv_def)
qed

lemma ring_inv_front_here:
  assumes inv: "ring_inv q ph h xs" and no: "size_at (q_blk q) (unat (read_idx q)) \<noteq> 1"
  shows "if size_at (q_blk q) (unat (read_idx q)) = 0 then xs = []
         else xs \<noteq> [] \<and> read_msg (read_idx q) q = hd xs \<and> ring_inv q ph True xs"
proof (cases "size_at (q_blk q) (unat (read_idx q)) = 0")
  case True
  then show ?thesis
    using inv layout_at_end by (auto simp: ring_inv_def)
next
  case False
  let ?m = "q_blk q" and ?r = "unat (read_idx q)"
  have l: "layout ?m ?r (tail_of q ph) xs"
    using inv by (simp add: ring_inv_def)
  have s: "size_at ?m ?r \<notin> {0, 1}"
    using False no by simp
  from l s obtain x ys where x: "xs = x # ys" "msg_at ?m ?r x"
    by (rule layout_first)
  then have "read_msg (read_idx q) q = x"
    using unat_msg_size_8 [of x] by (simp add: read_msg_def msg_at_def prod_eq_iff)
  then show ?thesis
    using False inv x s by (simp add: ring_inv_def)
qed

lemma ring_inv_pop:
  assumes inv: "ring_inv q ph True xs"
  shows "\<exists>q'. pop q = Inr q' \<and> xs \<noteq> [] \<and> read_msg (read_idx q) q = hd xs \<and> ring_inv q' ph False (tl xs) \<and>
    (unat (read_idx q) \<le> tail_of q ph \<longrightarrow> unat (read_idx q') \<le> tail_of q' ph)"
proof -
  note bnd = ring_inv_bounds [OF inv]
  let ?m = "q_blk q" and ?r = "unat (read_idx q)" and ?t = "tail_of q ph"
  have s: "size_at ?m ?r \<notin> {0, 1}" and l: "layout ?m ?r ?t xs"
    using inv by (simp_all add: ring_inv_def)
  from l s obtain x ys where x: "xs = x # ys" "msg_at ?m ?r x" "layout ?m (?r + nblk x) ?t ys"
    "?r \<le> ?t \<Longrightarrow> ?r + nblk x \<le> ?t"
    by (rule layout_first) blast
  have b: "unat (blk_sz (size_at ?m ?r)) = nblk x"
    using x(2) unat_blk_sz_msg by (simp add: msg_at_def)
  have r: "unat (read_idx q + blk_sz (size_at ?m ?r)) = ?r + nblk x"
    using b layout_bounds [OF x(3)] BLK_CNT_less by (subst unat_add_lem [THEN iffD1]) simp_all
  let ?q' = "q\<lparr>read_idx := read_idx q + blk_sz (size_at ?m ?r)\<rparr>"
  have t: "tail_of ?q' ph = ?t"
    by (simp add: tail_of_def split: producer.split)
  have "phase_inv ?q' ph"
    using inv x(4) r layout_bounds [OF x(3)]
    by (cases ph) (auto simp: ring_inv_def phase_inv_def Let_def split: if_splits)
  then have "ring_inv ?q' ph False ys"
    using inv x r t by (auto simp: ring_inv_def split: if_splits)
  moreover have "read_msg (read_idx q) q = x"
    using x(2) unat_msg_size_8 [of x] by (simp add: read_msg_def msg_at_def prod_eq_iff)
  ultimately show ?thesis
    using x(1,4) r t bnd by (simp add: pop_def load_size_def)
qed

section \<open>What the producer leaves alone\<close>

text \<open>A size the consumer has loaded, other than 0, stays as it is until the consumer moves on.\<close>

definition kept :: "varq \<Rightarrow> varq \<Rightarrow> bool" where
  "kept q q' \<longleftrightarrow> read_idx q' = read_idx q \<and>
     (size_at (q_blk q) (unat (read_idx q)) \<noteq> 0 \<longrightarrow>
      size_at (q_blk q') (unat (read_idx q)) = size_at (q_blk q) (unat (read_idx q)))"

lemma kept_refl [simp]: "kept q q" "kept q (refill c q)"
  by (simp_all add: kept_def refill_def)

lemma kept_wrap_zero:
  assumes "ring_inv q (P_loaded c x) h xs" "must_wrap c b q" "wrap_zero q = Inr q'"
  shows "kept q q'"
proof -
  have "0 < unat c" "unat c \<le> unat (write_idx q)"
    using assms(2) by (auto simp: must_wrap_def word_le_nat_alt unat_gt_0)
  then have "0 < unat (read_idx q)"
    using assms(1) by (auto simp: ring_inv_def phase_inv_def Let_def split: if_splits)
  then show ?thesis
    using assms(3) by (auto simp: kept_def wrap_zero_def store_size_def split: if_splits)
qed

lemma kept_wrap_mark:
  assumes "ring_inv q (P_zeroed c x) h xs" "wrap_mark c q = Inr q'"
  shows "kept q q'"
proof -
  have "size_at (q_blk q) (unat (write_idx q)) = 0"
    using assms(1) by (simp add: ring_inv_def layout_def)
  then show ?thesis
    using assms(2) by (auto simp: kept_def wrap_mark_def store_size_def split: if_splits)
qed

lemma kept_reserve:
  assumes inv: "ring_inv q (P_ready x) h xs" and room: "\<not> free_write_cnt q \<le> need_blocks x"
    and r: "reserve (need_blocks x) q = Inr (i, q')"
  shows "kept q q'"
proof -
  have i: "i = write_idx q" "read_idx q' = read_idx q" "write_idx q' = write_idx q + need_blocks x"
    "q_blk q' = set_size (unat (write_idx q + need_blocks x)) 0 (q_blk q)"
    using r by (auto simp: reserve_def store_size_def Let_def split: if_splits)
  then have "ring_inv q' (P_reserved (write_idx q) x) h xs"
    using ring_inv_reserve [OF inv room] r by auto
  then have w: "unat (write_idx q) + nblk x = unat (write_idx q')" "0 < unat (free_write_cnt q')"
    "unat (write_idx q') + unat (free_write_cnt q') \<le>
      (if unat (read_idx q) \<le> unat (write_idx q) then BLK_CNT else unat (read_idx q))"
    using i(2) by (simp_all add: ring_inv_def phase_inv_def Let_def split: if_splits)
  then have "unat (read_idx q) \<le> unat (write_idx q) \<or>
      unat (write_idx q') + unat (free_write_cnt q') \<le> unat (read_idx q)"
    by (simp split: if_splits)
  then have "unat (read_idx q) \<noteq> unat (write_idx q + need_blocks x)"
    using w(1,2) nblk_pos(1) [of x] unfolding i(3) [symmetric] by linarith
  then show ?thesis
    using i by (simp add: kept_def)
qed

lemma kept_fill:
  assumes inv: "ring_inv q (P_reserved i x) h xs" and f: "fill i x q = Inr q'"
  shows "kept q q'"
proof -
  let ?i = "unat i" and ?w = "unat (write_idx q)" and ?r = "unat (read_idx q)"
  have x: "?i + nblk x = ?w" "?w + unat (free_write_cnt q) \<le> (if ?r \<le> ?i then BLK_CNT else ?r)"
    using inv by (auto simp: ring_inv_def phase_inv_def Let_def)
  have q': "q_blk q' = put_bytes (8 * ?i + 8) (snd x) (put32 (8 * ?i + 4) (fst x) (q_blk q))"
    "read_idx q' = read_idx q"
    using f by (auto simp: fill_def split: if_splits)
  have "q_blk q' k = q_blk q k" if "k < 8 * ?i + 4 \<or> 8 * ?w \<le> k" for k
    using that nblk_bytes [of x] x(1) unfolding q' by (subst put_bytes_other; (subst put32_other)?) auto
  moreover have "?r \<le> ?i \<or> ?w \<le> ?r"
    using x(2) by (auto split: if_splits)
  ultimately have "size_at (q_blk q') ?r = size_at (q_blk q) ?r"
    unfolding size_at_def by (intro get32_cong) auto
  then show ?thesis
    using q'(2) by (simp add: kept_def)
qed

lemma kept_push:
  assumes "ring_inv q (P_filled i x) h xs" "push i n q = Inr q'"
  shows "kept q q'"
proof -
  have "size_at (q_blk q) (unat i) = 0"
    using assms(1) by (simp add: ring_inv_def layout_def)
  then show ?thesis
    using assms(2) by (auto simp: kept_def push_def store_size_def split: if_splits)
qed

section \<open>The system\<close>

definition holds :: "consumer \<Rightarrow> bool" where
  "holds c = (case c of C_held h \<Rightarrow> True | C_handled x \<Rightarrow> True | C_popping sz x \<Rightarrow> True | _ \<Rightarrow> False)"

lemma holds_simps [simp]:
  "\<not> holds C_idle" "\<not> holds C_mark" "\<not> holds C_first" "holds (C_held h)" "holds (C_handled x)"
  "holds (C_popping sz x)"
  by (simp_all add: holds_def)

definition reader_inv :: "varq \<Rightarrow> consumer \<Rightarrow> log_msg_bytes list \<Rightarrow> bool" where
  "reader_inv q c xs \<longleftrightarrow>
     (case c of
        C_idle \<Rightarrow> True
      | C_mark \<Rightarrow> size_at (q_blk q) (unat (read_idx q)) = 1
      | C_first \<Rightarrow> read_idx q = 0
      | C_held h \<Rightarrow> h = read_idx q
      | C_handled x \<Rightarrow> xs \<noteq> [] \<and> x = hd xs
      | C_popping sz x \<Rightarrow> xs \<noteq> [] \<and> x = hd xs \<and> sz = size_at (q_blk q) (unat (read_idx q)))"

lemma reader_inv_simps [simp]:
  "reader_inv q C_idle xs" "reader_inv q C_mark xs \<longleftrightarrow> size_at (q_blk q) (unat (read_idx q)) = 1"
  "reader_inv q C_first xs \<longleftrightarrow> read_idx q = 0" "reader_inv q (C_held h) xs \<longleftrightarrow> h = read_idx q"
  "reader_inv q (C_handled x) xs \<longleftrightarrow> xs \<noteq> [] \<and> x = hd xs"
  "reader_inv q (C_popping sz x) xs \<longleftrightarrow>
     xs \<noteq> [] \<and> x = hd xs \<and> sz = size_at (q_blk q) (unat (read_idx q))"
  by (simp_all add: reader_inv_def)

definition sys_inv_at :: "log_sys \<Rightarrow> log_msg_bytes list \<Rightarrow> bool" where
  "sys_inv_at s xs \<longleftrightarrow> ring_inv (ring s) (phase s) (holds (cphase s)) xs \<and> pushed s = popped s @ xs \<and>
     reader_inv (ring s) (cphase s) xs"

definition sys_inv :: "log_sys \<Rightarrow> bool" where
  "sys_inv s \<longleftrightarrow> (\<exists>xs. sys_inv_at s xs)"

text \<open>What the consumer knows survives the steps of the producer.\<close>

lemma reader_inv_kept:
  assumes "reader_inv q c xs" "kept q q'" "ring_inv q ph (holds c) xs"
  shows "reader_inv q' c (xs @ new)"
  using assms by (cases c) (auto simp: kept_def ring_inv_def)

lemma ring_inv_new: "ring_inv varq_new P_idle False []"
proof -
  have "size_at (\<lambda>i. 0) 0 = 0"
    by (simp add: size_at_def get32_def get_bytes_def upt_rec)
  then show ?thesis
    by (simp add: ring_inv_def phase_inv_def varq_new_def layout_def, simp add: BLK_CNT_def)
qed

lemma sys_inv_init: "sys_inv log_sys_init"
  using ring_inv_new by (simp add: sys_inv_def sys_inv_at_def log_sys_init_def)

text \<open>The producer leaves the consumer's index alone.\<close>

lemma producer_read_idx:
  "wrap_zero q = Inr q' \<Longrightarrow> read_idx q' = read_idx q" "wrap_mark c q = Inr q' \<Longrightarrow> read_idx q' = read_idx q"
  "read_idx (refill c q) = read_idx q" "reserve b q = Inr (i, q') \<Longrightarrow> read_idx q' = read_idx q"
  "fill i x q = Inr q' \<Longrightarrow> read_idx q' = read_idx q" "push i n q = Inr q' \<Longrightarrow> read_idx q' = read_idx q"
  by (auto simp: wrap_zero_def wrap_mark_def refill_def reserve_def fill_def push_def store_size_def Let_def
      split: if_splits)

definition produced :: "log_sys \<Rightarrow> log_msg_bytes list \<Rightarrow> log_sys \<Rightarrow> log_msg_bytes list \<Rightarrow> bool" where
  "produced s xs s' new \<longleftrightarrow>
     ring_inv (ring s') (phase s') (holds (cphase s)) (xs @ new) \<and> kept (ring s) (ring s') \<and>
     pushed s' = pushed s @ new \<and> popped s' = popped s \<and> cphase s' = cphase s"

lemma producer_step_loaded:
  assumes inv: "ring_inv (ring s) (P_loaded c x) (holds (cphase s)) xs" and ph: "phase s = P_loaded c x"
  shows "\<exists>s'. producer_step y s = Inr s' \<and> produced s xs s' []"
proof (cases "must_wrap c (need_blocks x) (ring s)")
  case True
  then obtain q' where "wrap_zero (ring s) = Inr q'" "ring_inv q' (P_zeroed c x) (holds (cphase s)) xs"
    using inv ring_inv_wrap_zero by metis
  then show ?thesis
    using ph True kept_wrap_zero [OF inv True] by (simp add: produced_def)
next
  case False
  then show ?thesis
    using ring_inv_refill [OF inv False] ph by (simp add: produced_def)
qed

lemma producer_step_ready:
  assumes inv: "ring_inv (ring s) (P_ready x) (holds (cphase s)) xs" and ph: "phase s = P_ready x"
  shows "\<exists>s'. producer_step y s = Inr s' \<and> produced s xs s' []"
proof (cases "free_write_cnt (ring s) \<le> need_blocks x")
  case True
  then show ?thesis
    using ph ring_inv_start(3) [OF inv] by (simp add: produced_def)
next
  case False
  then obtain q' where "reserve (need_blocks x) (ring s) = Inr (write_idx (ring s), q')"
    "ring_inv q' (P_reserved (write_idx (ring s)) x) (holds (cphase s)) xs"
    using inv ring_inv_reserve by metis
  then show ?thesis
    using ph False kept_reserve [OF inv False] by (simp add: produced_def)
qed

lemma producer_step_produced:
  assumes inv: "ring_inv (ring s) (phase s) (holds (cphase s)) xs" and y: "msg_fits y"
  shows "\<exists>s' new. producer_step y s = Inr s' \<and> produced s xs s' new"
proof (cases "phase s")
  case P_idle
  then show ?thesis
    using inv y ring_inv_start(1,2) [of "ring s" _ xs y]
    by (cases "free_write_cnt (ring s) \<le> need_blocks y") (fastforce simp: produced_def)+
next
  case (P_loaded c x)
  then show ?thesis using producer_step_loaded [of s c x xs y] inv by auto
next
  case (P_zeroed c x)
  then obtain q' where "wrap_mark c (ring s) = Inr q'" "ring_inv q' (P_ready x) (holds (cphase s)) xs"
    using inv ring_inv_wrap_mark by metis
  then show ?thesis
    using P_zeroed inv kept_wrap_mark
    by (intro exI [of _ "s\<lparr>ring := q', phase := P_ready x\<rparr>"] exI [of _ "[]"]) (auto simp: produced_def)
next
  case (P_ready x)
  then show ?thesis using producer_step_ready [of s x xs y] inv by auto
next
  case (P_reserved i x)
  then obtain q' where "fill i x (ring s) = Inr q'" "ring_inv q' (P_filled i x) (holds (cphase s)) xs"
    using inv ring_inv_fill by metis
  then show ?thesis
    using P_reserved inv kept_fill
    by (intro exI [of _ "s\<lparr>ring := q', phase := P_filled i x\<rparr>"] exI [of _ "[]"]) (auto simp: produced_def)
next
  case (P_filled i x)
  then obtain q' where "push i (msg_size x) (ring s) = Inr q'"
    "ring_inv q' P_idle (holds (cphase s)) (xs @ [x])"
    using inv ring_inv_push by metis
  then show ?thesis
    using P_filled inv kept_push
    by (intro exI [of _ "s\<lparr>ring := q', phase := P_idle, pushed := pushed s @ [x]\<rparr>"] exI [of _ "[x]"])
      (auto simp: produced_def)
qed

lemma producer_step_ok:
  assumes "sys_inv s" "msg_fits y"
  shows "\<exists>s'. producer_step y s = Inr s' \<and> sys_inv s'"
proof -
  obtain xs where inv: "sys_inv_at s xs"
    using assms(1) by (auto simp: sys_inv_def)
  then obtain s' new where s': "producer_step y s = Inr s'" "produced s xs s' new"
    using producer_step_produced [OF _ assms(2)] unfolding sys_inv_at_def by blast
  then have "sys_inv_at s' (xs @ new)"
    using inv reader_inv_kept [of "ring s" "cphase s" xs "ring s'" "phase s" new]
    by (simp add: sys_inv_at_def produced_def)
  then show ?thesis
    using s'(1) unfolding sys_inv_def by blast
qed

lemma front_ok:
  assumes inv: "ring_inv q ph h xs"
  shows "\<exists>r q'. front q = Inr (r, q') \<and> ring_inv q' ph (r \<noteq> None) xs \<and>
    (case r of None \<Rightarrow> xs = [] \<and> unat (read_idx q') = tail_of q' ph
     | Some i \<Rightarrow> i = read_idx q' \<and> xs \<noteq> [] \<and> read_msg i q' = hd xs)"
proof -
  note bnd = ring_inv_bounds [OF inv]
  have keep: "ring_inv q' ph False xs" if "ring_inv q' ph h' xs" for q' h'
    using that by (simp add: ring_inv_def)
  have at_end: "unat (read_idx q') = tail_of q' ph"
    if "ring_inv q' ph h' xs" "size_at (q_blk q') (unat (read_idx q')) = 0" for q' h'
    using that layout_at_end by (auto simp: ring_inv_def)
  show ?thesis
  proof (cases "size_at (q_blk q) (unat (read_idx q)) = 1")
    case True
    let ?q' = "q\<lparr>read_idx := 0\<rparr>"
    have u: "ring_inv ?q' ph False xs" "size_at (q_blk ?q') (unat (read_idx ?q')) \<noteq> 1"
      using ring_inv_unwrap [OF inv True] by simp_all
    show ?thesis
      using ring_inv_front_here [OF u] u at_end [OF u(1)] bnd True
      by (auto simp: front_def load_size_def split: if_splits)
  next
    case False
    show ?thesis
      using ring_inv_front_here [OF inv False] keep [OF inv] at_end [OF inv] bnd False
      by (auto simp: front_def load_size_def split: if_splits)
  qed
qed

lemma reader_at_mark:
  assumes "sys_inv_at s xs" "cphase s = C_mark"
  shows "ring_inv ((ring s)\<lparr>read_idx := 0\<rparr>) (phase s) False xs"
    "\<not> unat (read_idx (ring s)) \<le> tail_of (ring s) (phase s)"
  using assms ring_inv_unwrap [of "ring s" "phase s" False xs]
    layout_unwrap [of "q_blk (ring s)" "unat (read_idx (ring s))" "tail_of (ring s) (phase s)" xs]
  by (auto simp: sys_inv_at_def ring_inv_def)

text \<open>
  How many steps the consumer needs to empty the queue: four for each message, two more for a
  wrap-around that is still ahead, less those already made for the current one.
\<close>

definition work :: "log_sys \<Rightarrow> log_msg_bytes list \<Rightarrow> nat" where
  "work s xs = 4 * length xs + (if unat (read_idx (ring s)) \<le> tail_of (ring s) (phase s) then 0 else 2) -
     (case cphase s of C_idle \<Rightarrow> 0 | C_mark \<Rightarrow> 1 | C_first \<Rightarrow> 0 | C_held h \<Rightarrow> 1 | C_handled x \<Rightarrow> 2
      | C_popping sz x \<Rightarrow> 3)"

lemma work_pos: "xs \<noteq> [] \<Longrightarrow> 0 < work s xs"
  by (cases xs) (auto simp: work_def split: consumer.split)

lemma work_le: "work s xs \<le> 4 * length xs + 2"
  unfolding work_def by (rule order_trans [OF diff_le_self]) simp

definition consumed :: "log_sys \<Rightarrow> log_msg_bytes list \<Rightarrow> log_sys \<Rightarrow> bool" where
  "consumed s xs s' \<longleftrightarrow> (\<exists>xs'. sys_inv_at s' xs' \<and> pushed s' = pushed s \<and>
     (if xs = [] then xs' = [] else work s' xs' < work s xs))"

lemma consumer_step_front:
  assumes inv: "sys_inv_at s xs" and no: "size_at (q_blk (ring s)) (unat (read_idx (ring s))) \<noteq> 1"
    and c: "cphase s = C_idle \<or> cphase s = C_first"
  shows "\<exists>s'. consumer_step s = Inr s' \<and> consumed s xs s'"
proof -
  let ?q = "ring s" and ?c = "\<lambda>sz. if sz = 0 then C_idle else C_held (read_idx (ring s))"
  let ?sz = "size_at (q_blk ?q) (unat (read_idx ?q))"
  have r: "ring_inv ?q (phase s) False xs" "pushed s = popped s @ xs"
    using inv c by (auto simp: sys_inv_at_def)
  note bnd = ring_inv_bounds [OF r(1)]
  have "consumer_step s = Inr (s\<lparr>cphase := ?c ?sz\<rparr>)"
    using c bnd no inv by (auto simp: consumer_step_def load_size_def Let_def sys_inv_at_def)
  moreover have "consumed s xs (s\<lparr>cphase := ?c ?sz\<rparr>)"
    using ring_inv_front_here [OF r(1) no] r c
    by (auto simp: consumed_def sys_inv_at_def work_def split: if_splits)
  ultimately show ?thesis by blast
qed

lemma consumer_step_pop:
  assumes inv: "sys_inv_at s xs" and c: "cphase s = C_popping sz x"
  shows "\<exists>s'. consumer_step s = Inr s' \<and> consumed s xs s'"
proof -
  let ?q = "ring s"
  let ?s' = "s\<lparr>ring := ?q\<lparr>read_idx := read_idx ?q + blk_sz sz\<rparr>, cphase := C_idle, popped := popped s @ [x]\<rparr>"
  have r: "ring_inv ?q (phase s) True xs" "x = hd xs" "xs \<noteq> []" "pushed s = popped s @ xs"
    "sz = size_at (q_blk ?q) (unat (read_idx ?q))"
    using inv c by (auto simp: sys_inv_at_def)
  obtain q' where q': "pop ?q = Inr q'" "ring_inv q' (phase s) False (tl xs)"
    "unat (read_idx ?q) \<le> tail_of ?q (phase s) \<longrightarrow> unat (read_idx q') \<le> tail_of q' (phase s)"
    using ring_inv_pop [OF r(1)] by blast
  then have q: "q' = ?q\<lparr>read_idx := read_idx ?q + blk_sz sz\<rparr>"
    using r(5) by (auto simp: pop_def load_size_def split: if_splits)
  obtain y ys where xs: "xs = y # ys" using r(3) by (cases xs) auto
  then have "sys_inv_at ?s' ys"
    using q'(2) q r(2,4) by (simp add: sys_inv_at_def)
  moreover have "work ?s' ys < work s xs"
    using q'(3) c xs unfolding q work_def by auto
  ultimately have "consumed s xs ?s'"
    using xs unfolding consumed_def by auto
  then show ?thesis using c by (simp add: consumer_step_def Let_def)
qed

lemma consumer_step_consumed:
  assumes inv: "sys_inv_at s xs"
  shows "\<exists>s'. consumer_step s = Inr s' \<and> consumed s xs s'"
proof -
  let ?q = "ring s"
  have r: "ring_inv ?q (phase s) (holds (cphase s)) xs" "pushed s = popped s @ xs"
    using inv by (auto simp: sys_inv_at_def)
  note bnd = ring_inv_bounds [OF r(1)]
  show ?thesis
  proof (cases "cphase s")
    case C_idle
    show ?thesis
    proof (cases "size_at (q_blk ?q) (unat (read_idx ?q)) = 1")
      case True
      moreover have "\<not> unat (read_idx ?q) \<le> tail_of ?q (phase s)"
        using True r(1) layout_unwrap [of "q_blk ?q" "unat (read_idx ?q)" "tail_of ?q (phase s)" xs]
        by (auto simp: ring_inv_def)
      ultimately have "consumed s xs (s\<lparr>cphase := C_mark\<rparr>)"
        using C_idle r work_pos [of xs s] by (auto simp: consumed_def sys_inv_at_def work_def)
      then show ?thesis using C_idle True bnd by (simp add: consumer_step_def load_size_def Let_def)
    next
      case False
      then show ?thesis using consumer_step_front [OF inv] C_idle by blast
    qed
  next
    case C_mark
    let ?s' = "s\<lparr>ring := ?q\<lparr>read_idx := 0\<rparr>, cphase := C_first\<rparr>"
    note mark = reader_at_mark [OF inv C_mark]
    have "sys_inv_at ?s' xs"
      using mark(1) r(2) by (simp add: sys_inv_at_def)
    moreover have "xs \<noteq> [] \<Longrightarrow> work ?s' xs < work s xs"
      using mark(2) C_mark by (simp add: work_def)
    ultimately show ?thesis
      using C_mark by (auto simp: consumer_step_def consumed_def Let_def)
  next
    case C_first
    then have "read_idx ?q = 0" using inv by (simp add: sys_inv_at_def)
    then have "size_at (q_blk ?q) (unat (read_idx ?q)) \<noteq> 1"
      using r(1) layout_no_mark [of "q_blk ?q" 0 "tail_of ?q (phase s)" xs] by (simp add: ring_inv_def)
    then show ?thesis using consumer_step_front [OF inv] C_first by blast
  next
    case (C_held h)
    then have h: "xs \<noteq> []" "read_msg h ?q = hd xs"
      using ring_inv_pop [of ?q "phase s" xs] r(1) inv by (auto simp: sys_inv_at_def)
    then have "consumed s xs (s\<lparr>cphase := C_handled (read_msg h ?q)\<rparr>)"
      using C_held r work_pos [of xs s]
      by (intro exI [of _ xs] conjI iffD2 [OF consumed_def]) (auto simp: sys_inv_at_def work_def)
    then show ?thesis using C_held by (simp add: consumer_step_def)
  next
    case (C_handled x)
    then have h: "xs \<noteq> []" "x = hd xs" using inv by (auto simp: sys_inv_at_def)
    then have "consumed s xs (s\<lparr>cphase := C_popping (size_at (q_blk ?q) (unat (read_idx ?q))) x\<rparr>)"
      using C_handled r work_pos [of xs s]
      by (intro exI [of _ xs] conjI iffD2 [OF consumed_def]) (auto simp: sys_inv_at_def work_def)
    then show ?thesis using C_handled bnd by (simp add: consumer_step_def load_size_def Let_def)
  next
    case (C_popping sz x)
    then show ?thesis using consumer_step_pop [OF inv] by blast
  qed
qed

lemma consumer_step_ok:
  assumes "sys_inv s"
  shows "\<exists>s'. consumer_step s = Inr s' \<and> sys_inv s'"
  using assms consumer_step_consumed unfolding sys_inv_def consumed_def by blast

lemma log_reach_inv: "log_reach s \<Longrightarrow> sys_inv s"
proof (induction rule: log_reach.induct)
  case Start
  then show ?case by (rule sys_inv_init)
next
  case (Step s s')
  from Step.hyps(2) show ?case
    using producer_step_ok [OF Step.IH] consumer_step_ok [OF Step.IH] by fastforce
qed

lemma log_reach_order:
  assumes "log_reach s"
  shows "\<exists>rest. pushed s = popped s @ rest \<and>
    (\<forall>h. cphase s = C_held h \<longrightarrow> rest \<noteq> [] \<and> read_msg h (ring s) = hd rest) \<and>
    (\<forall>x sz. cphase s \<in> {C_handled x, C_popping sz x} \<longrightarrow> rest \<noteq> [] \<and> x = hd rest)"
proof -
  obtain xs where inv: "sys_inv_at s xs"
    using log_reach_inv [OF assms] by (auto simp: sys_inv_def)
  then have "xs \<noteq> [] \<and> read_msg h (ring s) = hd xs" if "cphase s = C_held h" for h
    using ring_inv_pop [of "ring s" "phase s" xs] that by (auto simp: sys_inv_at_def)
  then show ?thesis
    using inv by (intro exI [of _ xs]) (auto simp: sys_inv_at_def)
qed

text \<open>The consumer alone empties the queue.\<close>

lemma consumer_drains:
  "sys_inv_at s xs \<Longrightarrow> xs = [] \<or> work s xs \<le> n \<Longrightarrow>
   \<exists>s'. iterate_res consumer_step n s = Inr s' \<and> sys_inv_at s' [] \<and> pushed s' = pushed s"
proof (induction n arbitrary: s xs)
  case 0
  then have "xs = []" using work_pos [of xs s] by fastforce
  then show ?case using 0 by simp
next
  case (Suc n)
  obtain s1 xs1 where s1: "consumer_step s = Inr s1" "sys_inv_at s1 xs1" "pushed s1 = pushed s"
    "if xs = [] then xs1 = [] else work s1 xs1 < work s xs"
    using consumer_step_consumed [OF Suc.prems(1)] unfolding consumed_def by blast
  have "xs1 = [] \<or> work s1 xs1 \<le> n"
    using s1(4) Suc.prems(2) by (auto split: if_splits)
  from Suc.IH [OF s1(2) this] show ?case
    using s1(1,3) by auto
qed

end
