(* ===== verification/Log_Fifo.thy ===== *)
theory Log_Fifo
  imports Log_Ring
begin

text \<open>
  The log queue as one thread uses it: \<open>log_put\<close> is the storing part of \<open>fmtlogT::log\<close> and
  \<open>logOnce\<close> (the loop runs once, \<open>FMTLOG_BLOCK\<close> is 0), and the locale \<open>log_fifo\<close> is the contract that
  the polling side relies on.
\<close>

definition log_put :: "log_msg_bytes \<Rightarrow> varq \<Rightarrow> (bool \<times> varq) res" where
  "log_put x q =
     bind_res (alloc (msg_size x) q) (\<lambda>(h, q1).
       case h of
         None \<Rightarrow> Inr (False, q1)
       | Some i \<Rightarrow>
           bind_res (fill i x q1) (\<lambda>q2.
           bind_res (push i (msg_size x) q2) (\<lambda>q3. Inr (True, q3))))"

section \<open>The contract\<close>

text \<open>
  \<open>view q h xs\<close>: the queue holds \<open>xs\<close>, oldest first; \<open>h\<close> is true while the consumer works on the
  oldest one, between \<open>front\<close> and \<open>pop\<close>.
\<close>

locale log_fifo =
  fixes put :: "'m \<Rightarrow> 'q \<Rightarrow> (bool \<times> 'q) res"
    and first :: "'q \<Rightarrow> ('i option \<times> 'q) res"
    and drop_first :: "'q \<Rightarrow> 'q res"
    and contents :: "'i \<Rightarrow> 'q \<Rightarrow> 'm"
    and view :: "'q \<Rightarrow> bool \<Rightarrow> 'm list \<Rightarrow> bool"
    and fits :: "'m \<Rightarrow> bool"
  assumes put_view: "view q h xs \<Longrightarrow> fits x \<Longrightarrow>
      \<exists>ok q'. put x q = Inr (ok, q') \<and> view q' h (if ok then xs @ [x] else xs)"
    and first_view: "view q h xs \<Longrightarrow>
      \<exists>r q'. first q = Inr (r, q') \<and> view q' (r \<noteq> None) xs \<and>
        (case r of None \<Rightarrow> xs = [] | Some i \<Rightarrow> xs \<noteq> [] \<and> contents i q' = hd xs)"
    and drop_view: "view q True xs \<Longrightarrow> \<exists>q'. drop_first q = Inr q' \<and> xs \<noteq> [] \<and> view q' False (tl xs)"
begin

primrec put_all :: "'m list \<Rightarrow> 'q \<Rightarrow> (bool list \<times> 'q) res" where
  "put_all [] q = Inr ([], q)"
| "put_all (x # xs) q =
     bind_res (put x q) (\<lambda>(ok, q1). bind_res (put_all xs q1) (\<lambda>(oks, q2). Inr (ok # oks, q2)))"

primrec take_n :: "nat \<Rightarrow> 'q \<Rightarrow> ('m list \<times> 'q) res" where
  "take_n 0 q = Inr ([], q)"
| "take_n (Suc n) q =
     bind_res (first q) (\<lambda>(r, q1).
       case r of
         None \<Rightarrow> Inr ([], q1)
       | Some i \<Rightarrow>
           bind_res (drop_first q1) (\<lambda>q2.
           bind_res (take_n n q2) (\<lambda>(ys, q3). Inr (contents i q1 # ys, q3))))"

lemma put_all_view:
  "view q h xs \<Longrightarrow> \<forall>y \<in> set ys. fits y \<Longrightarrow>
   \<exists>oks q'. put_all ys q = Inr (oks, q') \<and> length oks = length ys \<and>
     view q' h (xs @ map fst (filter snd (zip ys oks)))"
proof (induction ys arbitrary: q xs)
  case Nil
  then show ?case by simp
next
  case (Cons y ys)
  then obtain ok q1 where q1: "put y q = Inr (ok, q1)" "view q1 h (if ok then xs @ [y] else xs)"
    using put_view [of q h xs y] by auto
  obtain oks q2 where "put_all ys q1 = Inr (oks, q2)" "length oks = length ys"
    "view q2 h ((if ok then xs @ [y] else xs) @ map fst (filter snd (zip ys oks)))"
    using Cons.IH [OF q1(2)] Cons.prems(2) by auto
  then show ?case using q1 by auto
qed

lemma take_n_view:
  "view q h xs \<Longrightarrow> \<exists>q' h'. take_n n q = Inr (take n xs, q') \<and> view q' h' (drop n xs)"
proof (induction n arbitrary: q h xs)
  case 0
  then show ?case by auto
next
  case (Suc n)
  obtain r q1 where r: "first q = Inr (r, q1)" "view q1 (r \<noteq> None) xs"
    "case r of None \<Rightarrow> xs = [] | Some i \<Rightarrow> xs \<noteq> [] \<and> contents i q1 = hd xs"
    using first_view [OF Suc.prems] by blast
  show ?case
  proof (cases r)
    case None
    then show ?thesis using r by auto
  next
    case (Some i)
    then have xs: "xs \<noteq> []" "contents i q1 = hd xs" and v: "view q1 True xs"
      using r by auto
    obtain q2 where q2: "drop_first q1 = Inr q2" "view q2 False (tl xs)"
      using drop_view [OF v] by blast
    obtain q3 h3 where "take_n n q2 = Inr (take n (tl xs), q3)" "view q3 h3 (drop n (tl xs))"
      using Suc.IH [OF q2(2)] by blast
    then show ?thesis
      using r(1) Some q2(1) xs by (cases xs) auto
  qed
qed

end

section \<open>The queue keeps the contract\<close>

lemma alloc_phases:
  assumes inv: "ring_inv q P_idle h xs" and x: "msg_fits x"
  shows "\<exists>r q'. alloc (msg_size x) q = Inr (r, q') \<and>
    ring_inv q' (case r of None \<Rightarrow> P_idle | Some i \<Rightarrow> P_reserved i x) h xs"
proof -
  let ?b = "need_blocks x"
  have ready: "\<exists>r q'. (if free_write_cnt p \<le> ?b then Inr (None, p)
      else bind_res (reserve ?b p) (\<lambda>(i, q2). Inr (Some i, q2))) = Inr (r, q') \<and>
    ring_inv q' (case r of None \<Rightarrow> P_idle | Some i \<Rightarrow> P_reserved i x) h xs"
    if "ring_inv p (P_ready x) h xs" for p
    using ring_inv_reserve [OF that] ring_inv_start(3) [OF that] by auto
  show ?thesis
  proof (cases "free_write_cnt q \<le> ?b")
    case True
    let ?c = "read_idx q"
    have l: "ring_inv q (P_loaded ?c x) h xs"
      using inv x by (rule ring_inv_start)
    have "\<exists>p. (if must_wrap ?c ?b q then bind_res (wrap_zero q) (wrap_mark ?c) else Inr (refill ?c q)) = Inr p \<and>
        ring_inv p (P_ready x) h xs"
      using ring_inv_wrap_zero [OF l, of ?b] ring_inv_refill [OF l, of ?b] ring_inv_wrap_mark by fastforce
    then show ?thesis
      using ready True by (fastforce simp: alloc_def Let_def)
  next
    case False
    then show ?thesis
      using ready [OF ring_inv_start(2) [OF inv x]] by (simp add: alloc_def Let_def)
  qed
qed

lemma log_put_view:
  assumes "ring_inv q P_idle h xs" "msg_fits x"
  shows "\<exists>ok q'. log_put x q = Inr (ok, q') \<and> ring_inv q' P_idle h (if ok then xs @ [x] else xs)"
proof -
  obtain r q1 where q1: "alloc (msg_size x) q = Inr (r, q1)"
    "ring_inv q1 (case r of None \<Rightarrow> P_idle | Some i \<Rightarrow> P_reserved i x) h xs"
    using alloc_phases [OF assms] by blast
  show ?thesis
  proof (cases r)
    case None
    then show ?thesis using q1 by (auto simp: log_put_def)
  next
    case (Some i)
    then obtain q2 where q2: "fill i x q1 = Inr q2" "ring_inv q2 (P_filled i x) h xs"
      using q1 ring_inv_fill by fastforce
    then show ?thesis
      using q1 Some ring_inv_push [OF q2(2)] by (auto simp: log_put_def)
  qed
qed

interpretation lf: log_fifo log_put front pop read_msg "\<lambda>q. ring_inv q P_idle" msg_fits
proof unfold_locales
  fix q h xs and x :: log_msg_bytes
  assume "ring_inv q P_idle h xs" "msg_fits x"
  then show "\<exists>ok q'. log_put x q = Inr (ok, q') \<and> ring_inv q' P_idle h (if ok then xs @ [x] else xs)"
    by (rule log_put_view)
next
  fix q h xs
  assume "ring_inv q P_idle h xs"
  then show "\<exists>r q'. front q = Inr (r, q') \<and> ring_inv q' P_idle (r \<noteq> None) xs \<and>
      (case r of None \<Rightarrow> xs = [] | Some i \<Rightarrow> xs \<noteq> [] \<and> read_msg i q' = hd xs)"
    using front_ok [of q P_idle h xs] by (auto split: option.splits)
next
  fix q xs
  assume "ring_inv q P_idle True xs"
  then show "\<exists>q'. pop q = Inr q' \<and> xs \<noteq> [] \<and> ring_inv q' P_idle False (tl xs)"
    using ring_inv_pop by blast
qed

section \<open>When a message finds room\<close>

lemma alloc_succeeds:
  assumes inv: "ring_inv q P_idle h xs" and x: "msg_fits x"
    and same: "read_idx q = write_idx q" and small: "2 * nblk x < BLK_CNT"
  shows "\<exists>i q'. alloc (msg_size x) q = Inr (Some i, q')"
proof -
  let ?b = "need_blocks x" and ?w = "unat (write_idx q)"
  note bnd = ring_inv_bounds [OF inv]
  have n: "unat ?b = nblk x"
    using x by (rule unat_blk_sz_msg)
  obtain r p where res: "alloc (msg_size x) q = Inr (r, p)"
    using alloc_phases [OF inv x] by blast
  have room: "\<not> free_write_cnt p' \<le> ?b"
    if "must_wrap (read_idx q) ?b q" "wrap_zero q = Inr q1" "wrap_mark (read_idx q) q1 = Inr p'" for q1 p'
  proof -
    have "free_write_cnt p' = write_idx q"
      using that(2,3) same by (auto simp: wrap_zero_def wrap_mark_def store_size_def split: if_splits)
    moreover have "BLK_CNT - ?w \<le> nblk x"
      using that(1) bnd n by (simp add: must_wrap_def word_le_nat_alt unat_room)
    ultimately show ?thesis
      using small n by (simp add: word_le_nat_alt)
  qed
  have room': "\<not> free_write_cnt (refill (read_idx q) q) \<le> ?b" if "\<not> must_wrap (read_idx q) ?b q"
    using that same small bnd n
    by (auto simp: must_wrap_def refill_def word_le_nat_alt unat_room)
  have "r \<noteq> None"
    using res room room'
    by (auto simp: alloc_def Let_def bind_res_eq_Inr split: if_splits)
  then show ?thesis using res by auto
qed

lemma log_put_empty:
  assumes "ring_inv q P_idle h xs" "msg_fits x" "read_idx q = write_idx q" "2 * nblk x < BLK_CNT"
  shows "\<exists>q'. log_put x q = Inr (True, q') \<and> ring_inv q' P_idle h (xs @ [x])"
proof -
  obtain i q1 where a: "alloc (msg_size x) q = Inr (Some i, q1)"
    using alloc_succeeds [OF assms] by blast
  obtain ok q' where p: "log_put x q = Inr (ok, q')" "ring_inv q' P_idle h (if ok then xs @ [x] else xs)"
    using log_put_view [OF assms(1,2)] by blast
  then have ok
    using a by (auto simp: log_put_def bind_res_eq_Inr)
  then show ?thesis using p by auto
qed

text \<open>
  The bound is sharp: a message that takes half of the blocks goes into the new queue, but not a
  second time, although the consumer has emptied the queue in between.
\<close>

lemma log_put_half:
  assumes "msg_fits x" "2 * nblk x = BLK_CNT"
  shows "\<exists>q1 i q2 q3 q4. log_put x varq_new = Inr (True, q1) \<and> front q1 = Inr (Some i, q2) \<and>
    pop q2 = Inr q3 \<and> ring_inv q3 P_idle False [] \<and> log_put x q3 = Inr (False, q4)"
proof -
  have n: "nblk x = 65536" and cnt: "of_nat BLK_CNT = (131072 :: u32)"
    using assms(2) by (simp_all add: BLK_CNT_def)
  have b: "need_blocks x = 65536"
    using unat_blk_sz_msg [OF assms(1)] n by (simp add: word_unat_eq_iff)
  obtain ok q1 where p: "log_put x varq_new = Inr (ok, q1)" "ring_inv q1 P_idle False (if ok then [x] else [])"
    using log_put_view [OF ring_inv_new assms(1)] by (metis append_Nil)
  then have q1: "ok" "read_idx q1 = 0" "write_idx q1 = 65536" "free_write_cnt q1 = 65536"
    using b by (auto simp: log_put_def alloc_def reserve_def varq_new_def Let_def bind_res_eq_Inr
        store_size_def fill_def push_def cnt BLK_CNT_def split: if_splits option.splits)
  obtain i q2 where f: "front q1 = Inr (Some i, q2)" "ring_inv q2 P_idle True [x]"
    using front_ok [OF p(2)] q1(1) by (auto split: option.splits)
  obtain q3 where d: "pop q2 = Inr q3" "ring_inv q3 P_idle False []"
    using ring_inv_pop [OF f(2)] by auto
  have q2: "read_idx q2 = 0" "write_idx q2 = 65536" "free_write_cnt q2 = 65536"
    using f(1) q1 by (auto simp: front_def load_size_def bind_res_eq_Inr Let_def split: if_splits)
  have q3: "write_idx q3 = 65536" "free_write_cnt q3 = 65536"
    using d(1) q2 by (auto simp: pop_def load_size_def split: if_splits)
  have "unat (read_idx q3) = unat (write_idx q3)"
    using d(2) q3 by (auto simp: ring_inv_def layout_def split: if_splits)
  then have "read_idx q3 = 65536"
    using q3 by (simp add: word_unat_eq_iff)
  then have "\<exists>q4. log_put x q3 = Inr (False, q4)"
    using b q3 by (simp add: log_put_def alloc_def must_wrap_def wrap_zero_def wrap_mark_def
        store_size_def cnt BLK_CNT_def)
  then show ?thesis
    using p(1) q1(1) f(1) d by auto
qed

end
