(* ===== verification/Log_Args.thy ===== *)
theory Log_Args
  imports Log_Fifo
begin

text \<open>
  How \<open>fmtlogT::log\<close> stores its arguments in a message and how \<open>formatTo\<close> reads them back on the
  polling side (\<open>getArgSizes\<close>, \<open>encodeArgs\<close>, \<open>decodeArgs\<close>, \<open>destructArgs\<close> of \<open>log/fmtlog.h\<close>). The
  templates recurse over the argument list; so do the functions here.
\<close>

section \<open>Arguments\<close>

text \<open>
  What the templates distinguish: a named argument, a pointer to a C string (the array it points
  to), a string object (its characters), and any other object: the bytes that copying it to the
  message leaves there, whether it is a pointer that \<open>UnrefPtr\<close> dereferences, and whether its type
  needs a destructor call.
\<close>

datatype log_arg =
    Arg_named string log_arg
  | Arg_cstring "byte list"
  | Arg_string "byte list"
  | Arg_obj "byte list" bool bool

datatype arg_type = Ty_named string arg_type | Ty_cstring | Ty_string | Ty_obj nat bool bool

primrec type_of :: "log_arg \<Rightarrow> arg_type" where
  "type_of (Arg_named n a) = Ty_named n (type_of a)"
| "type_of (Arg_cstring s) = Ty_cstring"
| "type_of (Arg_string s) = Ty_string"
| "type_of (Arg_obj bs unref dtor) = Ty_obj (length bs) unref dtor"

text \<open>What the formatting library gets: characters, an object, or the object a pointer points to.\<close>

datatype arg_value = Val_chars "byte list" | Val_obj "byte list" | Val_deref "byte list"

text \<open>\<open>strlen\<close> on memory of which only the bytes \<open>bs\<close> may be read.\<close>

primrec strlen_in :: "byte list \<Rightarrow> nat res" where
  "strlen_in [] = Inl (Fault Out_of_bounds)"
| "strlen_in (b # bs) = (if b = 0 then Inr 0 else bind_res (strlen_in bs) (\<lambda>n. Inr (Suc n)))"

lemma strlen_in_text: "0 \<notin> set s \<Longrightarrow> strlen_in (s @ 0 # rest) = Inr (length s)"
  by (induction s) auto

lemma strlen_in_takeWhile:
  "0 \<in> set s \<Longrightarrow> strlen_in s = Inr (length (takeWhile (\<lambda>b. b \<noteq> 0) s))"
  by (induction s) auto

section \<open>Storing\<close>

text \<open>\<open>getArgSizes\<close>: the bytes needed, and the array \<open>cstringSize\<close> it fills.\<close>

fun getArgSizes :: "log_arg list \<Rightarrow> (nat \<times> nat list) res" where
  "getArgSizes [] = Inr (0, [])"
| "getArgSizes (Arg_named n a # args) = getArgSizes (a # args)"
| "getArgSizes (Arg_cstring s # args) =
     bind_res (strlen_in s) (\<lambda>n. bind_res (getArgSizes args) (\<lambda>(k, szs). Inr (n + 1 + k, (n + 1) # szs)))"
| "getArgSizes (Arg_string s # args) =
     bind_res (getArgSizes args) (\<lambda>(k, szs). Inr (length s + 1 + k, szs))"
| "getArgSizes (Arg_obj bs unref dtor # args) =
     bind_res (getArgSizes args) (\<lambda>(k, szs). Inr (length bs + k, szs))"

text \<open>\<open>encodeArgs\<close>: the bytes stored from \<open>out\<close> on; the first list is what is left of \<open>cstringSize\<close>.\<close>

fun encodeArgs :: "nat list \<Rightarrow> log_arg list \<Rightarrow> byte list" where
  "encodeArgs szs [] = []"
| "encodeArgs szs (Arg_named n a # args) = encodeArgs szs (a # args)"
| "encodeArgs szs (Arg_cstring s # args) = take (hd szs) s @ encodeArgs (tl szs) args"
| "encodeArgs szs (Arg_string s # args) = s @ 0 # encodeArgs szs args"
| "encodeArgs szs (Arg_obj bs unref dtor # args) = bs @ encodeArgs szs args"

section \<open>Reading\<close>

text \<open>
  \<open>decodeArgs\<close> at offset \<open>pos\<close> of the bytes that follow: the values, the offsets in
  \<open>destruct_args\<close>, and the offset it returns.
\<close>

fun decodeArgs :: "nat \<Rightarrow> byte list \<Rightarrow> arg_type list \<Rightarrow> (arg_value list \<times> nat list \<times> nat) res" where
  "decodeArgs pos inp [] = Inr ([], [], pos)"
| "decodeArgs pos inp (Ty_named n t # ts) = decodeArgs pos inp (t # ts)"
| "decodeArgs pos inp (Ty_obj n unref dtor # ts) =
     (if n \<le> length inp
      then bind_res (decodeArgs (pos + n) (drop n inp) ts) (\<lambda>(vs, ds, p).
             Inr ((if unref then Val_deref (take n inp) else Val_obj (take n inp)) # vs,
                  (if dtor then pos # ds else ds), p))
      else Inl (Fault Out_of_bounds))"
| "decodeArgs pos inp (Ty_cstring # ts) =
     bind_res (strlen_in inp) (\<lambda>n.
     bind_res (decodeArgs (pos + n + 1) (drop (n + 1) inp) ts) (\<lambda>(vs, ds, p).
       Inr (Val_chars (take n inp) # vs, ds, p)))"
| "decodeArgs pos inp (Ty_string # ts) =
     bind_res (strlen_in inp) (\<lambda>n.
     bind_res (decodeArgs (pos + n + 1) (drop (n + 1) inp) ts) (\<lambda>(vs, ds, p).
       Inr (Val_chars (take n inp) # vs, ds, p)))"

text \<open>
  \<open>destructArgs\<close>, from \<open>destruct_args[i]\<close> on: the offsets of the objects whose destructors it calls. The
  array has as many elements as \<open>decodeArgs\<close> has set.
\<close>

fun needCallDtor :: "arg_type \<Rightarrow> bool" where
  "needCallDtor (Ty_named n t) = needCallDtor t"
| "needCallDtor (Ty_obj n unref dtor) = dtor"
| "needCallDtor t = False"

fun destructArgs :: "nat \<Rightarrow> nat list \<Rightarrow> arg_type list \<Rightarrow> nat list res" where
  "destructArgs i destruct_args [] = Inr []"
| "destructArgs i destruct_args (t # ts) =
     (if needCallDtor t
      then if i < length destruct_args
        then bind_res (destructArgs (i + 1) destruct_args ts) (\<lambda>os. Inr (destruct_args ! i # os))
        else Inl (Fault Uninit_read)
      else destructArgs i destruct_args ts)"

section \<open>What is read is what was stored\<close>

text \<open>The value of an argument; how many bytes it takes; which objects need a destructor call.\<close>

fun arg_val :: "log_arg \<Rightarrow> arg_value" where
  "arg_val (Arg_named n a) = arg_val a"
| "arg_val (Arg_cstring s) = Val_chars (takeWhile (\<lambda>b. b \<noteq> 0) s)"
| "arg_val (Arg_string s) = Val_chars s"
| "arg_val (Arg_obj bs unref dtor) = (if unref then Val_deref bs else Val_obj bs)"

fun arg_size :: "log_arg \<Rightarrow> nat" where
  "arg_size (Arg_named n a) = arg_size a"
| "arg_size (Arg_cstring s) = length (takeWhile (\<lambda>b. b \<noteq> 0) s) + 1"
| "arg_size (Arg_string s) = length s + 1"
| "arg_size (Arg_obj bs unref dtor) = length bs"

fun arg_dtor :: "log_arg \<Rightarrow> bool" where
  "arg_dtor (Arg_named n a) = arg_dtor a"
| "arg_dtor (Arg_obj bs unref dtor) = dtor"
| "arg_dtor a = False"

primrec dtor_offsets :: "nat \<Rightarrow> log_arg list \<Rightarrow> nat list" where
  "dtor_offsets pos [] = []"
| "dtor_offsets pos (a # args) =
     (if arg_dtor a then [pos] else []) @ dtor_offsets (pos + arg_size a) args"

text \<open>A C string must end; a string object must not contain a NUL.\<close>

fun arg_ok :: "log_arg \<Rightarrow> bool" where
  "arg_ok (Arg_named n a) = arg_ok a"
| "arg_ok (Arg_cstring s) = (0 \<in> set s)"
| "arg_ok (Arg_string s) = (0 \<notin> set s)"
| "arg_ok (Arg_obj bs unref dtor) = True"

fun arg_terminated :: "log_arg \<Rightarrow> bool" where
  "arg_terminated (Arg_named n a) = arg_terminated a"
| "arg_terminated (Arg_cstring s) = (0 \<in> set s)"
| "arg_terminated a = True"

lemma arg_ok_terminated: "arg_ok a \<Longrightarrow> arg_terminated a"
  by (induction a rule: arg_ok.induct) auto

lemma take_to_NUL: "0 \<in> set s \<Longrightarrow>
  take (Suc (length (takeWhile (\<lambda>b. b \<noteq> 0) s))) s = takeWhile (\<lambda>b. b \<noteq> 0) s @ [0 :: byte]"
  by (induction s) auto

lemma takeWhile_NUL [simp]: "0 \<notin> set (takeWhile (\<lambda>b. b \<noteq> (0 :: byte)) s)"
  by (auto dest: set_takeWhileD)

lemma decode_chars:
  assumes "0 \<notin> set s"
  shows "decodeArgs pos (s @ 0 # rst) (Ty_cstring # ts) =
      bind_res (decodeArgs (Suc (pos + length s)) rst ts) (\<lambda>(vs, ds, p). Inr (Val_chars s # vs, ds, p))"
    and "decodeArgs pos (s @ 0 # rst) (Ty_string # ts) =
      bind_res (decodeArgs (Suc (pos + length s)) rst ts) (\<lambda>(vs, ds, p). Inr (Val_chars s # vs, ds, p))"
  using strlen_in_text [OF assms] by simp_all

lemma getArgSizes_total:
  "\<forall>a \<in> set args. arg_terminated a \<Longrightarrow> \<exists>szs. getArgSizes args = Inr (sum_list (map arg_size args), szs) \<and>
     length (encodeArgs szs args) = sum_list (map arg_size args)"
proof (induction args rule: getArgSizes.induct)
  case (3 s args)
  then obtain szs where "getArgSizes args = Inr (sum_list (map arg_size args), szs)"
    "length (encodeArgs szs args) = sum_list (map arg_size args)"
    by (auto simp: strlen_in_takeWhile)
  moreover have "length (take (Suc (length (takeWhile (\<lambda>b. b \<noteq> 0) s))) s) =
      Suc (length (takeWhile (\<lambda>b. b \<noteq> 0) s))"
    using 3 by (subst take_to_NUL) auto
  ultimately show ?case
    using 3 by (auto simp: strlen_in_takeWhile)
qed auto

lemma decode_encode:
  "\<forall>a \<in> set args. arg_ok a \<Longrightarrow> getArgSizes args = Inr (k, szs) \<Longrightarrow>
   decodeArgs pos (encodeArgs szs args @ rest) (map type_of args) =
     Inr (map arg_val args, dtor_offsets pos args, pos + sum_list (map arg_size args))"
proof (induction args arbitrary: k szs pos rule: getArgSizes.induct)
  case (3 s args)
  let ?t = "takeWhile (\<lambda>b. b \<noteq> 0) s"
  obtain k' szs' where sz: "getArgSizes args = Inr (k', szs')" "szs = Suc (length ?t) # szs'"
    using 3(2,3) by (auto simp: strlen_in_takeWhile bind_res_eq_Inr)
  have enc: "encodeArgs szs (Arg_cstring s # args) @ rest = ?t @ 0 # (encodeArgs szs' args @ rest)"
    using 3(2) sz(2) by (simp add: take_to_NUL)
  have IH: "decodeArgs pos (encodeArgs szs' args @ rest) (map type_of args) =
     Inr (map arg_val args, dtor_offsets pos args, pos + sum_list (map arg_size args))" for pos
    using 3 sz(1) by (auto simp: strlen_in_takeWhile)
  show ?case
    unfolding enc by (simp only: list.map type_of.simps decode_chars [OF takeWhile_NUL] IH) simp
next
  case (4 s args)
  then obtain k' where sz: "getArgSizes args = Inr (k', szs)"
    by (auto simp: bind_res_eq_Inr)
  have "0 \<notin> set s" using 4(2) by simp
  then show ?case
    using 4 sz decode_chars(2) [of s pos "encodeArgs szs args @ rest" "map type_of args"] by simp
next
  case (5 bs unref dtor args)
  then show ?case by (auto simp: bind_res_eq_Inr add_ac)
qed auto

section \<open>The log statement\<close>

text \<open>
  \<open>fmtlogT::log\<close> after the registration of the log id: the size that is asked for is a 32-bit
  number, the bytes stored are the time stamp and the arguments.
\<close>

definition store_log :: "u32 \<Rightarrow> u32 \<Rightarrow> byte list \<Rightarrow> varq \<Rightarrow> (bool \<times> varq) res" where
  "store_log alloc_size logId payload q =
     bind_res (alloc alloc_size q) (\<lambda>(h, q1).
       case h of
         None \<Rightarrow> Inr (False, q1)
       | Some i \<Rightarrow>
           bind_res (fill i (logId, payload) q1) (\<lambda>q2.
           bind_res (push i alloc_size q2) (\<lambda>q3. Inr (True, q3))))"

definition log_stmt :: "u64 \<Rightarrow> u32 \<Rightarrow> log_arg list \<Rightarrow> varq \<Rightarrow> (bool \<times> varq) res" where
  "log_stmt tsc logId args q =
     bind_res (getArgSizes args) (\<lambda>(k, szs).
       store_log (8 + of_nat k) logId (le_bytes 8 (unat tsc) @ encodeArgs szs args) q)"

text \<open>
  \<open>fmtlogT::logOnce\<close>: \<open>txt\<close> is the text the formatting library makes, \<open>location\<close> the address of
  the location string.
\<close>

definition logOnce :: "u64 \<Rightarrow> u64 \<Rightarrow> u32 \<Rightarrow> byte list \<Rightarrow> varq \<Rightarrow> (bool \<times> varq) res" where
  "logOnce tsc location level txt q =
     (let fmt_size = of_nat (length txt)
      in store_log (8 + 8 + fmt_size) level (le_bytes 8 (unat tsc) @ le_bytes 8 (unat location) @ txt) q)"

text \<open>The other end, in \<open>handleLog\<close>: time stamp, then arguments or location and text.\<close>

definition msg_tsc :: "byte list \<Rightarrow> u64" where "msg_tsc data = of_nat (le_val (take 8 data))"

definition read_args :: "arg_type list \<Rightarrow> byte list \<Rightarrow> (arg_value list \<times> nat list \<times> nat) res" where
  "read_args ts data = decodeArgs 8 (drop 8 data) ts"

definition read_once :: "byte list \<Rightarrow> u64 \<times> byte list" where
  "read_once data = (of_nat (le_val (take 8 (drop 8 data))), drop 16 data)"

text \<open>
  \<open>formatTo\<close> on the bytes behind the time stamp: the text, the objects destroyed once it is made, and the
  end of the arguments. \<open>format_args\<close> is the formatting library on the format string.
\<close>

definition formatTo ::
  "(arg_value list \<Rightarrow> string) \<Rightarrow> arg_type list \<Rightarrow> byte list \<Rightarrow> (string \<times> nat list \<times> nat) res" where
  "formatTo format_args types data =
     bind_res (read_args types data) (\<lambda>(vals, destruct_args, ret).
     bind_res (destructArgs 0 destruct_args types) (\<lambda>destroyed. Inr (format_args vals, destroyed, ret)))"

definition log_bytes :: "u64 \<Rightarrow> u32 \<Rightarrow> log_arg list \<Rightarrow> log_msg_bytes" where
  "log_bytes tsc logId args =
     (logId, le_bytes 8 (unat tsc) @ encodeArgs (snd (projr (getArgSizes args))) args)"

text \<open>The destructors are those of the objects \<open>decodeArgs\<close> noted, each called once.\<close>

lemma destruct_named [simp]: "destructArgs i ds (Ty_named n t # ts) = destructArgs i ds (t # ts)"
  by simp

lemma decode_destruct:
  "decodeArgs pos inp ts = Inr (vs, ds, p) \<Longrightarrow> destructArgs (length pre) (pre @ ds) ts = Inr ds"
proof (induction pos inp ts arbitrary: vs ds p pre rule: decodeArgs.induct)
  case (3 pos inp n unref dtor ts)
  then obtain vs' ds' where rest: "decodeArgs (pos + n) (drop n inp) ts = Inr (vs', ds', p)"
    "ds = (if dtor then pos # ds' else ds')" "n \<le> length inp"
    by (auto simp: bind_res_eq_Inr split: if_splits)
  show ?case
    using 3(1) [OF rest(3,1), of "pre @ [pos]"] 3(1) [OF rest(3,1), of pre] rest(2) by (cases dtor) (simp_all add: nth_append)
qed (auto simp: bind_res_eq_Inr)

lemma formatTo_eq:
  "formatTo f types data = bind_res (read_args types data) (\<lambda>(vals, ds, n). Inr (f vals, ds, n))"
proof (cases "read_args types data")
  case (Inr r)
  obtain vs ds n where "r = (vs, ds, n)" by (cases r) auto
  then show ?thesis
    using Inr decode_destruct [of 8 "drop 8 data" types vs ds n "[]"] by (simp add: formatTo_def read_args_def)
qed (simp add: formatTo_def)

lemma store_log_put:
  "alloc_size = msg_size (logId, payload) \<Longrightarrow> store_log alloc_size logId payload q = log_put (logId, payload) q"
  by (simp add: store_log_def log_put_def cong: option.case_cong)

lemma log_stmt_put:
  assumes "\<forall>a \<in> set args. arg_terminated a"
  shows "log_stmt tsc logId args q = log_put (log_bytes tsc logId args) q"
    and "length (snd (log_bytes tsc logId args)) = 8 + sum_list (map arg_size args)"
proof -
  obtain szs where szs: "getArgSizes args = Inr (sum_list (map arg_size args), szs)"
    "length (encodeArgs szs args) = sum_list (map arg_size args)"
    using getArgSizes_total [OF assms] by blast
  then show "log_stmt tsc logId args q = log_put (log_bytes tsc logId args) q"
    by (simp add: log_stmt_def log_bytes_def store_log_put msg_size_def)
  show "length (snd (log_bytes tsc logId args)) = 8 + sum_list (map arg_size args)"
    using szs by (simp add: log_bytes_def)
qed

lemma msg_tsc_bytes [simp]: "msg_tsc (le_bytes 8 (unat tsc) @ rest) = tsc"
  by (simp add: msg_tsc_def le_val_u64)

lemma read_args_log_bytes:
  assumes "\<forall>a \<in> set args. arg_ok a"
  shows "read_args (map type_of args) (snd (log_bytes tsc logId args)) =
    Inr (map arg_val args, dtor_offsets 8 args, 8 + sum_list (map arg_size args))"
proof -
  obtain szs where "getArgSizes args = Inr (sum_list (map arg_size args), szs)"
    using getArgSizes_total [of args] assms arg_ok_terminated by blast
  then show ?thesis
    using decode_encode [OF assms, of _ szs 8 "[]"] by (simp add: read_args_def log_bytes_def)
qed

lemma log_stmt_view:
  assumes "ring_inv q P_idle h xs" "\<forall>a \<in> set args. arg_terminated a"
    "sum_list (map arg_size args) + 23 < 2 ^ 32"
  shows "\<exists>ok q'. log_stmt tsc logId args q = Inr (ok, q') \<and>
    ring_inv q' P_idle h (if ok then xs @ [log_bytes tsc logId args] else xs)"
  using log_put_view [OF assms(1), of "log_bytes tsc logId args"] assms(2,3) log_stmt_put
  by (simp add: msg_fits_def)

lemma logOnce_view:
  assumes "ring_inv q P_idle h xs" "length txt + 31 < 2 ^ 32"
  shows "\<exists>ok q'. logOnce tsc location level txt q = Inr (ok, q') \<and>
    ring_inv q' P_idle h (if ok then xs @
      [(level, le_bytes 8 (unat tsc) @ le_bytes 8 (unat location) @ txt)] else xs)"
proof -
  let ?x = "(level, le_bytes 8 (unat tsc) @ le_bytes 8 (unat location) @ txt)"
  have "logOnce tsc location level txt q = log_put ?x q"
    unfolding logOnce_def Let_def by (rule store_log_put) (simp add: msg_size_def)
  then show ?thesis
    using log_put_view [OF assms(1), of ?x] assms(2) by (simp add: msg_fits_def)
qed

lemma read_once_bytes:
  "read_once (le_bytes 8 (unat tsc) @ le_bytes 8 (unat (location :: u64)) @ txt) = (location, txt)"
  by (simp add: read_once_def le_val_u64)

end
