(* ===== verification/Log_Heap.thy ===== *)
theory Log_Heap
  imports Main "HOL-Library.Multiset"
begin

text \<open>
  \<open>adjustHeap\<close> of \<open>log/fmtlog-inl.h\<close>: the thread buffers as a binary heap ordered by the time stamp
  of the message each one shows; a buffer that shows none comes last. The key of a node is that time
  stamp, \<open>None\<close> for the null header.
\<close>

definition before :: "int option \<Rightarrow> int option \<Rightarrow> bool" where
  "before a b = (case a of None \<Rightarrow> False | Some x \<Rightarrow> (case b of None \<Rightarrow> True | Some y \<Rightarrow> x < y))"

definition pick :: "('n \<Rightarrow> int option) \<Rightarrow> 'n list \<Rightarrow> nat \<Rightarrow> nat" where
  "pick key ns i =
     fold (\<lambda>ch min_i. if before (key (ns ! ch)) (key (ns ! min_i)) then ch else min_i)
       [2 * i + 1 ..< min (2 * i + 1 + 2) (length ns)] i"

text \<open>Not later than; a total preorder.\<close>

abbreviation not_after :: "int option \<Rightarrow> int option \<Rightarrow> bool" where
  "not_after a b \<equiv> \<not> before b a"

lemma not_after_trans: "not_after a b \<Longrightarrow> not_after b c \<Longrightarrow> not_after a c"
  by (cases a; cases b; cases c) (auto simp: before_def)

lemma before_imp: "before a b \<Longrightarrow> not_after a b"
  by (cases a; cases b) (auto simp: before_def)

lemma before_irrefl [simp]: "\<not> before a a"
  by (cases a) (auto simp: before_def)

definition child :: "nat \<Rightarrow> nat \<Rightarrow> bool" where "child p c \<longleftrightarrow> c = 2 * p + 1 \<or> c = 2 * p + 2"

lemma pick_range:
  "[2 * i + 1 ..< min (2 * i + 1 + 2) n] =
     (if 2 * i + 2 < n then [2 * i + 1, 2 * i + 2] else if 2 * i + 1 < n then [2 * i + 1] else [])"
proof -
  have "min (2 * i + 1 + 2) n = (if 2 * i + 2 < n then 2 * i + 3 else n)"
    by auto
  then show ?thesis
    by (auto simp: upt_rec numeral_3_eq_3)
qed

lemma pick_spec:
  "(pick key ns i = i \<or> child i (pick key ns i) \<and> pick key ns i < length ns \<and>
      before (key (ns ! pick key ns i)) (key (ns ! i))) \<and>
   not_after (key (ns ! pick key ns i)) (key (ns ! i)) \<and>
   (\<forall>c. child i c \<longrightarrow> c < length ns \<longrightarrow> not_after (key (ns ! pick key ns i)) (key (ns ! c)))"
  unfolding pick_def pick_range child_def
  by (auto simp: before_def split: option.splits if_splits)

function adjustHeap :: "('n \<Rightarrow> int option) \<Rightarrow> nat \<Rightarrow> 'n list \<Rightarrow> 'n list" where
  "adjustHeap key i ns =
     (let min_i = pick key ns i
      in if min_i = i then ns
         else adjustHeap key min_i (ns[i := ns ! min_i, min_i := ns ! i]))"
  by pat_completeness auto
termination
proof (relation "measure (\<lambda>(key, i, ns). length ns - i)", simp)
  fix key :: "'n \<Rightarrow> int option" and i ns x
  assume "x = pick key ns i" "x \<noteq> i"
  then have "child i x" "x < length ns"
    using pick_spec [of key ns i] by auto
  then show "((key, x, ns[i := ns ! x, x := ns ! i]), key, i, ns) \<in> measure (\<lambda>(key, i, ns). length ns - i)"
    by (auto simp: child_def)
qed

declare adjustHeap.simps [simp del]

section \<open>The heap order\<close>

definition heap_from :: "('n \<Rightarrow> int option) \<Rightarrow> 'n list \<Rightarrow> nat \<Rightarrow> bool" where
  "heap_from key ns k \<longleftrightarrow>
     (\<forall>p c. k \<le> p \<longrightarrow> child p c \<longrightarrow> c < length ns \<longrightarrow> not_after (key (ns ! p)) (key (ns ! c)))"

text \<open>In order everywhere but at \<open>i\<close>, whose children are not before the parent of \<open>i\<close>.\<close>

definition heap_except :: "('n \<Rightarrow> int option) \<Rightarrow> 'n list \<Rightarrow> nat \<Rightarrow> nat \<Rightarrow> bool" where
  "heap_except key ns k i \<longleftrightarrow>
     (\<forall>p c. k \<le> p \<longrightarrow> child p c \<longrightarrow> c < length ns \<longrightarrow> p \<noteq> i \<longrightarrow> not_after (key (ns ! p)) (key (ns ! c))) \<and>
     (\<forall>p c. k \<le> p \<longrightarrow> child p i \<longrightarrow> child i c \<longrightarrow> c < length ns \<longrightarrow> not_after (key (ns ! p)) (key (ns ! c)))"

lemma adjustHeap_mset [simp]: "i < length ns \<Longrightarrow> mset (adjustHeap key i ns) = mset ns"
proof (induction key i ns rule: adjustHeap.induct)
  case (1 key i ns)
  show ?case
  proof (cases "pick key ns i = i")
    case True
    then show ?thesis by (subst adjustHeap.simps) simp
  next
    case False
    then have "pick key ns i < length ns"
      using pick_spec [of key ns i] by auto
    then show ?thesis
      using 1 False by (subst adjustHeap.simps) (simp add: Let_def mset_swap)
  qed
qed

lemma adjustHeap_length [simp]: "length (adjustHeap key i ns) = length ns"
proof (induction key i ns rule: adjustHeap.induct)
  case (1 key i ns)
  then show ?case by (subst adjustHeap.simps) (simp add: Let_def)
qed

lemma swap_except:
  assumes ex: "heap_except key ns k i" and k: "k \<le> i"
    and m: "child i m" "m < length ns" "before (key (ns ! m)) (key (ns ! i))"
    and min: "\<forall>c. child i c \<longrightarrow> c < length ns \<longrightarrow> not_after (key (ns ! m)) (key (ns ! c))"
  shows "heap_except key (ns[i := ns ! m, m := ns ! i]) k m"
proof -
  let ?ns = "ns[i := ns ! m, m := ns ! i]"
  have i: "i < m" "i < length ns" using m by (auto simp: child_def)
  have nth: "?ns ! j = (if j = i then ns ! m else if j = m then ns ! i else ns ! j)" if "j < length ns" for j
    using that i m(2) by (simp add: nth_list_update)
  have 1: "not_after (key (?ns ! p)) (key (?ns ! c))"
    if "k \<le> p" "child p c" "c < length ns" "p \<noteq> m" for p c
  proof -
    have pc: "p < c" using that(2) by (auto simp: child_def)
    consider "p = i" "c = m" | "p = i" "c \<noteq> m" | "p \<noteq> i" "c = i" | "p \<noteq> i" "c \<noteq> i" by blast
    then show ?thesis
    proof cases
      case 1
      then show ?thesis using nth m i by (simp add: before_imp)
    next
      case 2
      then show ?thesis using nth that min i pc by simp
    next
      case 3
      then show ?thesis
        using ex nth [of p] nth [of c] that m i pc unfolding heap_except_def by auto
    next
      case 4
      then have "c \<noteq> m" using that(2) m(1) by (auto simp: child_def)
      then show ?thesis
        using ex nth that 4 pc unfolding heap_except_def by simp
    qed
  qed
  have 2: "not_after (key (?ns ! p)) (key (?ns ! c))"
    if "k \<le> p" "child p m" "child m c" "c < length ns" for p c
  proof -
    have "p = i" "c \<noteq> i" "c \<noteq> m" using that(2,3) m(1) i by (auto simp: child_def)
    moreover have "not_after (key (ns ! m)) (key (ns ! c))"
      using ex that(3,4) k i unfolding heap_except_def by auto
    ultimately show ?thesis using nth that i by simp
  qed
  show ?thesis
    using 1 2 by (simp add: heap_except_def)
qed

lemma adjustHeap_heap: "heap_except key ns k i \<Longrightarrow> k \<le> i \<Longrightarrow> heap_from key (adjustHeap key i ns) k"
proof (induction key i ns rule: adjustHeap.induct)
  case (1 key i ns)
  note spec = pick_spec [of key ns i]
  show ?case
  proof (cases "pick key ns i = i")
    case True
    then have "heap_from key ns k"
      using "1.prems" spec by (auto simp: heap_from_def heap_except_def)
    then show ?thesis using True by (subst adjustHeap.simps) simp
  next
    case False
    let ?m = "pick key ns i"
    have m: "child i ?m" "?m < length ns" "before (key (ns ! ?m)) (key (ns ! i))"
      using spec False by auto
    then have "heap_except key (ns[i := ns ! ?m, ?m := ns ! i]) k ?m"
      using "1.prems" spec by (intro swap_except) auto
    moreover have "k \<le> ?m"
      using m(1) "1.prems"(2) by (auto simp: child_def)
    ultimately show ?thesis
      using "1.IH" [of ?m] False by (subst adjustHeap.simps) (simp add: Let_def)
  qed
qed

section \<open>Building the heap\<close>

text \<open>\<open>for (int i = size / 2; i >= 0; i--) adjustHeap(i)\<close>\<close>

definition build_heap :: "('n \<Rightarrow> int option) \<Rightarrow> 'n list \<Rightarrow> 'n list" where
  "build_heap key ns = fold (adjustHeap key) (rev [0..<length ns div 2 + 1]) ns"

lemma heap_from_leaves: "length ns div 2 < k \<Longrightarrow> heap_from key ns k"
  by (auto simp: heap_from_def child_def)

lemma heap_from_except: "heap_from key ns (Suc k) \<Longrightarrow> heap_except key ns k k"
proof -
  assume h: "heap_from key ns (Suc k)"
  have "not_after (key (ns ! p)) (key (ns ! c))" if "k \<le> p" "child p c" "c < length ns" "p \<noteq> k" for p c
    using h that unfolding heap_from_def by (metis Suc_leI le_neq_implies_less)
  then show ?thesis
    by (auto simp: heap_except_def child_def)
qed

lemma build_from:
  "heap_from key ns k \<Longrightarrow> k \<le> length ns \<Longrightarrow>
   heap_from key (fold (adjustHeap key) (rev [0..<k]) ns) 0 \<and>
   mset (fold (adjustHeap key) (rev [0..<k]) ns) = mset ns"
proof (induction k arbitrary: ns)
  case 0
  then show ?case by simp
next
  case (Suc k)
  have "heap_from key (adjustHeap key k ns) k"
    using Suc.prems heap_from_except by (intro adjustHeap_heap) auto
  then show ?case
    using Suc.IH [of "adjustHeap key k ns"] Suc.prems(2) by simp
qed

lemma build_heap_heap:
  assumes "ns \<noteq> []"
  shows "heap_from key (build_heap key ns) 0" "mset (build_heap key ns) = mset ns"
proof -
  have "length ns div 2 + 1 \<le> length ns"
    using assms by (cases ns) auto
  then show "heap_from key (build_heap key ns) 0" "mset (build_heap key ns) = mset ns"
    using build_from [of key ns "length ns div 2 + 1"] heap_from_leaves [of ns "length ns div 2 + 1"]
    by (simp_all add: build_heap_def)
qed

lemma heap_root:
  "heap_from key ns 0 \<Longrightarrow> j < length ns \<Longrightarrow> not_after (key (ns ! 0)) (key (ns ! j))"
proof (induction j rule: less_induct)
  case (less j)
  show ?case
  proof (cases j)
    case 0
    then show ?thesis by simp
  next
    case (Suc j')
    let ?p = "j' div 2"
    have p: "child ?p j" "?p < j"
      using Suc by (auto simp: child_def)
    then have "not_after (key (ns ! ?p)) (key (ns ! j))"
      using less.prems by (auto simp: heap_from_def)
    then show ?thesis
      using less p by (metis not_after_trans less_trans)
  qed
qed

text \<open>Replacing the root keeps the rest in order.\<close>

lemma heap_replace_root:
  "heap_from key ns 0 \<Longrightarrow> heap_except key (ns[0 := n]) 0 0"
  by (auto simp: heap_from_def heap_except_def child_def nth_list_update)

end
