(* ===== verification/Log_Clock.thy ===== *)
theory Log_Clock
  imports Prelude
begin

unbundle bit_operations_syntax

text \<open>
  \<open>TSCNS\<close> of \<open>log/fmtlog.h\<close>: the clock of the logger, which turns the time stamp counter into
  nanoseconds by a factor it calibrates now and then. The operations of the processor on
  \<open>double\<close> and its two clocks are parameters. \<open>int64_t\<close> values are integers: the code's sums and
  differences are of clock readings and stay far from the 64-bit limits.
\<close>

record 'f double_ops =
  d_of_int :: "int \<Rightarrow> 'f"
  d_to_int :: "'f \<Rightarrow> int"
  d_div :: "'f \<Rightarrow> 'f \<Rightarrow> 'f"
  d_mul :: "'f \<Rightarrow> 'f \<Rightarrow> 'f"
  d_sub :: "'f \<Rightarrow> 'f \<Rightarrow> 'f"

record 'k clocks =
  rdtsc :: "'k \<Rightarrow> int \<times> 'k"
  rdsysns :: "'k \<Rightarrow> int \<times> 'k"

record 'f tscns =
  param_seq :: u32
  ns_per_tsc :: 'f
  base_tsc :: int
  base_ns :: int
  calibate_interval_ns :: int
  base_ns_err :: int
  next_calibrate_tsc :: int

definition NsPerSec :: int where "NsPerSec = 1000000000"

section \<open>Synchronising the two clocks\<close>

text \<open>The three readings \<open>(ns[i], tsc[i])\<close>, \<open>i = 1, 2, 3\<close>.\<close>

primrec samples :: "'k clocks \<Rightarrow> nat \<Rightarrow> 'k \<Rightarrow> (int \<times> int) list \<times> 'k" where
  "samples c 0 k = ([], k)"
| "samples c (Suc n) k =
     (let (ns, k1) = rdsysns c k; (tsc, k2) = rdtsc c k1; (rest, k3) = samples c n k2
      in ((ns, tsc) # rest, k3))"

text \<open>The width of window \<open>i\<close> and the narrowest one; \<open>tscs\<close> is the array \<open>tsc[0..3]\<close>.\<close>

definition window :: "int list \<Rightarrow> nat \<Rightarrow> int" where "window tscs i = tscs ! i - tscs ! (i - 1)"

definition best_window :: "int list \<Rightarrow> nat" where
  "best_window tscs =
     fold (\<lambda>i best. if window tscs i < window tscs best then i else best) [2..<length tscs] 1"

definition syncTime :: "'k clocks \<Rightarrow> 'k \<Rightarrow> (int \<times> int) \<times> 'k" where
  "syncTime c k =
     (let (t0, k1) = rdtsc c k; (xs, k2) = samples c 3 k1;
          tscs = t0 # map snd xs; nss = 0 # map fst xs; best = best_window tscs
      in (((tscs ! best + tscs ! (best - 1)) div 2, nss ! best), k2))"

section \<open>The parameters\<close>

definition saveParam ::
  "'f double_ops \<Rightarrow> int \<Rightarrow> int \<Rightarrow> int \<Rightarrow> 'f \<Rightarrow> ('f, 'm) tscns_scheme \<Rightarrow> ('f, 'm) tscns_scheme" where
  "saveParam d b_tsc b_ns sys_ns new_ns_per_tsc s =
     (let s = s\<lparr>base_ns_err := b_ns - sys_ns,
                next_calibrate_tsc :=
                  b_tsc + d_to_int d (d_div d (d_of_int d (calibate_interval_ns s - 1000)) new_ns_per_tsc)\<rparr>;
          s = s\<lparr>param_seq := param_seq s + 1\<rparr>;
          s = s\<lparr>base_tsc := b_tsc, base_ns := b_ns, ns_per_tsc := new_ns_per_tsc\<rparr>
      in s\<lparr>param_seq := param_seq s + 1\<rparr>)"

text \<open>
  \<open>tsc2ns\<close> reads the parameters again and again until the sequence number was even and the same
  before and after.
\<close>

definition to_ns :: "'f double_ops \<Rightarrow> int \<Rightarrow> int \<Rightarrow> int \<Rightarrow> 'f \<Rightarrow> int" where
  "to_ns d tsc b_ns b_tsc per = b_ns + d_to_int d (d_mul d (d_of_int d (tsc - b_tsc)) per)"

partial_function (option) tsc2ns :: "'f double_ops \<Rightarrow> int \<Rightarrow> ('f, 'm) tscns_scheme \<Rightarrow> int option" where
  "tsc2ns d tsc s =
     (let before_seq = param_seq s AND NOT 1;
          ns = to_ns d tsc (base_ns s) (base_tsc s) (ns_per_tsc s);
          after_seq = param_seq s
      in if before_seq = after_seq then Some ns else tsc2ns d tsc s)"

text \<open>\<open>calibrate\<close>; C++ division rounds toward zero and a zero divisor is undefined.\<close>

definition cdiv :: "int \<Rightarrow> int \<Rightarrow> int res" where
  "cdiv a b = (if b = 0 then Inl (Fault Bad_range) else Inr (sgn a * sgn b * (\<bar>a\<bar> div \<bar>b\<bar>)))"

definition calibrate ::
  "'f double_ops \<Rightarrow> 'k clocks \<Rightarrow> 'k \<Rightarrow> ('f, 'm) tscns_scheme \<Rightarrow> (('f, 'm) tscns_scheme \<times> 'k) res option" where
  "calibrate d c k s =
     (let (now, k1) = rdtsc c k
      in if now < next_calibrate_tsc s then Some (Inr (s, k1))
         else let ((tsc, ns), k2) = syncTime c k1
         in case tsc2ns d tsc s of
              None \<Rightarrow> None
            | Some calulated_ns \<Rightarrow>
                let ns_err = calulated_ns - ns
                in Some (bind_res (cdiv ((ns_err - base_ns_err s) * calibate_interval_ns s)
                                        (ns - base_ns s + base_ns_err s)) (\<lambda>q.
                     let expected = ns_err + q;
                         new_ns_per_tsc =
                           d_mul d (ns_per_tsc s)
                             (d_sub d (d_of_int d 1)
                               (d_div d (d_of_int d expected) (d_of_int d (calibate_interval_ns s))))
                     in Inr (saveParam d tsc calulated_ns ns new_ns_per_tsc s, k2))))"

text \<open>\<open>init\<close>: two synchronisations at least \<open>init_calibrate_ns\<close> apart.\<close>

partial_function (option) wait_until :: "'k clocks \<Rightarrow> int \<Rightarrow> 'k \<Rightarrow> 'k option" where
  "wait_until c expire_ns k =
     (case rdsysns c k of (ns, k1) \<Rightarrow> if ns < expire_ns then wait_until c expire_ns k1 else Some k1)"

definition tscns_init ::
  "'f double_ops \<Rightarrow> 'k clocks \<Rightarrow> int \<Rightarrow> int \<Rightarrow> 'k \<Rightarrow> ('f, 'm) tscns_scheme \<Rightarrow>
   (('f, 'm) tscns_scheme \<times> 'k) option" where
  "tscns_init d c init_calibrate_ns calibrate_interval_ns k s =
     (let s = s\<lparr>calibate_interval_ns := calibrate_interval_ns\<rparr>;
          ((b_tsc, b_ns), k1) = syncTime c k
      in case wait_until c (b_ns + init_calibrate_ns) k1 of
           None \<Rightarrow> None
         | Some k2 \<Rightarrow>
             let ((delayed_tsc, delayed_ns), k3) = syncTime c k2;
                 init_ns_per_tsc = d_div d (d_of_int d (delayed_ns - b_ns)) (d_of_int d (delayed_tsc - b_tsc))
             in Some (saveParam d b_tsc b_ns b_ns init_ns_per_tsc s, k3))"

section \<open>Single-threaded facts\<close>

lemma best_window_spec:
  assumes "2 \<le> length tscs"
  shows "1 \<le> best_window tscs \<and> best_window tscs < length tscs \<and>
    (\<forall>i. 1 \<le> i \<longrightarrow> i < length tscs \<longrightarrow> window tscs (best_window tscs) \<le> window tscs i)"
proof -
  let ?f = "\<lambda>i best. if window tscs i < window tscs best then i else best"
  have "1 \<le> fold ?f [2..<n] 1 \<and> fold ?f [2..<n] 1 < n \<and>
      (\<forall>i. 1 \<le> i \<longrightarrow> i < n \<longrightarrow> window tscs (fold ?f [2..<n] 1) \<le> window tscs i)" if "2 \<le> n" for n
    using that
  proof (induction n rule: dec_induct)
    case base
    show ?case by (auto simp: numeral_2_eq_2 less_Suc_eq)
  next
    case (step n)
    then show ?case
      by (auto simp: less_Suc_eq)
  qed
  then show ?thesis
    using assms by (simp add: best_window_def)
qed

lemma tsc2ns_even:
  "param_seq s AND NOT 1 = param_seq s \<Longrightarrow>
   tsc2ns d tsc s = Some (to_ns d tsc (base_ns s) (base_tsc s) (ns_per_tsc s))"
  by (subst tsc2ns.simps) (simp add: Let_def)

lemma tsc2ns_odd:
  assumes "param_seq s AND NOT 1 \<noteq> param_seq s"
  shows "tsc2ns d tsc s = None"
proof -
  have "param_seq t AND NOT 1 = param_seq t" if "tsc2ns d tsc t = Some y" for tsc y and t :: "('a, 'm) tscns_scheme"
    using _ that
  proof (rule tsc2ns.raw_induct)
    fix f and d :: "'a double_ops" and tsc y and t :: "('a, 'm) tscns_scheme"
    assume IH: "\<And>d tsc t y. f d tsc t = Some y \<Longrightarrow> param_seq t AND NOT 1 = param_seq t"
      and run: "(let before_seq = param_seq t AND NOT 1;
                     ns = to_ns d tsc (base_ns t) (base_tsc t) (ns_per_tsc t);
                     after_seq = param_seq t
                 in if before_seq = after_seq then Some ns else f d tsc t) = Some y"
    show "param_seq t AND NOT 1 = param_seq t"
      using run IH [of d tsc t y] by (simp add: Let_def split: if_splits)
  qed
  then show ?thesis
    using assms by (cases "tsc2ns d tsc s") auto
qed

section \<open>The sequence lock\<close>

text \<open>
  \<open>saveParam\<close> in one thread and \<open>tsc2ns\<close> in another, store by store and load by load. \<open>saved\<close>
  records the parameters every completed \<open>saveParam\<close> stored, \<open>stores\<close> counts the stores to
  \<open>param_seq_\<close>.
\<close>

datatype 'f seq_writer =
    W_idle
  | W_seq int int 'f
  | W_tsc int int 'f
  | W_ns int int 'f
  | W_per int int 'f

datatype 'f seq_reader =
    R_idle
  | R_seq u32
  | R_ns u32 int
  | R_tsc u32 int int
  | R_per u32 int int 'f
  | R_done int int 'f

record 'f seq_sys =
  params :: "'f tscns"
  writer :: "'f seq_writer"
  reader :: "'f seq_reader"
  stores :: nat
  saved :: "(int \<times> int \<times> 'f) list"

fun writer_step :: "int \<times> int \<times> 'f \<Rightarrow> 'f seq_sys \<Rightarrow> 'f seq_sys" where
  "writer_step new s =
     (let p = params s
      in case writer s of
           W_idle \<Rightarrow> s\<lparr>params := p\<lparr>param_seq := param_seq p + 1\<rparr>, stores := Suc (stores s),
                       writer := W_seq (fst new) (fst (snd new)) (snd (snd new))\<rparr>
         | W_seq t n f \<Rightarrow> s\<lparr>params := p\<lparr>base_tsc := t\<rparr>, writer := W_tsc t n f\<rparr>
         | W_tsc t n f \<Rightarrow> s\<lparr>params := p\<lparr>base_ns := n\<rparr>, writer := W_ns t n f\<rparr>
         | W_ns t n f \<Rightarrow> s\<lparr>params := p\<lparr>ns_per_tsc := f\<rparr>, writer := W_per t n f\<rparr>
         | W_per t n f \<Rightarrow> s\<lparr>params := p\<lparr>param_seq := param_seq p + 1\<rparr>, stores := Suc (stores s),
                           writer := W_idle, saved := saved s @ [(t, n, f)]\<rparr>)"

fun reader_step :: "'f seq_sys \<Rightarrow> 'f seq_sys" where
  "reader_step s =
     (let p = params s
      in case reader s of
           R_idle \<Rightarrow> s\<lparr>reader := R_seq (param_seq p AND NOT 1)\<rparr>
         | R_seq b \<Rightarrow> s\<lparr>reader := R_ns b (base_ns p)\<rparr>
         | R_ns b n \<Rightarrow> s\<lparr>reader := R_tsc b n (base_tsc p)\<rparr>
         | R_tsc b n t \<Rightarrow> s\<lparr>reader := R_per b n t (ns_per_tsc p)\<rparr>
         | R_per b n t f \<Rightarrow> s\<lparr>reader := (if b = param_seq p then R_done n t f else R_idle)\<rparr>
         | R_done n t f \<Rightarrow> s\<lparr>reader := R_idle\<rparr>)"

inductive seq_reach :: "'f tscns \<Rightarrow> 'f seq_sys \<Rightarrow> bool" for p0 where
  Start: "param_seq p0 = 0 \<Longrightarrow>
    seq_reach p0 \<lparr>params = p0, writer = W_idle, reader = R_idle, stores = 0,
                  saved = [(base_tsc p0, base_ns p0, ns_per_tsc p0)]\<rparr>"
| Write: "seq_reach p0 s \<Longrightarrow> seq_reach p0 (writer_step new s)"
| Read: "seq_reach p0 s \<Longrightarrow> seq_reach p0 (reader_step s)"

lemma clear_low_bit:
  "n < 2 ^ 32 \<Longrightarrow> (of_nat n :: u32) AND NOT 1 = of_nat (2 * (n div 2))"
proof -
  assume n: "n < 2 ^ 32"
  have "(of_nat n :: u32) AND NOT 1 = 2 * (of_nat n div 2)"
    using unset_bit_0 [of "of_nat n :: u32"] by (simp add: unset_bit_eq_and_not)
  moreover have "(of_nat n :: u32) div 2 = of_nat (n div 2)"
    using n by (simp add: word_unat_eq_iff unat_div unat_of_nat take_bit_nat_eq_self)
  ultimately show ?thesis by simp
qed

text \<open>What the reader has read so far is current as long as the sequence number is.\<close>

definition read_current :: "'f seq_sys \<Rightarrow> nat \<Rightarrow> bool" where
  "read_current s m \<longleftrightarrow>
     even m \<and> m \<le> stores s \<and>
     (m = stores s \<longrightarrow>
       (case reader s of
          R_ns b n \<Rightarrow> n = base_ns (params s)
        | R_tsc b n t \<Rightarrow> n = base_ns (params s) \<and> t = base_tsc (params s)
        | R_per b n t f \<Rightarrow> n = base_ns (params s) \<and> t = base_tsc (params s) \<and> f = ns_per_tsc (params s)
        | _ \<Rightarrow> True))"

definition seq_inv :: "'f seq_sys \<Rightarrow> bool" where
  "seq_inv s \<longleftrightarrow>
     param_seq (params s) = of_nat (stores s) \<and>
     (case writer s of
        W_idle \<Rightarrow> even (stores s) \<and>
          (base_tsc (params s), base_ns (params s), ns_per_tsc (params s)) \<in> set (saved s)
      | W_seq t n f \<Rightarrow> odd (stores s)
      | W_tsc t n f \<Rightarrow> odd (stores s) \<and> base_tsc (params s) = t
      | W_ns t n f \<Rightarrow> odd (stores s) \<and> base_tsc (params s) = t \<and> base_ns (params s) = n
      | W_per t n f \<Rightarrow> odd (stores s) \<and> base_tsc (params s) = t \<and> base_ns (params s) = n \<and>
          ns_per_tsc (params s) = f) \<and>
     (case reader s of
        R_idle \<Rightarrow> True
      | R_seq b \<Rightarrow> \<exists>m. b = of_nat m \<and> read_current s m
      | R_ns b n \<Rightarrow> \<exists>m. b = of_nat m \<and> read_current s m
      | R_tsc b n t \<Rightarrow> \<exists>m. b = of_nat m \<and> read_current s m
      | R_per b n t f \<Rightarrow> \<exists>m. b = of_nat m \<and> read_current s m
      | R_done n t f \<Rightarrow> (t, n, f) \<in> set (saved s))"

lemma writer_step_inv: "seq_inv s \<Longrightarrow> seq_inv (writer_step new s)"
  unfolding seq_inv_def
  by (cases "writer s"; cases "reader s") (fastforce simp: read_current_def Let_def)+

lemma of_nat_u32_inj: "m \<le> n \<Longrightarrow> n < 2 ^ 32 \<Longrightarrow> (of_nat m :: u32) = of_nat n \<Longrightarrow> m = n"
  by (drule arg_cong [where f = unat]) (simp add: unat_of_nat take_bit_nat_eq_self)

lemma reader_step_inv:
  assumes inv: "seq_inv s" and n: "stores s < 2 ^ 32"
  shows "seq_inv (reader_step s)"
proof (cases "reader s")
  case R_idle
  have "param_seq (params s) AND NOT 1 = of_nat (2 * (stores s div 2))"
    using inv clear_low_bit [OF n] by (simp add: seq_inv_def)
  moreover have "\<exists>m. 2 * word_of_nat (stores s div 2) = (of_nat m :: u32) \<and>
      read_current (s\<lparr>reader := R_seq b\<rparr>) m" for b
    by (rule exI [of _ "2 * (stores s div 2)"]) (simp add: read_current_def)
  ultimately show ?thesis
    using inv R_idle by (auto simp: seq_inv_def Let_def cong: seq_writer.case_cong)
next
  case (R_per b bn bt f)
  have "(bt, bn, f) \<in> set (saved s)" if "b = param_seq (params s)"
  proof -
    obtain m where m: "b = of_nat m" "read_current s m"
      using inv R_per by (auto simp: seq_inv_def)
    then have "m = stores s"
      using that inv n by (intro of_nat_u32_inj) (auto simp: seq_inv_def read_current_def)
    then show ?thesis
      using m inv R_per by (cases "writer s") (auto simp: seq_inv_def read_current_def)
  qed
  then show ?thesis
    using inv R_per by (auto simp: seq_inv_def Let_def cong: seq_writer.case_cong)
qed (use inv in \<open>auto simp: seq_inv_def read_current_def Let_def cong: seq_writer.case_cong\<close>)

lemma writer_step_stores: "stores s \<le> stores (writer_step new s)"
  by (simp add: Let_def split: seq_writer.split)

lemma reader_step_stores [simp]: "stores (reader_step s) = stores s"
  by (simp add: Let_def split: seq_reader.split)

lemma seq_reach_inv: "seq_reach p0 s \<Longrightarrow> stores s < 2 ^ 32 \<Longrightarrow> seq_inv s"
proof (induction rule: seq_reach.induct)
  case Start
  then show ?case by (simp add: seq_inv_def)
next
  case (Write s new)
  then show ?case
    using writer_step_stores [of s new] writer_step_inv [of s new] by (simp del: writer_step.simps)
next
  case (Read s)
  then show ?case
    using reader_step_inv [of s] by (simp del: reader_step.simps)
qed

lemma seq_reach_consistent:
  "seq_reach p0 s \<Longrightarrow> stores s < 2 ^ 32 \<Longrightarrow> reader s = R_done n t f \<Longrightarrow> (t, n, f) \<in> set (saved s)"
  using seq_reach_inv [of p0 s] by (simp add: seq_inv_def)

end
