(* ===== verification/Log_Text.thy ===== *)
theory Log_Text
  imports Xfly_Conf
begin

text \<open>
  The text helpers of the logger: \<open>Str::fromi\<close> (decimal digits of fixed width) and
  \<open>processLocation\<close> (the file name in a location).
\<close>

section \<open>Digits\<close>

definition digit_pairs :: string where
  "digit_pairs =
     ''00010203040506070809'' @ ''10111213141516171819'' @ ''20212223242526272829'' @
     ''30313233343536373839'' @ ''40414243444546474849'' @ ''50515253545556575859'' @
     ''60616263646566676869'' @ ''70717273747576777879'' @ ''80818283848586878889'' @
     ''90919293949596979899''"

text \<open>Storing two characters of the table at \<open>i\<close>.\<close>

definition put_pair :: "nat \<Rightarrow> nat \<Rightarrow> string \<Rightarrow> string" where
  "put_pair i num s =
     s[i := digit_pairs ! (2 * (num mod 100)), Suc i := digit_pairs ! (2 * (num mod 100) + 1)]"

text \<open>The cases of the switch, each falling through to the next.\<close>

primrec put_pairs :: "nat \<Rightarrow> nat \<Rightarrow> string \<Rightarrow> string" where
  "put_pairs 0 num s = s"
| "put_pairs (Suc k) num s = put_pairs k (num div 100) (put_pair (2 * k) num s)"

definition digit_char :: "nat \<Rightarrow> char" where "digit_char d = char_of (48 + d)"

definition fromi :: "nat \<Rightarrow> string \<Rightarrow> string" where
  "fromi num s =
     (let (num, s) = (if odd (length s) then (num div 10, s[length s - 1 := digit_char (num mod 10)])
                      else (num, s))
      in if length s div 2 \<le> 9 then put_pairs (length s div 2) num s else s)"

text \<open>The lowest \<open>w\<close> decimal digits, the highest first.\<close>

definition low_digits :: "nat \<Rightarrow> nat \<Rightarrow> string" where
  "low_digits w num = map (\<lambda>i. digit_char (num div 10 ^ (w - 1 - i) mod 10)) [0..<w]"

lemma digit_char_simps:
  "digit_char 0 = CHR ''0''" "digit_char 1 = CHR ''1''" "digit_char (Suc 0) = CHR ''1''"
  "digit_char 2 = CHR ''2''" "digit_char (Suc (Suc 0)) = CHR ''2''" "digit_char 3 = CHR ''3''"
  "digit_char 4 = CHR ''4''" "digit_char 5 = CHR ''5''" "digit_char 6 = CHR ''6''"
  "digit_char 7 = CHR ''7''" "digit_char 8 = CHR ''8''" "digit_char 9 = CHR ''9''"
  by code_simp+

lemma digit_pairs_concat:
  "digit_pairs = concat (map (\<lambda>n. [digit_char (n div 10), digit_char (n mod 10)]) [0..<100])"
  by (simp add: digit_pairs_def digit_char_simps upt_rec_numeral upt_rec)

lemma concat_pairs_nth:
  "k < n \<Longrightarrow> concat (map (\<lambda>i. [f i, g i]) [0..<n]) ! (2 * k) = f k \<and>
   concat (map (\<lambda>i. [f i, g i]) [0..<n]) ! (2 * k + 1) = g k"
proof (induction n)
  case 0
  then show ?case by simp
next
  case (Suc n)
  have "length (concat (map (\<lambda>i. [f i, g i]) [0..<n])) = 2 * n"
    by (induction n) simp_all
  then show ?case
    using Suc by (cases "k = n") (auto simp: nth_append)
qed

lemma digit_pairs_nth:
  "n < 100 \<Longrightarrow> digit_pairs ! (2 * n) = digit_char (n div 10) \<and> digit_pairs ! (2 * n + 1) = digit_char (n mod 10)"
  unfolding digit_pairs_concat
  using concat_pairs_nth [of n 100 "\<lambda>n. digit_char (n div 10)" "\<lambda>n. digit_char (n mod 10)"] .

lemma low_digits_Suc: "low_digits (Suc w) num = low_digits w (num div 10) @ [digit_char (num mod 10)]"
proof -
  have "num div 10 ^ (w - i) = num div 10 div 10 ^ (w - 1 - i)" if "i < w" for i
  proof -
    have "w - i = Suc (w - 1 - i)" using that by simp
    then show ?thesis by (simp only: power_Suc div_mult2_eq)
  qed
  then show ?thesis
    by (simp add: low_digits_def)
qed

lemma low_digits_0 [simp]: "low_digits 0 num = []"
  by (simp add: low_digits_def)

lemma length_low_digits [simp]: "length (low_digits w num) = w"
  by (simp add: low_digits_def)

lemma drop_put_pair:
  assumes "Suc (Suc i) \<le> length s"
  shows "drop i (put_pair i num s) =
    digit_char (num div 10 mod 10) # digit_char (num mod 10) # drop (Suc (Suc i)) s"
proof -
  have "num mod 100 = 10 * (num div 10 mod 10) + num mod 10"
    using mod_mult2_eq [of num 10 10] by simp
  then have "num mod 100 div 10 = num div 10 mod 10" "num mod 100 mod 10 = num mod 10"
    by simp_all
  then have p: "put_pair i num s = s[i := digit_char (num div 10 mod 10), Suc i := digit_char (num mod 10)]"
    using digit_pairs_nth [of "num mod 100"] by (simp add: put_pair_def)
  obtain xs a b ys where s: "s = xs @ a # b # ys" "length xs = i"
    using assms id_take_nth_drop [of i s] Cons_nth_drop_Suc [of "Suc i" s]
    by (metis Suc_le_lessD Suc_lessD length_take min.absorb2 nat_less_le)
  show ?thesis
    unfolding p unfolding s(1) using s(2) by (simp add: list_update_append)
qed

lemma put_pairs_digits:
  "2 * k \<le> length s \<Longrightarrow> put_pairs k num s = low_digits (2 * k) num @ drop (2 * k) s"
proof (induction k arbitrary: num s)
  case 0
  then show ?case by simp
next
  case (Suc k)
  have "2 * Suc k = Suc (Suc (2 * k))" by simp
  then have "low_digits (2 * Suc k) num =
      low_digits (2 * k) (num div 100) @ [digit_char (num div 10 mod 10), digit_char (num mod 10)]"
    by (simp add: low_digits_Suc div_mult2_eq flip: div_mult2_eq)
  moreover have "length (put_pair (2 * k) num s) = length s"
    by (simp add: put_pair_def)
  ultimately show ?case
    using Suc.IH [of "put_pair (2 * k) num s" "num div 100"] Suc.prems drop_put_pair [of "2 * k" s num]
    by simp
qed

lemma fromi_digits:
  assumes "length s \<le> 19"
  shows "fromi num s = low_digits (length s) num"
proof (cases "odd (length s)")
  case True
  then obtain w where w: "length s = Suc (2 * w)" by (auto elim: oddE)
  let ?s = "s[2 * w := digit_char (num mod 10)]"
  have "drop (2 * w) ?s = [digit_char (num mod 10)]"
    using w by (simp add: drop_update_swap) (metis Cons_nth_drop_Suc drop_all lessI list_update_code(2) order_refl)
  then show ?thesis
    using w assms put_pairs_digits [of w ?s "num div 10"] by (simp add: fromi_def low_digits_Suc)
next
  case False
  then show ?thesis
    using assms put_pairs_digits [of "length s div 2" s num] by (auto simp: fromi_def elim!: evenE)
qed

section \<open>The file name in a location\<close>

text \<open>
  \<open>processLocation\<close>: the location is cut to its last 255 characters; \<open>base\<close> is what follows the last
  separator.
\<close>

record static_location =
  location :: string
  basePos :: u8
  endPos :: u8

definition is_separator :: "char \<Rightarrow> bool" where
  "is_separator c \<longleftrightarrow> c = CHR ''/'' \<or> c = CHR 0x5C"

text \<open>The scan from \<open>p\<close> down to the start of the location: the number of characters before \<open>base\<close>.\<close>

primrec scan_base :: "string \<Rightarrow> nat \<Rightarrow> nat" where
  "scan_base loc 0 = 0"
| "scan_base loc (Suc p) = (if is_separator (loc ! p) then Suc p else scan_base loc p)"

definition processLocation :: "'m static_location_scheme \<Rightarrow> 'm static_location_scheme" where
  "processLocation info =
     (let sz = length (location info);
          loc = (if 255 < sz then drop (sz - 255) (location info) else location info);
          e = length loc
      in info\<lparr>location := loc, endPos := of_nat e, basePos := of_nat (scan_base loc e)\<rparr>)"

definition getBase :: "'m static_location_scheme \<Rightarrow> string" where
  "getBase info = take (unat (endPos info) - unat (basePos info)) (drop (unat (basePos info)) (location info))"

definition getLocation :: "'m static_location_scheme \<Rightarrow> string" where
  "getLocation info = take (unat (endPos info)) (location info)"

lemma scan_base_spec:
  "scan_base loc p \<le> p \<and> (\<forall>j. scan_base loc p \<le> j \<longrightarrow> j < p \<longrightarrow> \<not> is_separator (loc ! j)) \<and>
   (0 < scan_base loc p \<longrightarrow> is_separator (loc ! (scan_base loc p - 1)))"
  by (induction p) (auto simp: less_Suc_eq)

lemma unat_of_nat_u8: "n < 256 \<Longrightarrow> unat (of_nat n :: u8) = n"
  by (simp add: unat_of_nat take_bit_nat_eq_self)

lemma processLocation_parts:
  fixes info :: "'m static_location_scheme"
  defines "loc \<equiv> drop (length (location info) - 255) (location info)"
  shows "getLocation (processLocation info) = loc"
    and "\<exists>dir. loc = dir @ getBase (processLocation info) \<and>
      (\<forall>c \<in> set (getBase (processLocation info)). \<not> is_separator c) \<and>
      (dir \<noteq> [] \<longrightarrow> is_separator (last dir))"
proof -
  have loc: "(if 255 < length (location info) then drop (length (location info) - 255) (location info)
      else location info) = loc"
    by (simp add: loc_def)
  have len: "length loc \<le> 255" by (simp add: loc_def)
  let ?b = "scan_base loc (length loc)"
  note sb = scan_base_spec [of loc "length loc"]
  have u: "unat (of_nat (length loc) :: u8) = length loc" "unat (of_nat ?b :: u8) = ?b"
    using len sb by (intro unat_of_nat_u8; simp)+
  show "getLocation (processLocation info) = loc"
    using u by (simp add: getLocation_def processLocation_def loc Let_def)
  have base: "getBase (processLocation info) = drop ?b loc"
    using u by (simp add: getBase_def processLocation_def loc Let_def)
  have "\<not> is_separator c" if "c \<in> set (drop ?b loc)" for c
    using that sb by (auto simp: in_set_conv_nth)
  moreover have "is_separator (last (take ?b loc))" if "take ?b loc \<noteq> []"
    using that sb by (simp add: last_conv_nth min_absorb2)
  ultimately show "\<exists>dir. loc = dir @ getBase (processLocation info) \<and>
      (\<forall>c \<in> set (getBase (processLocation info)). \<not> is_separator c) \<and>
      (dir \<noteq> [] \<longrightarrow> is_separator (last dir))"
    unfolding base by (intro exI [of _ "take ?b loc"]) auto
qed

end
