(* ===== verification/Log_Pattern.thy ===== *)
theory Log_Pattern
  imports Log_Text
begin

text \<open>
  \<open>unNameFormat\<close>: a format string with named arguments becomes one without names. With \<open>Reorder\<close> (the
  header pattern) the fields are numbered as they come and \<open>reorderIdx\<close> says which field shows which
  argument; without (log statements) the name is replaced by the argument's index. What can start a
  name is decided by the formatting library, so it is a parameter \<open>ns\<close>.
\<close>

section \<open>Translating a format string\<close>

text \<open>\<open>storeNamedArgs\<close>: the named ones among the arguments, with their indices.\<close>

fun storeNamedArgs :: "nat \<Rightarrow> string option list \<Rightarrow> (string \<times> nat) list" where
  "storeNamedArgs idx [] = []"
| "storeNamedArgs idx (Some n # args) = (n, idx) # storeNamedArgs (idx + 1) args"
| "storeNamedArgs idx (None # args) = storeNamedArgs (idx + 1) args"

text \<open>Writing to the array of \<open>cap\<close> characters that is allocated for the result.\<close>

definition emit :: "nat \<Rightarrow> string \<Rightarrow> string \<Rightarrow> string res" where
  "emit cap out new =
     (if length out + length new \<le> cap then Inr (out @ new) else Inl (Fault Out_of_bounds))"

definition name_char :: "(char \<Rightarrow> bool) \<Rightarrow> char \<Rightarrow> bool" where
  "name_char ns c \<longleftrightarrow> ns c \<or> (CHR ''0'' \<le> c \<and> c \<le> CHR ''9'')"

lemma dropWhile_shorter:
  assumes "dropWhile P p = b # c # q"
  shows "length (dropWhile Q q) < length p" "length q < length p"
proof -
  have "Suc (Suc (length q)) \<le> length p"
    using length_dropWhile_le [of P p] assms by simp
  then show "length (dropWhile Q q) < length p" "length q < length p"
    using length_dropWhile_le [of Q q] by simp_all
qed

function unName_loop ::
  "(char \<Rightarrow> bool) \<Rightarrow> bool \<Rightarrow> (string \<times> nat) list \<Rightarrow> nat \<Rightarrow> string \<Rightarrow> string \<Rightarrow> nat list \<Rightarrow> u8 \<Rightarrow>
   (string \<times> nat list) res" where
  "unName_loop ns reorder names cap p out ro arg_idx =
     (let pre = takeWhile (\<lambda>c. c \<noteq> CHR ''{'') p
      in case dropWhile (\<lambda>c. c \<noteq> CHR ''{'') p of
           [] \<Rightarrow> bind_res (emit cap out pre) (\<lambda>out. Inr (out, ro))
         | b # q \<Rightarrow>
             bind_res (emit cap out (pre @ [b])) (\<lambda>out.
               case q of
                 [] \<Rightarrow> Inl (Fault Uncaught)
               | c # q' \<Rightarrow>
                   if ns c
                   then (case map_of names (c # takeWhile (name_char ns) q') of
                           None \<Rightarrow> Inl (Fault Uncaught)
                         | Some i \<Rightarrow>
                             if reorder
                             then unName_loop ns reorder names cap (dropWhile (name_char ns) q') out
                                    (ro[i := unat arg_idx]) (arg_idx + 1)
                             else bind_res (emit cap out (dec_of_nat i)) (\<lambda>out.
                                    unName_loop ns reorder names cap (dropWhile (name_char ns) q') out
                                      ro arg_idx))
                   else bind_res (emit cap out [c]) (\<lambda>out.
                          unName_loop ns reorder names cap q' out ro arg_idx)))"
  by pat_completeness auto
termination
  by (relation "measure (\<lambda>(ns, reorder, names, cap, p, out, ro, k). length p)")
    (auto dest: dropWhile_shorter)

declare unName_loop.simps [simp del]

definition unNameFormat ::
  "(char \<Rightarrow> bool) \<Rightarrow> bool \<Rightarrow> string \<Rightarrow> nat list \<Rightarrow> string option list \<Rightarrow> (string \<times> nat list) res" where
  "unNameFormat ns reorder inp ro args =
     (let names = storeNamedArgs 0 args
      in if names = [] then Inr (inp, ro)
         else unName_loop ns reorder names (length inp + 1 + length names * 5) inp [] ro 0)"

section \<open>The header pattern\<close>

definition parttenArgSize :: nat where "parttenArgSize = 25"

definition header_names :: "string list" where
  "header_names =
     [''a'', ''b'', ''C'', ''Y'', ''m'', ''d'', ''t'', ''F'', ''f'', ''e'', ''S'', ''M'', ''H'', ''l'', ''s'', ''g'',
      ''Ymd'', ''HMS'', ''HMSe'', ''HMSf'', ''HMSF'', ''YmdHMS'', ''YmdHMSe'', ''YmdHMSf'', ''YmdHMSF'']"

text \<open>
  \<open>setHeaderPattern\<close>: \<open>reorderIdx\<close> starts with the last position for every argument, the translation
  overwrites the positions of those the pattern names, and each value \<open>vals ! i\<close> is stored at its
  position. The result is the pattern without names and the array \<open>args\<close>.
\<close>

definition setArg :: "nat list \<Rightarrow> nat \<Rightarrow> 'v \<Rightarrow> 'v list \<Rightarrow> 'v list" where
  "setArg ro i v args = args[ro ! i := v]"

definition setHeaderPattern ::
  "(char \<Rightarrow> bool) \<Rightarrow> string \<Rightarrow> 'v list \<Rightarrow> 'v list \<Rightarrow> (string \<times> nat list \<times> 'v list) res" where
  "setHeaderPattern ns pattern vals args =
     bind_res (unNameFormat ns True pattern (replicate parttenArgSize (parttenArgSize - 1))
                (map Some header_names)) (\<lambda>(header, ro).
       Inr (header, ro, fold (\<lambda>i. setArg ro i (vals ! i)) [0..<parttenArgSize] args))"

section \<open>What the translation does\<close>

text \<open>
  A pattern: text without an opening brace, then fields, each a name and the text that follows it up to
  the next field.
\<close>

primrec render_fields :: "(string \<times> string) list \<Rightarrow> string" where
  "render_fields [] = []"
| "render_fields (f # fs) = CHR ''{'' # fst f @ snd f @ render_fields fs"

primrec unnamed_fields :: "(string \<times> string) list \<Rightarrow> string" where
  "unnamed_fields [] = []"
| "unnamed_fields (f # fs) = CHR ''{'' # snd f @ unnamed_fields fs"

definition field_ok :: "(char \<Rightarrow> bool) \<Rightarrow> string \<times> string \<Rightarrow> bool" where
  "field_ok ns f \<longleftrightarrow> fst f \<noteq> [] \<and> ns (hd (fst f)) \<and> (\<forall>c \<in> set (fst f). name_char ns c) \<and>
     snd f \<noteq> [] \<and> \<not> name_char ns (hd (snd f)) \<and> CHR ''{'' \<notin> set (snd f)"

text \<open>The positions: field \<open>j\<close> shows the argument its name stands for.\<close>

fun place_fields :: "(string \<times> nat) list \<Rightarrow> (string \<times> string) list \<Rightarrow> nat \<Rightarrow> nat list \<Rightarrow> nat list" where
  "place_fields names [] k ro = ro"
| "place_fields names (f # fs) k ro = place_fields names fs (k + 1) (ro[the (map_of names (fst f)) := k])"

lemma text_brace:
  "CHR ''{'' \<notin> set t \<Longrightarrow>
   takeWhile (\<lambda>c. c \<noteq> CHR ''{'') (t @ CHR ''{'' # r) = t \<and>
   dropWhile (\<lambda>c. c \<noteq> CHR ''{'') (t @ CHR ''{'' # r) = CHR ''{'' # r"
  by (induction t) auto

lemma text_plain:
  "CHR ''{'' \<notin> set t \<Longrightarrow>
   takeWhile (\<lambda>c. c \<noteq> CHR ''{'') t = t \<and> dropWhile (\<lambda>c. c \<noteq> CHR ''{'') t = []"
  by (induction t) auto

lemma name_span:
  "\<forall>c \<in> set n. P c \<Longrightarrow> r \<noteq> [] \<Longrightarrow> \<not> P (hd r) \<Longrightarrow> takeWhile P (n @ r) = n \<and> dropWhile P (n @ r) = r"
  by (induction n) (cases r; auto)+

lemma unName_fields:
  assumes "\<forall>f \<in> set fs. field_ok ns f \<and> map_of names (fst f) \<noteq> None" "CHR ''{'' \<notin> set pre"
    "k + length fs < 256" "length out + length pre + length (unnamed_fields fs) \<le> cap"
  shows "unName_loop ns True names cap (pre @ render_fields fs) out ro (of_nat k) =
    Inr (out @ pre @ unnamed_fields fs, place_fields names fs k ro)"
  using assms
proof (induction fs arbitrary: pre out ro k)
  case Nil
  then show ?case
    by (subst unName_loop.simps) (simp add: emit_def text_plain Let_def)
next
  case (Cons f fs)
  obtain c n t where f: "f = (c # n, t)" "ns c" "\<forall>d \<in> set n. name_char ns d" "t \<noteq> []"
      "\<not> name_char ns (hd t)" "CHR ''{'' \<notin> set t"
    using Cons.prems(1) by (cases f; cases "fst f") (auto simp: field_ok_def)
  obtain i where i: "map_of names (c # n) = Some i"
    using Cons.prems(1) f(1) by auto
  have k: "unat (of_nat k :: u8) = k" "(of_nat k :: u8) + 1 = of_nat (k + 1)"
    using Cons.prems(3) by (simp_all add: unat_of_nat_u8)
  have span: "takeWhile (name_char ns) (n @ t @ render_fields fs) = n"
    "dropWhile (name_char ns) (n @ t @ render_fields fs) = t @ render_fields fs"
    using name_span [of n "name_char ns" "t @ render_fields fs"] f(3-5) by auto
  have "unName_loop ns True names cap (pre @ render_fields (f # fs)) out ro (of_nat k) =
      unName_loop ns True names cap (t @ render_fields fs) (out @ pre @ [CHR ''{'']) (ro[i := k]) (of_nat (k + 1))"
    using Cons.prems(2,4) f(1,2) i k span
    by (subst unName_loop.simps) (simp add: emit_def text_brace Let_def add.commute)
  also have "\<dots> = Inr ((out @ pre @ [CHR ''{'']) @ t @ unnamed_fields fs, place_fields names fs (k + 1) (ro[i := k]))"
    using Cons.prems f by (intro Cons.IH) auto
  finally show ?case
    using f(1) i by simp
qed

section \<open>Each field shows its argument\<close>

lemma storeNamedArgs_all: "storeNamedArgs k (map Some ns) = zip ns [k..<k + length ns]"
  by (induction ns arbitrary: k) (simp_all add: upt_conv_Cons del: upt_Suc)

lemma map_of_zip_index:
  "distinct ns \<Longrightarrow> map_of (zip ns [0..<length ns]) n = Some i \<longleftrightarrow> i < length ns \<and> ns ! i = n"
  by (subst map_of_eq_Some_iff) (auto simp: in_set_zip)

lemma length_unnamed: "length (unnamed_fields fs) \<le> length (render_fields fs)"
  by (induction fs) auto

lemma place_fields_length [simp]: "length (place_fields names fs k ro) = length ro"
  by (induction names fs k ro rule: place_fields.induct) simp_all

lemma place_fields_nth:
  assumes "i < length ro" "distinct (map fst fs)" "\<forall>f \<in> set fs. map_of names (fst f) \<noteq> None"
    and inj: "\<And>n m j. map_of names n = Some j \<Longrightarrow> map_of names m = Some j \<Longrightarrow> n = m"
  shows "(\<forall>j < length fs. map_of names (fst (fs ! j)) = Some i \<longrightarrow> place_fields names fs k ro ! i = k + j) \<and>
    ((\<forall>f \<in> set fs. map_of names (fst f) \<noteq> Some i) \<longrightarrow> place_fields names fs k ro ! i = ro ! i)"
  using assms(1-3)
proof (induction fs arbitrary: k ro)
  case Nil
  then show ?case by simp
next
  case (Cons f fs)
  obtain i0 where i0: "map_of names (fst f) = Some i0"
    using Cons.prems(3) by auto
  let ?ro = "ro[i0 := k]"
  have IH: "(\<forall>j < length fs. map_of names (fst (fs ! j)) = Some i \<longrightarrow> place_fields names fs (k + 1) ?ro ! i = k + 1 + j) \<and>
    ((\<forall>f \<in> set fs. map_of names (fst f) \<noteq> Some i) \<longrightarrow> place_fields names fs (k + 1) ?ro ! i = ?ro ! i)"
    using Cons.prems by (intro Cons.IH) auto
  have other: "map_of names (fst g) \<noteq> Some i0" if "g \<in> set fs" for g
    using inj [OF i0] Cons.prems(2) that by auto
  have "place_fields names (f # fs) k ro ! i = k + j"
    if "j < length (f # fs)" "map_of names (fst ((f # fs) ! j)) = Some i" for j
  proof (cases j)
    case 0
    then have "i0 = i" using that i0 by simp
    then show ?thesis using IH other Cons.prems(1) i0 0 by auto
  next
    case (Suc j')
    then show ?thesis using IH that i0 by auto
  qed
  moreover have "place_fields names (f # fs) k ro ! i = ro ! i"
    if "\<forall>g \<in> set (f # fs). map_of names (fst g) \<noteq> Some i"
    using that IH i0 by auto
  ultimately show ?case by blast
qed

lemma fold_setArg:
  assumes "\<forall>i' \<in> set is. i' \<noteq> i \<longrightarrow> ro ! i' \<noteq> j" "ro ! i = j" "j < length args"
  shows "fold (\<lambda>i. setArg ro i (vals ! i)) is args ! j = (if i \<in> set is then vals ! i else args ! j)"
  using assms
proof (induction "is" arbitrary: args)
  case Nil
  then show ?case by simp
next
  case (Cons i' "is")
  then show ?case by (cases "i' = i") (auto simp: setArg_def nth_list_update)
qed

lemma length_fold_setArg [simp]: "length (fold (\<lambda>i. setArg ro i (vals ! i)) is args) = length args"
  by (induction "is" arbitrary: args) (simp_all add: setArg_def)

lemma header_names_nonempty: "header_names \<noteq> []"
  by (simp add: header_names_def)

lemma header_names_distinct: "distinct header_names" "length header_names = parttenArgSize"
  by code_simp+

lemma setHeaderPattern_fields:
  assumes fs: "\<forall>f \<in> set fs. field_ok ns f \<and> fst f \<in> set header_names" "distinct (map fst fs)"
      "length fs < parttenArgSize"
    and pre: "CHR ''{'' \<notin> set pre" and args: "length args = parttenArgSize"
  shows "\<exists>ro args'. setHeaderPattern ns (pre @ render_fields fs) vals args =
        Inr (pre @ unnamed_fields fs, ro, args') \<and>
      (\<forall>j < length fs. \<exists>i < parttenArgSize. header_names ! i = fst (fs ! j) \<and> args' ! j = vals ! i)"
proof -
  let ?names = "zip header_names [0..<length header_names]"
  let ?start = "replicate parttenArgSize (parttenArgSize - 1)"
  let ?ro = "place_fields ?names fs 0 ?start"
  let ?args = "fold (\<lambda>i. setArg ?ro i (vals ! i)) [0..<parttenArgSize] args"
  note index = map_of_zip_index [OF header_names_distinct(1)]
  have names: "storeNamedArgs 0 (map Some header_names) = ?names" "?names \<noteq> []"
    using storeNamedArgs_all [of 0 header_names] header_names_distinct(2)
    by (auto simp: parttenArgSize_def)
  have known: "\<forall>f \<in> set fs. map_of ?names (fst f) \<noteq> None"
    using fs(1) index by (metis in_set_conv_nth option.distinct(1))
  have run: "unNameFormat ns True (pre @ render_fields fs) ?start (map Some header_names) =
      Inr (pre @ unnamed_fields fs, ?ro)"
    using unName_fields [of fs ns ?names pre 0 "[]" _ ?start] fs known pre length_unnamed [of fs]
    by (simp add: unNameFormat_def names Let_def parttenArgSize_def header_names_nonempty)
  have ro: "(\<forall>j < length fs. map_of ?names (fst (fs ! j)) = Some i \<longrightarrow> ?ro ! i = j) \<and>
      ((\<forall>f \<in> set fs. map_of ?names (fst f) \<noteq> Some i) \<longrightarrow> ?ro ! i = parttenArgSize - 1)"
    if "i < parttenArgSize" for i
    using place_fields_nth [of i ?start fs ?names 0] that fs(2) known index by auto
  have "\<exists>i < parttenArgSize. header_names ! i = fst (fs ! j) \<and> ?args ! j = vals ! i" if j: "j < length fs" for j
  proof -
    obtain i where i: "map_of ?names (fst (fs ! j)) = Some i"
      using known j by (meson nth_mem option.exhaust)
    then have i': "i < parttenArgSize" "header_names ! i = fst (fs ! j)"
      using index header_names_distinct(2) by auto
    have "?ro ! i' \<noteq> j" if "i' < parttenArgSize" "i' \<noteq> i" for i'
    proof (cases "\<exists>j' < length fs. map_of ?names (fst (fs ! j')) = Some i'")
      case True
      then obtain j' where j': "j' < length fs" "map_of ?names (fst (fs ! j')) = Some i'" by blast
      then have "?ro ! i' = j'" using ro [OF that(1)] by blast
      moreover have "j' \<noteq> j" using j'(2) i that(2) by auto
      ultimately show ?thesis by simp
    next
      case False
      then have "\<forall>f \<in> set fs. map_of ?names (fst f) \<noteq> Some i'"
        by (metis in_set_conv_nth)
      then have "?ro ! i' = parttenArgSize - 1"
        using ro [OF that(1)] by blast
      then show ?thesis using j fs(3) by simp
    qed
    then have "?args ! j = vals ! i"
      using fold_setArg [of "[0..<parttenArgSize]" i ?ro j args vals] ro [OF i'(1)] i i' j fs(3) args by auto
    then show ?thesis using i' by blast
  qed
  then show ?thesis
    using run by (auto simp: setHeaderPattern_def)
qed

end
