(* ===== verification/Log_Backend.thy ===== *)
theory Log_Backend
  imports Log_Args Log_Heap Log_Clock Log_Pattern Socket_State
begin

text \<open>
  \<open>fmtlogDetailT\<close> of \<open>log/fmtlog-inl.h\<close>: the polling side of the logger. It registers log statements
  and thread buffers, merges the messages of all threads by time stamp, formats each into the memory
  buffer and flushes the buffer to the log file. The formatting library, the C library's files and
  calendar, the clocks and the processor's \<open>double\<close> arithmetic are parameters (\<open>log_env\<close>).
\<close>

section \<open>Levels\<close>

definition level_num :: "log_level \<Rightarrow> nat" where
  "level_num l = (case l of L_DBG \<Rightarrow> 0 | L_INF \<Rightarrow> 1 | L_WRN \<Rightarrow> 2 | L_ERR \<Rightarrow> 3 | L_OFF \<Rightarrow> 4)"

instantiation log_level :: linorder
begin

definition less_eq_log_level :: "log_level \<Rightarrow> log_level \<Rightarrow> bool" where
  "less_eq_log_level a b \<longleftrightarrow> level_num a \<le> level_num b"

definition less_log_level :: "log_level \<Rightarrow> log_level \<Rightarrow> bool" where
  "less_log_level a b \<longleftrightarrow> level_num a < level_num b"

instance
proof
  fix a b c :: log_level
  show "a < b \<longleftrightarrow> a \<le> b \<and> \<not> b \<le> a" "a \<le> a" "a \<le> b \<or> b \<le> a"
    by (auto simp: less_eq_log_level_def less_log_level_def)
  show "a \<le> b \<Longrightarrow> b \<le> c \<Longrightarrow> a \<le> c"
    by (simp add: less_eq_log_level_def)
  show "a \<le> b \<Longrightarrow> b \<le> a \<Longrightarrow> a = b"
    by (cases a; cases b) (simp_all add: less_eq_log_level_def level_num_def)
qed

end

text \<open>\<open>checkLogLevel\<close>\<close>

definition checkLogLevel :: "log_level \<Rightarrow> log_level \<Rightarrow> bool" where
  "checkLogLevel current l \<longleftrightarrow> current \<le> l"

text \<open>The three characters that name a level.\<close>

definition level_name :: "log_level \<Rightarrow> string" where
  "level_name l = take 3 (drop (4 * level_num l) ''DBG INF WRN ERR OFF'')"

section \<open>State\<close>

record thread_buffer =
  tb_varq :: varq
  shouldDeallocate :: bool
  tb_name :: string
  nameSize :: nat

record heap_node =
  node_tb :: nat
  node_header :: "u32 option"

text \<open>
  \<open>StaticLogInfo\<close>. \<open>formatToFn\<close> is an instance of \<open>formatTo\<close>: the argument types it was instantiated
  with, or null for a statement that logs once.
\<close>

record static_info = static_location +
  formatToFn :: "arg_type list option"
  formatString :: string
  logLevel :: log_level

record calendar =
  tm_year :: nat
  tm_mon :: nat
  tm_mday :: nat
  tm_wday :: nat

text \<open>
  \<open>localtime\<close> gives the date of a time in seconds and the time at which that day began (what \<open>mktime\<close>
  returns once hours, minutes and seconds are zero). \<open>fmt_header\<close> and \<open>fmt_body\<close> are the formatting
  library on a format string and its arguments; \<open>str_at\<close> is the C string at an address.
\<close>

record ('k, 'f) log_env =
  e_clocks :: "'k clocks"
  e_double :: "'f double_ops"
  e_localtime :: "int \<Rightarrow> calendar \<times> int"
  e_fwrite :: "nat \<Rightarrow> string \<Rightarrow> 'k \<Rightarrow> 'k"
  e_fflush :: "nat \<Rightarrow> 'k \<Rightarrow> 'k"
  e_fclose :: "nat \<Rightarrow> 'k \<Rightarrow> 'k"
  e_fopen :: "string \<Rightarrow> bool \<Rightarrow> 'k \<Rightarrow> nat option \<times> 'k"
  e_setbuf :: "nat \<Rightarrow> 'k \<Rightarrow> 'k"
  e_ftell :: "nat \<Rightarrow> 'k \<Rightarrow> u64"
  e_name_start :: "char \<Rightarrow> bool"
  fmt_header :: "string \<Rightarrow> string list \<Rightarrow> string"
  fmt_body :: "string \<Rightarrow> arg_value list \<Rightarrow> string"
  str_at :: "u64 \<Rightarrow> string"

text \<open>
  \<open>l_kern\<close> is the state of the operating system; \<open>buffers\<close> are the thread buffers that exist.
  The fields of the date and the time of day hold the digits the header shows.
\<close>

record ('k, 'f) log_backend =
  l_kern :: 'k
  l_tscns :: "'f tscns"
  l_buffers :: "nat \<Rightarrow> thread_buffer option"
  l_next_buffer :: nat
  l_threadBuffers :: "nat list"
  l_bgThreadBuffers :: "heap_node list"
  l_logInfos :: "static_info list"
  l_bgLogInfos :: "static_info list"
  l_membuf :: string
  l_outputFp :: "nat option"
  l_manageFp :: bool
  l_fpos :: u64
  l_flushDelay :: int
  l_nextFlushTime :: int
  l_flushBufSize :: u32
  l_flushLogLevel :: log_level
  l_midnightNs :: int
  l_headerPattern :: string
  l_reorderIdx :: "nat list"
  l_weekdayName :: string
  l_monthName :: string
  l_year :: string
  l_month :: string
  l_day :: string
  l_hour :: string
  l_minute :: string
  l_second :: string
  l_nanosecond :: string
  l_cb :: "log_level option"
  l_cb_calls :: "(int \<times> log_level \<times> string \<times> nat \<times> string \<times> string \<times> nat \<times> u64) list"

definition INT64_MAX :: int where "INT64_MAX = 2 ^ 63 - 1"

section \<open>The log file\<close>

definition flushLogFile :: "('k, 'f) log_env \<Rightarrow> ('k, 'f) log_backend \<Rightarrow> ('k, 'f) log_backend" where
  "flushLogFile env b =
     (let b1 = (case l_outputFp b of
                  None \<Rightarrow> b
                | Some fp \<Rightarrow>
                    let k1 = e_fwrite env fp (l_membuf b) (l_kern b)
                    in if \<not> l_manageFp b then b\<lparr>l_kern := e_fflush env fp k1\<rparr>
                       else b\<lparr>l_kern := k1, l_fpos := l_fpos b + of_nat (length (l_membuf b))\<rparr>)
      in b1\<lparr>l_membuf := [], l_nextFlushTime := INT64_MAX\<rparr>)"

text \<open>\<open>fclose\<close> of the null pointer is undefined.\<close>

definition closeLogFile :: "('k, 'f) log_env \<Rightarrow> ('k, 'f) log_backend \<Rightarrow> ('k, 'f) log_backend res" where
  "closeLogFile env b =
     (let b1 = (if l_membuf b \<noteq> [] then flushLogFile env b else b)
      in bind_res
           (if l_manageFp b1
            then (case l_outputFp b1 of
                    None \<Rightarrow> Inl (Fault Null_deref)
                  | Some fp \<Rightarrow> Inr (b1\<lparr>l_kern := e_fclose env fp (l_kern b1)\<rparr>))
            else Inr b1) (\<lambda>b2. Inr (b2\<lparr>l_outputFp := None, l_manageFp := False\<rparr>)))"

definition setLogFile ::
  "('k, 'f) log_env \<Rightarrow> string \<Rightarrow> bool \<Rightarrow> ('k, 'f) log_backend \<Rightarrow> ('k, 'f) log_backend res" where
  "setLogFile env filename trunc b =
     (let (newFp, k1) = e_fopen env filename trunc (l_kern b)
      in case newFp of
           None \<Rightarrow> Inl (Fault Uncaught)
         | Some fp \<Rightarrow>
             let k2 = e_setbuf env fp k1;
                 b1 = b\<lparr>l_kern := k2, l_fpos := e_ftell env fp k2\<rparr>
             in bind_res (closeLogFile env b1)
                  (\<lambda>b2. Inr (b2\<lparr>l_outputFp := Some fp, l_manageFp := True\<rparr>)))"

definition setLogFile_fp ::
  "('k, 'f) log_env \<Rightarrow> nat \<Rightarrow> bool \<Rightarrow> ('k, 'f) log_backend \<Rightarrow> ('k, 'f) log_backend res" where
  "setLogFile_fp env fp manage b =
     bind_res (closeLogFile env b) (\<lambda>b1.
       let b2 = (if manage
                 then (let k1 = e_setbuf env fp (l_kern b1) in b1\<lparr>l_kern := k1, l_fpos := e_ftell env fp k1\<rparr>)
                 else b1\<lparr>l_fpos := 0\<rparr>)
       in Inr (b2\<lparr>l_outputFp := Some fp, l_manageFp := manage\<rparr>))"

section \<open>Registration\<close>

text \<open>
  \<open>registerLogInfo\<close>; the result is the log id. \<open>preallocate\<close> makes the calling thread's buffer, whose
  name is its number, unless it has one; \<open>setThreadName\<close> renames it. \<open>format_to_n\<close> stores at most 32
  characters but returns the length of the whole text.
\<close>

definition registerLogInfo ::
  "u32 \<Rightarrow> arg_type list option \<Rightarrow> string \<Rightarrow> log_level \<Rightarrow> string \<Rightarrow> ('k, 'f) log_backend \<Rightarrow>
   u32 \<times> ('k, 'f) log_backend" where
  "registerLogInfo logId fn loc level fmtString b =
     (if logId \<noteq> 0 then (logId, b)
      else (of_nat (length (l_logInfos b) + length (l_bgLogInfos b)),
            b\<lparr>l_logInfos := l_logInfos b @
               [\<lparr>location = loc, basePos = 0, endPos = 0, formatToFn = fn, formatString = fmtString,
                 logLevel = level\<rparr>]\<rparr>))"

definition preallocate ::
  "nat \<Rightarrow> nat option \<Rightarrow> ('k, 'f) log_backend \<Rightarrow> nat \<times> ('k, 'f) log_backend" where
  "preallocate tid own b =
     (case own of
        Some t \<Rightarrow> (t, b)
      | None \<Rightarrow>
          let t = l_next_buffer b; nm = dec_of_nat tid
          in (t, b\<lparr>l_next_buffer := Suc t,
                  l_buffers := (l_buffers b)(t \<mapsto> \<lparr>tb_varq = varq_new, shouldDeallocate = False,
                                                tb_name = take 32 nm, nameSize = length nm\<rparr>),
                  l_threadBuffers := l_threadBuffers b @ [t]\<rparr>))"

definition setThreadName ::
  "nat \<Rightarrow> nat option \<Rightarrow> string \<Rightarrow> ('k, 'f) log_backend \<Rightarrow> (nat \<times> ('k, 'f) log_backend) res" where
  "setThreadName tid own nm b =
     (let (t, b1) = preallocate tid own b
      in case l_buffers b1 t of
           None \<Rightarrow> Inl (Fault Use_after_free)
         | Some T \<Rightarrow>
             Inr (t, b1\<lparr>l_buffers := (l_buffers b1)(t \<mapsto> T\<lparr>tb_name := take 32 nm, nameSize := length nm\<rparr>)\<rparr>))"

text \<open>When a thread ends (\<open>~ThreadBufferDestroyer\<close>).\<close>

definition thread_exit :: "nat \<Rightarrow> ('k, 'f) log_backend \<Rightarrow> ('k, 'f) log_backend res" where
  "thread_exit t b =
     (case l_buffers b t of
        None \<Rightarrow> Inl (Fault Use_after_free)
      | Some T \<Rightarrow> Inr (b\<lparr>l_buffers := (l_buffers b)(t \<mapsto> T\<lparr>shouldDeallocate := True\<rparr>)\<rparr>))"

section \<open>Formatting one message\<close>

definition resetDate :: "('k, 'f) log_env \<Rightarrow> ('k, 'f) log_backend \<Rightarrow> ('k, 'f) log_backend option" where
  "resetDate env b =
     (let (tsc, k1) = rdtsc (e_clocks env) (l_kern b)
      in case tsc2ns (e_double env) tsc (l_tscns b) of
           None \<Rightarrow> None
         | Some now \<Rightarrow>
             let (tm, midnight) = e_localtime env (now div 1000000000)
             in Some (b\<lparr>l_kern := k1, l_midnightNs := midnight * 1000000000,
                       l_year := fromi (1900 + tm_year tm) (l_year b),
                       l_month := fromi (1 + tm_mon tm) (l_month b),
                       l_day := fromi (tm_mday tm) (l_day b),
                       l_weekdayName :=
                         [''Sun'', ''Mon'', ''Tue'', ''Wed'', ''Thu'', ''Fri'', ''Sat''] ! tm_wday tm,
                       l_monthName :=
                         [''Jan'', ''Feb'', ''Mar'', ''Apr'', ''May'', ''Jun'', ''Jul'', ''Aug'', ''Sep'', ''Oct'',
                          ''Nov'', ''Dec''] ! tm_mon tm\<rparr>))"

text \<open>The digits of the time of day; a day later than the current one makes the date be read again.\<close>

definition set_time :: "('k, 'f) log_env \<Rightarrow> int \<Rightarrow> ('k, 'f) log_backend \<Rightarrow> ('k, 'f) log_backend option" where
  "set_time env ts b =
     (let t = (if l_midnightNs b < ts then nat (ts - l_midnightNs b) else 0);
          b1 = b\<lparr>l_nanosecond := fromi (t mod 1000000000) (l_nanosecond b)\<rparr>;
          t1 = t div 1000000000;
          b2 = b1\<lparr>l_second := fromi (t1 mod 60) (l_second b1)\<rparr>;
          t2 = t1 div 60;
          b3 = b2\<lparr>l_minute := fromi (t2 mod 60) (l_minute b2)\<rparr>;
          h = t2 div 60 mod 2 ^ 32
      in if 23 < h
         then map_option (\<lambda>b4. b4\<lparr>l_hour := fromi (h mod 24) (l_hour b4)\<rparr>) (resetDate env b3)
         else Some (b3\<lparr>l_hour := fromi h (l_hour b3)\<rparr>))"

text \<open>
  The 25 arguments of the header, in the order of \<open>header_names\<close>. Year to nanosecond lie next to each
  other in memory, with their separators between them, so the combined fields are longer views.
\<close>

definition time_text :: "('k, 'f) log_backend \<Rightarrow> string" where
  "time_text b =
     l_year b @ ''-'' @ l_month b @ ''-'' @ l_day b @ '' '' @ l_hour b @ '':'' @ l_minute b @ '':'' @
     l_second b @ ''.'' @ l_nanosecond b"

definition header_values :: "string \<Rightarrow> static_info \<Rightarrow> ('k, 'f) log_backend \<Rightarrow> string list" where
  "header_values threadName info b =
     (let date = time_text b; clock = drop 11 date
      in [take 3 (l_weekdayName b), take 3 (l_monthName b), take 2 (drop 2 (l_year b)), l_year b, l_month b,
          l_day b, threadName, l_nanosecond b, take 6 (l_nanosecond b), take 3 (l_nanosecond b), l_second b,
          l_minute b, l_hour b, level_name (logLevel info), getBase info, getLocation info,
          take 10 date, take 8 clock, take 12 clock, take 15 clock, take 18 clock,
          take 19 date, take 23 date, take 26 date, take 29 date])"

definition chars_of :: "byte list \<Rightarrow> string" where "chars_of bs = map (\<lambda>b. char_of (unat b)) bs"

text \<open>The text of a message, after the header; for a statement that logs once, its location too.\<close>

definition msg_info :: "('k, 'f) log_env \<Rightarrow> static_info \<Rightarrow> byte list \<Rightarrow> static_info" where
  "msg_info env info data =
     (if formatToFn info = None then processLocation (info\<lparr>location := str_at env (fst (read_once data))\<rparr>)
      else info)"

definition msg_body :: "('k, 'f) log_env \<Rightarrow> static_info \<Rightarrow> byte list \<Rightarrow> string res" where
  "msg_body env info data =
     (case formatToFn info of
        None \<Rightarrow> Inr (chars_of (snd (read_once data)))
      | Some types \<Rightarrow>
          bind_res (formatTo (fmt_body env (formatString info)) types data) (\<lambda>(s, destroyed, ret). Inr s))"

lemma msg_body_eq:
  "msg_body env info data =
     (case formatToFn info of
        None \<Rightarrow> Inr (chars_of (snd (read_once data)))
      | Some types \<Rightarrow>
          bind_res (read_args types data) (\<lambda>(vals, dtors, n). Inr (fmt_body env (formatString info) vals)))"
  by (cases "formatToFn info"; cases "read_args (the (formatToFn info)) data")
     (auto simp: msg_body_def formatTo_eq)

text \<open>The header, from the pattern and the arguments at their positions.\<close>

definition make_header ::
  "('k, 'f) log_env \<Rightarrow> string \<Rightarrow> static_info \<Rightarrow> ('k, 'f) log_backend \<Rightarrow> string" where
  "make_header env threadName info b =
     fmt_header env (l_headerPattern b)
       (fold (\<lambda>i. setArg (l_reorderIdx b) i (header_values threadName info b ! i))
          ([0..<parttenArgSize] @ [6, 14, 15]) (replicate parttenArgSize []))"

text \<open>Appending header and text to the buffer, the callback, and the end of the line; then the flush.\<close>

definition buffer_line ::
  "string \<Rightarrow> static_info \<Rightarrow> int \<Rightarrow> string \<Rightarrow> string \<Rightarrow> ('k, 'f) log_backend \<Rightarrow> ('k, 'f) log_backend" where
  "buffer_line threadName info ts header body b =
     (let headerPos = length (l_membuf b);
          b1 = b\<lparr>l_membuf := l_membuf b @ header @ body\<rparr>;
          b2 = (case l_cb b1 of
                  None \<Rightarrow> b1
                | Some minCBLogLevel \<Rightarrow>
                    if minCBLogLevel \<le> logLevel info
                    then b1\<lparr>l_cb_calls := l_cb_calls b1 @
                            [(ts, logLevel info, getLocation info, unat (basePos info), threadName,
                              header @ body, length header, l_fpos b1 + of_nat headerPos)]\<rparr>
                    else b1)
      in b2\<lparr>l_membuf := l_membuf b2 @ [CHR 0x0A]\<rparr>)"

definition append_line ::
  "('k, 'f) log_env \<Rightarrow> string \<Rightarrow> static_info \<Rightarrow> int \<Rightarrow> string \<Rightarrow> string \<Rightarrow> ('k, 'f) log_backend \<Rightarrow>
   ('k, 'f) log_backend" where
  "append_line env threadName info ts header body b =
     (let b1 = buffer_line threadName info ts header body b
      in if unat (l_flushBufSize b1) \<le> length (l_membuf b1) \<or> l_flushLogLevel b1 \<le> logLevel info
         then flushLogFile env b1 else b1)"

definition handleLog ::
  "('k, 'f) log_env \<Rightarrow> string \<Rightarrow> log_msg_bytes \<Rightarrow> ('k, 'f) log_backend \<Rightarrow>
   ('k, 'f) log_backend res option" where
  "handleLog env threadName x b =
     (let data = snd x; i = unat (fst x)
      in if \<not> i < length (l_bgLogInfos b) \<or>
            length data < (if formatToFn (l_bgLogInfos b ! i) = None then 16 else 8)
         then Some (Inl (Fault Out_of_bounds))
         else
           let info = msg_info env (l_bgLogInfos b ! i) data;
               b1 = b\<lparr>l_bgLogInfos := (l_bgLogInfos b)[i := info]\<rparr>
           in case tsc2ns (e_double env) (sint (msg_tsc data)) (l_tscns b1) of
                None \<Rightarrow> None
              | Some ts \<Rightarrow>
                  (case set_time env ts b1 of
                     None \<Rightarrow> None
                   | Some b2 \<Rightarrow>
                       Some (bind_res (msg_body env info data) (\<lambda>body.
                         Inr (append_line env threadName info ts (make_header env threadName info b2)
                                body b2)))))"

section \<open>Polling\<close>

text \<open>The time stamp of the message a node shows.\<close>

definition node_key :: "(nat \<Rightarrow> thread_buffer option) \<Rightarrow> heap_node \<Rightarrow> int option" where
  "node_key bufs nd =
     (case node_header nd of
        None \<Rightarrow> None
      | Some h \<Rightarrow>
          (case bufs (node_tb nd) of
             None \<Rightarrow> None
           | Some T \<Rightarrow> Some (sint (msg_tsc (get_bytes (q_blk (tb_varq T)) (8 * unat h + 8) 8)))))"

text \<open>
  The loop that looks for new messages and drops the buffers of threads that ended; a dropped node is
  replaced by the last one, which is looked at next.
\<close>

function scan_buffers ::
  "nat \<Rightarrow> heap_node list \<Rightarrow> (nat \<Rightarrow> thread_buffer option) \<Rightarrow>
   (heap_node list \<times> (nat \<Rightarrow> thread_buffer option)) res" where
  "scan_buffers i ns bufs =
     (if i < length ns
      then
        let nd = ns ! i
        in if node_header nd \<noteq> None then scan_buffers (Suc i) ns bufs
           else
             (case bufs (node_tb nd) of
                None \<Rightarrow> Inl (Fault Use_after_free)
              | Some T \<Rightarrow>
                  bind_res (front (tb_varq T)) (\<lambda>(h, q).
                    let bufs1 = bufs(node_tb nd \<mapsto> T\<lparr>tb_varq := q\<rparr>)
                    in if h = None \<and> shouldDeallocate T
                       then scan_buffers i (butlast (ns[i := last ns])) (bufs1(node_tb nd := None))
                       else scan_buffers (Suc i) (ns[i := nd\<lparr>node_header := h\<rparr>]) bufs1))
      else Inr (ns, bufs))"
  by pat_completeness auto
termination
  by (relation "measure (\<lambda>(i, ns, bufs). length ns - i)") auto

declare scan_buffers.simps [simp del]

text \<open>The main loop: the earliest message is handled and its buffer shows the next one.\<close>

partial_function (option) poll_loop ::
  "('k, 'f) log_env \<Rightarrow> int \<Rightarrow> ('k, 'f) log_backend \<Rightarrow> ('k, 'f) log_backend res option" where
  "poll_loop env tsc b =
     (let nd = l_bgThreadBuffers b ! 0
      in case node_header nd of
           None \<Rightarrow> Some (Inr b)
         | Some h \<Rightarrow>
             (case l_buffers b (node_tb nd) of
                None \<Rightarrow> Some (Inl (Fault Use_after_free))
              | Some T \<Rightarrow>
                  if length (l_bgLogInfos b) \<le> unat (logId_at (q_blk (tb_varq T)) (unat h)) \<or>
                     tsc \<le> sint (msg_tsc (get_bytes (q_blk (tb_varq T)) (8 * unat h + 8) 8))
                  then Some (Inr b)
                  else if length (tb_name T) < nameSize T then Some (Inl (Fault Out_of_bounds))
                  else
                    (case handleLog env (take (nameSize T) (tb_name T)) (read_msg h (tb_varq T)) b of
                       None \<Rightarrow> None
                     | Some (Inl e) \<Rightarrow> Some (Inl e)
                     | Some (Inr b1) \<Rightarrow>
                         (case bind_res (pop (tb_varq T)) front of
                            Inl e \<Rightarrow> Some (Inl e)
                          | Inr (h', q) \<Rightarrow>
                              let bufs = (l_buffers b1)(node_tb nd \<mapsto> T\<lparr>tb_varq := q\<rparr>);
                                  ns = (l_bgThreadBuffers b1)[0 := nd\<lparr>node_header := h'\<rparr>]
                              in poll_loop env tsc
                                   (b1\<lparr>l_buffers := bufs,
                                      l_bgThreadBuffers := adjustHeap (node_key bufs) 0 ns\<rparr>)))))"

definition poll_flush ::
  "('k, 'f) log_env \<Rightarrow> bool \<Rightarrow> int \<Rightarrow> ('k, 'f) log_backend \<Rightarrow> ('k, 'f) log_backend option" where
  "poll_flush env forceFlush tsc b =
     (if l_membuf b = [] then Some b
      else if \<not> l_manageFp b \<or> forceFlush then Some (flushLogFile env b)
      else case tsc2ns (e_double env) tsc (l_tscns b) of
             None \<Rightarrow> None
           | Some now \<Rightarrow>
               Some (if l_nextFlushTime b < now then flushLogFile env b
                     else if l_nextFlushTime b = INT64_MAX
                          then b\<lparr>l_nextFlushTime := now + l_flushDelay b\<rparr> else b))"

text \<open>What poll takes over from the other threads before it looks at the queues.\<close>

definition poll_collect :: "('k, 'f) log_backend \<Rightarrow> ('k, 'f) log_backend" where
  "poll_collect b =
     (let b1 = b\<lparr>l_bgLogInfos := l_bgLogInfos b @ map processLocation (l_logInfos b), l_logInfos := []\<rparr>
      in b1\<lparr>l_bgThreadBuffers := l_bgThreadBuffers b1 @
                map (\<lambda>t. \<lparr>node_tb = t, node_header = None\<rparr>) (l_threadBuffers b1),
            l_threadBuffers := []\<rparr>)"

definition poll ::
  "('k, 'f) log_env \<Rightarrow> bool \<Rightarrow> ('k, 'f) log_backend \<Rightarrow> ('k, 'f) log_backend res option" where
  "poll env forceFlush b =
     (case calibrate (e_double env) (e_clocks env) (l_kern b) (l_tscns b) of
        None \<Rightarrow> None
      | Some (Inl e) \<Rightarrow> Some (Inl e)
      | Some (Inr (tn, k1)) \<Rightarrow>
          let (tsc, k2) = rdtsc (e_clocks env) k1;
              b1 = poll_collect (b\<lparr>l_tscns := tn, l_kern := k2\<rparr>)
          in case scan_buffers 0 (l_bgThreadBuffers b1) (l_buffers b1) of
               Inl e \<Rightarrow> Some (Inl e)
             | Inr (ns, bufs) \<Rightarrow>
                 let b2 = b1\<lparr>l_bgThreadBuffers := ns, l_buffers := bufs\<rparr>
                 in if ns = [] then Some (Inr b2)
                    else (case poll_loop env tsc
                                 (b2\<lparr>l_bgThreadBuffers := build_heap (node_key bufs) ns\<rparr>) of
                            None \<Rightarrow> None
                          | Some (Inl e) \<Rightarrow> Some (Inl e)
                          | Some (Inr b3) \<Rightarrow> map_option Inr (poll_flush env forceFlush tsc b3)))"

end
