(* ===== verification/Log_Poll.thy ===== *)
theory Log_Poll
  imports Log_Backend
begin

text \<open>
  What polling does: the messages of all thread buffers that are older than the poll are written
  exactly once, merged by time stamp, each as one line, and none is lost between the memory buffer and
  the file. Each producer may stand anywhere in a log statement while the poll runs.
\<close>

section \<open>Formatting a message\<close>

definition seq_even :: "('f, 'm) tscns_scheme \<Rightarrow> bool" where "seq_even s \<longleftrightarrow> even (param_seq s)"

lemma even_clear_bit: "(x :: u32) AND NOT 1 = x \<longleftrightarrow> even x"
proof -
  have "x AND NOT 1 = 2 * (x div 2)"
    using unset_bit_0 [of x] by (simp add: unset_bit_eq_and_not)
  then show ?thesis
    using mult_div_mod_eq [of 2 x] by (metis add_cancel_right_right even_iff_mod_2_eq_zero)
qed

lemma tsc2ns_Some: "seq_even s \<Longrightarrow> \<exists>ns. tsc2ns d tsc s = Some ns"
  using tsc2ns_even [OF even_clear_bit [THEN iffD2], of s] by (auto simp: seq_even_def)

lemma calibrate_even:
  "calibrate d c k s = Some (Inr (s', k')) \<Longrightarrow> seq_even s \<Longrightarrow> seq_even s'"
  by (auto simp: calibrate_def seq_even_def saveParam_def Let_def bind_res_eq_Inr
      split: prod.splits if_splits option.splits)

text \<open>What the C library promises of files: writing appends, and nothing else touches them.\<close>

definition file_law :: "('k, 'f) log_env \<Rightarrow> (nat \<Rightarrow> 'k \<Rightarrow> string) \<Rightarrow> bool" where
  "file_law env files \<longleftrightarrow>
     (\<forall>fp s k. files fp (e_fwrite env fp s k) = files fp k @ s) \<and>
     (\<forall>fp k. files fp (e_fflush env fp k) = files fp k) \<and>
     (\<forall>fp k. files fp (snd (rdtsc (e_clocks env) k)) = files fp k) \<and>
     (\<forall>fp k. files fp (snd (rdsysns (e_clocks env) k)) = files fp k)"

text \<open>Everything logged so far: what the file holds and what still waits in the memory buffer.\<close>

definition log_text :: "(nat \<Rightarrow> 'k \<Rightarrow> string) \<Rightarrow> ('k, 'f) log_backend \<Rightarrow> string" where
  "log_text files b = (case l_outputFp b of None \<Rightarrow> [] | Some fp \<Rightarrow> files fp (l_kern b) @ l_membuf b)"

text \<open>The part of the state that formatting and flushing leave alone.\<close>

definition info_sig :: "static_info \<Rightarrow> arg_type list option \<times> string" where
  "info_sig i = (formatToFn i, formatString i)"

definition same_queues :: "('k, 'f) log_backend \<Rightarrow> ('k, 'f) log_backend \<Rightarrow> bool" where
  "same_queues b b' \<longleftrightarrow>
     l_tscns b' = l_tscns b \<and> l_buffers b' = l_buffers b \<and> l_bgThreadBuffers b' = l_bgThreadBuffers b \<and>
     l_threadBuffers b' = l_threadBuffers b \<and> l_outputFp b' = l_outputFp b \<and>
     l_logInfos b' = l_logInfos b \<and> l_next_buffer b' = l_next_buffer b \<and>
     map info_sig (l_bgLogInfos b') = map info_sig (l_bgLogInfos b)"

lemma flush_text:
  "file_law env files \<Longrightarrow> l_outputFp b \<noteq> None \<Longrightarrow> log_text files (flushLogFile env b) = log_text files b"
  "same_queues b (flushLogFile env b)" "l_membuf (flushLogFile env b) = []"
  by (auto simp: flushLogFile_def log_text_def file_law_def same_queues_def Let_def split: option.splits)

lemma log_text_eq:
  "l_outputFp b' = l_outputFp b \<Longrightarrow> l_membuf b' = l_membuf b \<Longrightarrow>
   (\<And>fp. files fp (l_kern b') = files fp (l_kern b)) \<Longrightarrow> log_text files b' = log_text files b"
  by (simp add: log_text_def split: option.split)

lemma log_text_queues [simp]:
  "log_text files (b\<lparr>l_buffers := bufs, l_bgThreadBuffers := ns\<rparr>) = log_text files b"
  "log_text files (b\<lparr>l_bgThreadBuffers := ns\<rparr>) = log_text files b"
  "log_text files (b\<lparr>l_buffers := bufs\<rparr>) = log_text files b"
  by (rule log_text_eq; simp)+

text \<open>What reading the date leaves alone as well.\<close>

definition same_output :: "(nat \<Rightarrow> 'k \<Rightarrow> string) \<Rightarrow> ('k, 'f) log_backend \<Rightarrow> ('k, 'f) log_backend \<Rightarrow> bool" where
  "same_output files b b' \<longleftrightarrow>
     same_queues b b' \<and> l_membuf b' = l_membuf b \<and> l_bgLogInfos b' = l_bgLogInfos b \<and>
     (\<forall>fp. files fp (l_kern b') = files fp (l_kern b))"

lemma same_output_refl [simp]: "same_output files b b"
  by (simp add: same_output_def same_queues_def)

lemma same_output_fields [simp]:
  "same_output files b (b'\<lparr>l_nanosecond := s\<rparr>) = same_output files b b'"
  "same_output files b (b'\<lparr>l_second := s\<rparr>) = same_output files b b'"
  "same_output files b (b'\<lparr>l_minute := s\<rparr>) = same_output files b b'"
  "same_output files b (b'\<lparr>l_hour := s\<rparr>) = same_output files b b'"
  by (simp_all add: same_output_def same_queues_def)

lemma resetDate_ok:
  assumes "seq_even (l_tscns b)" "file_law env files"
  shows "\<exists>b'. resetDate env b = Some b' \<and> same_output files b b'"
proof -
  obtain tsc k1 where k1: "rdtsc (e_clocks env) (l_kern b) = (tsc, k1)" by fastforce
  then have fk: "files fp k1 = files fp (l_kern b)" for fp
    using assms(2) by (metis file_law_def snd_conv)
  obtain now where now: "tsc2ns (e_double env) tsc (l_tscns b) = Some now"
    using tsc2ns_Some assms(1) by blast
  obtain tm midnight where "e_localtime env (now div 1000000000) = (tm, midnight)" by fastforce
  then show ?thesis
    using k1 fk now by (simp add: resetDate_def same_output_def same_queues_def)
qed

lemma set_time_ok:
  assumes even: "seq_even (l_tscns b)" and law: "file_law env files"
  shows "\<exists>b'. set_time env ts b = Some b' \<and> same_output files b b'"
proof -
  have reset: "\<exists>b''. resetDate env b' = Some b'' \<and> same_output files b b''"
    if "same_output files b b'" for b'
  proof -
    have "seq_even (l_tscns b')"
      using that even by (simp add: same_output_def same_queues_def)
    then obtain b'' where "resetDate env b' = Some b''" "same_output files b' b''"
      using resetDate_ok law by blast
    then show ?thesis
      using that by (auto simp: same_output_def same_queues_def)
  qed
  define t where "t = (if l_midnightNs b < ts then nat (ts - l_midnightNs b) else 0)"
  let ?b3 = "b\<lparr>l_nanosecond := fromi (t mod 1000000000) (l_nanosecond b),
    l_second := fromi (t div 1000000000 mod 60) (l_second b),
    l_minute := fromi (t div 1000000000 div 60 mod 60) (l_minute b)\<rparr>"
  have "same_output files b ?b3" by simp
  then obtain b4 where "resetDate env ?b3 = Some b4" "same_output files b b4"
    using reset by blast
  then show ?thesis
    by (simp add: set_time_def t_def [symmetric] Let_def)
qed

text \<open>A message that its statement's \<open>formatTo\<close> can read.\<close>

definition msg_readable :: "('k, 'f) log_env \<Rightarrow> static_info list \<Rightarrow> log_msg_bytes \<Rightarrow> bool" where
  "msg_readable env infos x \<longleftrightarrow>
     unat (fst x) < length infos \<and> 8 \<le> length (snd x) \<and>
     (formatToFn (infos ! unat (fst x)) = None \<longrightarrow> 16 \<le> length (snd x)) \<and>
     (\<exists>body. msg_body env (infos ! unat (fst x)) (snd x) = Inr body)"

lemma msg_body_sig: "info_sig i = info_sig j \<Longrightarrow> msg_body env i data = msg_body env j data"
  by (simp add: info_sig_def msg_body_eq cong: option.case_cong)

lemma info_sig_nth:
  "map info_sig is = map info_sig js \<Longrightarrow> n < length js \<Longrightarrow>
   length is = length js \<and> info_sig (is ! n) = info_sig (js ! n)"
  by (metis length_map nth_map)

lemma msg_readable_sig:
  assumes "map info_sig is = map info_sig js"
  shows "msg_readable env is x = msg_readable env js x"
proof (cases "unat (fst x) < length js")
  case True
  then have e: "length is = length js" "info_sig (is ! unat (fst x)) = info_sig (js ! unat (fst x))"
    using info_sig_nth [OF assms] by simp_all
  then have "msg_body env (is ! unat (fst x)) (snd x) = msg_body env (js ! unat (fst x)) (snd x)"
    by (intro msg_body_sig)
  then show ?thesis
    using e by (simp add: msg_readable_def info_sig_def)
next
  case False
  then show ?thesis
    using assms by (metis length_map msg_readable_def)
qed

lemma msg_info_sig [simp]: "info_sig (msg_info env info data) = info_sig info"
  by (simp add: msg_info_def info_sig_def processLocation_def Let_def)

lemma same_queues_trans: "same_queues a b \<Longrightarrow> same_queues b c \<Longrightarrow> same_queues a c"
  by (simp add: same_queues_def)

lemma same_queues_fields [simp]:
  "same_queues a (b\<lparr>l_membuf := m\<rparr>) = same_queues a b" "same_queues a (b\<lparr>l_cb_calls := cs\<rparr>) = same_queues a b"
  "same_queues a a"
  by (simp_all add: same_queues_def)

lemma buffer_line_frame:
  "l_membuf (buffer_line nm info ts header body b) = l_membuf b @ header @ body @ [CHR 0x0A]"
  "l_kern (buffer_line nm info ts header body b) = l_kern b"
  "l_outputFp (buffer_line nm info ts header body b) = l_outputFp b"
  "same_queues b (buffer_line nm info ts header body b)"
  by (simp_all add: buffer_line_def Let_def split: option.split)

lemma append_line_ok:
  assumes law: "file_law env files" and fp: "l_outputFp b \<noteq> None"
  shows "log_text files (append_line env nm info ts header body b) = log_text files b @ header @ body @ [CHR 0x0A]"
    and "same_queues b (append_line env nm info ts header body b)"
proof -
  let ?b1 = "buffer_line nm info ts header body b"
  have app: "log_text files ?b1 = log_text files b @ header @ body @ [CHR 0x0A]"
    using fp by (auto simp: log_text_def buffer_line_frame)
  have fl: "log_text files (flushLogFile env ?b1) = log_text files ?b1" "same_queues b (flushLogFile env ?b1)"
    using flush_text(1) [OF law, of ?b1] fp same_queues_trans [OF buffer_line_frame(4) flush_text(2)]
    by (simp_all add: buffer_line_frame)
  show "log_text files (append_line env nm info ts header body b) = log_text files b @ header @ body @ [CHR 0x0A]"
    using app fl(1) by (simp add: append_line_def Let_def)
  show "same_queues b (append_line env nm info ts header body b)"
    using fl(2) buffer_line_frame(4) [of b nm info ts header body] by (simp add: append_line_def Let_def)
qed

lemma handleLog_ok:
  assumes even: "seq_even (l_tscns b)" and law: "file_law env files" and fp: "l_outputFp b \<noteq> None"
    and x: "msg_readable env (l_bgLogInfos b) x"
  shows "\<exists>b' header body. handleLog env nm x b = Some (Inr b') \<and> same_queues b b' \<and>
    msg_body env (l_bgLogInfos b ! unat (fst x)) (snd x) = Inr body \<and>
    log_text files b' = log_text files b @ header @ body @ [CHR 0x0A]"
proof -
  let ?i = "unat (fst x)" and ?data = "snd x"
  let ?info = "msg_info env (l_bgLogInfos b ! ?i) ?data"
  let ?b1 = "b\<lparr>l_bgLogInfos := (l_bgLogInfos b)[?i := ?info]\<rparr>"
  obtain body where body: "msg_body env (l_bgLogInfos b ! ?i) ?data = Inr body"
    using x by (auto simp: msg_readable_def)
  then have body': "msg_body env ?info ?data = Inr body"
    using msg_body_sig [OF msg_info_sig] by metis
  obtain ts where ts: "tsc2ns (e_double env) (sint (msg_tsc ?data)) (l_tscns b) = Some ts"
    using tsc2ns_Some even by blast
  have sig: "map info_sig ((l_bgLogInfos b)[?i := ?info]) = map info_sig (l_bgLogInfos b)"
    by (metis list_update_id map_update msg_info_sig)
  have "seq_even (l_tscns ?b1)" using even by simp
  then obtain b2 where b2: "set_time env ts ?b1 = Some b2" "same_output files ?b1 b2"
    using set_time_ok law by blast
  then have q2: "same_queues b b2" "l_membuf b2 = l_membuf b" "\<And>fp. files fp (l_kern b2) = files fp (l_kern b)"
    using sig by (simp_all add: same_output_def same_queues_def)
  then have "log_text files b2 = log_text files b"
    by (intro log_text_eq) (simp_all add: same_queues_def)
  have "l_outputFp b2 \<noteq> None"
    using q2(1) fp by (simp add: same_queues_def)
  then have line: "log_text files (append_line env nm ?info ts (make_header env nm ?info b2) body b2) =
      log_text files b2 @ make_header env nm ?info b2 @ body @ [CHR 0x0A]"
    "same_queues b2 (append_line env nm ?info ts (make_header env nm ?info b2) body b2)"
    using append_line_ok [OF law] by simp_all
  have run: "handleLog env nm x b =
      Some (Inr (append_line env nm ?info ts (make_header env nm ?info b2) body b2))"
    using x ts b2(1) body' by (auto simp: handleLog_def msg_readable_def Let_def not_less)
  show ?thesis
    using run line q2(1) body \<open>log_text files b2 = _\<close> same_queues_trans by fastforce
qed

section \<open>The queues during a poll\<close>

definition tsc_of :: "log_msg_bytes \<Rightarrow> int" where "tsc_of x = sint (msg_tsc (snd x))"

text \<open>
  Node \<open>nd\<close> and its thread buffer: \<open>xs\<close> are the messages the buffer holds, and the node shows the
  oldest one, if it shows one. \<open>ph t\<close> is where the thread of buffer \<open>t\<close> stands in logging a message.
\<close>

definition node_ok ::
  "(nat \<Rightarrow> producer) \<Rightarrow> (nat \<Rightarrow> thread_buffer option) \<Rightarrow> heap_node \<Rightarrow> log_msg_bytes list \<Rightarrow> bool" where
  "node_ok ph bufs nd xs \<longleftrightarrow>
     (\<exists>T. bufs (node_tb nd) = Some T \<and> nameSize T \<le> length (tb_name T) \<and>
        ring_inv (tb_varq T) (ph (node_tb nd)) (node_header nd \<noteq> None) xs \<and>
        (\<forall>h. node_header nd = Some h \<longrightarrow> h = read_idx (tb_varq T)))"

text \<open>
  The queues \<open>xs t\<close> of the buffers in the heap: every message can be read, and each queue is in order of
  time stamps.
\<close>

definition queues_ok ::
  "(nat \<Rightarrow> producer) \<Rightarrow> ('k, 'f) log_env \<Rightarrow> static_info list \<Rightarrow> (nat \<Rightarrow> thread_buffer option) \<Rightarrow> heap_node list \<Rightarrow>
   (nat \<Rightarrow> log_msg_bytes list) \<Rightarrow> bool" where
  "queues_ok ph env infos bufs ns xs \<longleftrightarrow>
     distinct (map node_tb ns) \<and>
     (\<forall>nd \<in> set ns. node_ok ph bufs nd (xs (node_tb nd)) \<and>
        (\<forall>x \<in> set (xs (node_tb nd)). msg_readable env infos x) \<and> sorted (map tsc_of (xs (node_tb nd))))"

text \<open>Nodes that show nothing have an empty buffer, once the buffers were scanned.\<close>

definition shows_all :: "heap_node list \<Rightarrow> (nat \<Rightarrow> log_msg_bytes list) \<Rightarrow> bool" where
  "shows_all ns xs \<longleftrightarrow> (\<forall>nd \<in> set ns. node_header nd = None \<longrightarrow> xs (node_tb nd) = [])"

lemma node_shows:
  assumes "node_ok ph bufs nd xs" "node_header nd = Some h"
  obtains T where "bufs (node_tb nd) = Some T" "nameSize T \<le> length (tb_name T)"
    "ring_inv (tb_varq T) (ph (node_tb nd)) True xs" "h = read_idx (tb_varq T)" "xs \<noteq> []"
    "read_msg h (tb_varq T) = hd xs" "logId_at (q_blk (tb_varq T)) (unat h) = fst (hd xs)"
    "8 \<le> length (snd (hd xs)) \<Longrightarrow>
       get_bytes (q_blk (tb_varq T)) (8 * unat h + 8) 8 = take 8 (snd (hd xs))"
proof -
  obtain T where T: "bufs (node_tb nd) = Some T" "nameSize T \<le> length (tb_name T)"
    "ring_inv (tb_varq T) (ph (node_tb nd)) True xs" "h = read_idx (tb_varq T)"
    using assms by (auto simp: node_ok_def)
  obtain q' where x: "xs \<noteq> []" "read_msg h (tb_varq T) = hd xs"
    using ring_inv_pop [OF T(3)] T(4) by auto
  then have "logId_at (q_blk (tb_varq T)) (unat h) = fst (hd xs)"
    by (metis fst_conv read_msg_def)
  moreover have "get_bytes (q_blk (tb_varq T)) (8 * unat h + 8) 8 = take 8 (snd (hd xs))"
    if "8 \<le> length (snd (hd xs))"
  proof -
    have d: "snd (hd xs) = get_bytes (q_blk (tb_varq T)) (8 * unat h + 8)
        (unat (size_at (q_blk (tb_varq T)) (unat h)) - 8)"
      using x(2) by (metis read_msg_def snd_conv)
    then show ?thesis
      using that unfolding d by (simp add: get_bytes_def take_map take_upt)
  qed
  ultimately show ?thesis using that T x by blast
qed

lemma node_key_msg:
  assumes "node_ok ph bufs nd xs" "\<forall>x \<in> set xs. 8 \<le> length (snd x)"
  shows "node_key bufs nd = (if node_header nd = None then None else Some (tsc_of (hd xs)))"
proof (cases "node_header nd")
  case None
  then show ?thesis by (simp add: node_key_def)
next
  case (Some h)
  from assms(1) Some obtain T where T: "bufs (node_tb nd) = Some T" "xs \<noteq> []"
    "8 \<le> length (snd (hd xs)) \<Longrightarrow>
       get_bytes (q_blk (tb_varq T)) (8 * unat h + 8) 8 = take 8 (snd (hd xs))"
    by (rule node_shows) blast
  then show ?thesis
    using Some assms(2) by (simp add: node_key_def tsc_of_def msg_tsc_def)
qed

text \<open>Looking at a queue and popping it leave its bytes alone.\<close>

lemma front_blk: "front q = Inr (h, q') \<Longrightarrow> q_blk q' = q_blk q"
  by (auto simp: front_def load_size_def Let_def bind_res_eq_Inr split: if_splits)

lemma pop_blk: "pop q = Inr q' \<Longrightarrow> q_blk q' = q_blk q"
  by (auto simp: pop_def load_size_def split: if_splits)

lemma node_key_blk:
  assumes "bufs t = Some T" "q_blk q = q_blk (tb_varq T)"
  shows "node_key (bufs(t \<mapsto> T\<lparr>tb_varq := q\<rparr>)) = node_key bufs"
  by (rule ext) (auto simp: node_key_def assms split: option.split)

section \<open>One round of the loop\<close>

lemma pop_front_ok:
  assumes T: "bufs t = Some T" "ring_inv (tb_varq T) (ph t) True xs" "nameSize T \<le> length (tb_name T)"
  shows "\<exists>h q. bind_res (pop (tb_varq T)) front = Inr (h, q) \<and>
    node_ok ph (bufs(t \<mapsto> T\<lparr>tb_varq := q\<rparr>)) \<lparr>node_tb = t, node_header = h\<rparr> (tl xs) \<and>
    (h = None \<longrightarrow> tl xs = []) \<and> q_blk q = q_blk (tb_varq T)"
proof -
  obtain q1 where q1: "pop (tb_varq T) = Inr q1" "ring_inv q1 (ph t) False (tl xs)"
    using ring_inv_pop [OF T(2)] by auto
  obtain h q where q: "front q1 = Inr (h, q)" "ring_inv q (ph t) (h \<noteq> None) (tl xs)"
    "case h of None \<Rightarrow> tl xs = [] \<and> unat (read_idx q) = tail_of q (ph t)
     | Some i \<Rightarrow> i = read_idx q \<and> tl xs \<noteq> [] \<and> read_msg i q = hd (tl xs)"
    using front_ok [OF q1(2)] by blast
  have blk: "q_blk q = q_blk (tb_varq T)"
    using front_blk [OF q(1)] pop_blk [OF q1(1)] by simp
  have "node_ok ph (bufs(t \<mapsto> T\<lparr>tb_varq := q\<rparr>)) \<lparr>node_tb = t, node_header = h\<rparr> (tl xs)"
    using q(2,3) T(3) by (auto simp: node_ok_def split: option.splits)
  then show ?thesis
    using q1(1) q blk by (auto split: option.splits)
qed

lemma node_ok_other:
  "node_tb nd \<noteq> t \<Longrightarrow> node_ok ph (bufs(t \<mapsto> T)) nd xs = node_ok ph bufs nd xs"
  by (simp add: node_ok_def)

lemma set_tl: "x \<in> set (tl xs) \<Longrightarrow> x \<in> set xs"
  by (cases xs) auto

text \<open>
  The root's message was handled: its buffer drops it, the node shows the next one, and the heap is put
  in order again.
\<close>

lemma advance_root:
  assumes ok: "queues_ok ph env infos bufs ns xs" "shows_all ns xs" and heap: "heap_from (node_key bufs) ns 0"
    and ns: "ns = nd # rest" and T: "bufs (node_tb nd) = Some T"
    and h: "node_ok ph (bufs(node_tb nd \<mapsto> T\<lparr>tb_varq := q\<rparr>)) \<lparr>node_tb = node_tb nd, node_header = h\<rparr> (tl (xs (node_tb nd)))"
      "h = None \<longrightarrow> tl (xs (node_tb nd)) = []" "q_blk q = q_blk (tb_varq T)"
    and bufs'_def: "bufs' = bufs(node_tb nd \<mapsto> T\<lparr>tb_varq := q\<rparr>)"
    and xs'_def: "xs' = xs(node_tb nd := tl (xs (node_tb nd)))"
    and ns'_def: "ns' = adjustHeap (node_key bufs') 0 (ns[0 := nd\<lparr>node_header := h\<rparr>])"
  shows "queues_ok ph env infos bufs' ns' xs'" "shows_all ns' xs'" "heap_from (node_key bufs') ns' 0"
    "node_tb ` set ns' = node_tb ` set ns" "ns' \<noteq> []"
proof -
  let ?nd = "nd\<lparr>node_header := h\<rparr>"
  have key: "node_key bufs' = node_key bufs"
    unfolding bufs'_def using T h(3) by (rule node_key_blk)
  have m: "mset ns' = mset (?nd # rest)"
    by (simp add: ns'_def ns)
  then have set: "set ns' = insert ?nd (set rest)"
    by (metis list.simps(15) mset_eq_setD)
  have "mset (map node_tb ns') = mset (map node_tb (nd # rest))"
    using m by (metis mset_map [symmetric] list.simps(9) heap_node.select_convs(1) heap_node.surjective
        heap_node.update_convs(2))
  then have dist: "distinct (map node_tb ns')"
    using ok(1) by (metis mset_eq_imp_distinct_iff ns queues_ok_def)
  have other: "node_tb n \<noteq> node_tb nd" if "n \<in> set rest" for n
    using ok(1) imageI [OF that, of node_tb] by (auto simp: queues_ok_def ns)
  have nd: "?nd = \<lparr>node_tb = node_tb nd, node_header = h\<rparr>"
    by (cases nd) simp
  have "node_ok ph bufs' n (xs' (node_tb n)) \<and> (\<forall>x \<in> set (xs' (node_tb n)). msg_readable env infos x) \<and>
      sorted (map tsc_of (xs' (node_tb n)))" if "n \<in> set ns'" for n
  proof (cases "n = ?nd")
    case True
    have "\<forall>x \<in> set (xs (node_tb nd)). msg_readable env infos x" "sorted (map tsc_of (xs (node_tb nd)))"
      using ok(1) by (auto simp: queues_ok_def ns)
    then show ?thesis
      using True h(1) nd by (auto simp: xs'_def bufs'_def map_tl sorted_tl dest: set_tl)
  next
    case False
    then have "n \<in> set rest" using that set by simp
    then show ?thesis
      using ok(1) other [of n] by (auto simp: queues_ok_def ns xs'_def bufs'_def node_ok_other)
  qed
  then show "queues_ok ph env infos bufs' ns' xs'"
    using dist by (simp add: queues_ok_def)
  show "shows_all ns' xs'"
    using ok(2) h(2) other unfolding shows_all_def set xs'_def by (auto simp: ns)
  show "heap_from (node_key bufs') ns' 0"
    unfolding ns'_def key using heap_replace_root [OF heap] by (rule adjustHeap_heap) simp
  show "node_tb ` set ns' = node_tb ` set ns" by (auto simp: set ns)
  show "ns' \<noteq> []" using set by auto
qed

section \<open>The loop\<close>

text \<open>The messages of buffer \<open>t\<close> among those that were handled.\<close>

definition handled_of :: "nat \<Rightarrow> (nat \<times> log_msg_bytes) list \<Rightarrow> log_msg_bytes list" where
  "handled_of t hs = map snd (filter (\<lambda>p. fst p = t) hs)"

text \<open>A line of the log: some header, the text of the message, the end of the line.\<close>

definition line_of :: "('k, 'f) log_env \<Rightarrow> static_info list \<Rightarrow> log_msg_bytes \<Rightarrow> string \<Rightarrow> bool" where
  "line_of env infos x line \<longleftrightarrow> unat (fst x) < length infos \<and>
     (\<exists>header body. msg_body env (infos ! unat (fst x)) (snd x) = Inr body \<and> line = header @ body @ [CHR 0x0A])"

definition pending_msgs :: "heap_node list \<Rightarrow> (nat \<Rightarrow> log_msg_bytes list) \<Rightarrow> nat" where
  "pending_msgs ns xs = (\<Sum>t \<in> node_tb ` set ns. length (xs t))"

lemma readable_8: "msg_readable env infos x \<Longrightarrow> 8 \<le> length (snd x)"
  by (simp add: msg_readable_def)

lemma queue_key:
  assumes "queues_ok ph env infos bufs ns xs" "nd \<in> set ns"
  shows "node_key bufs nd = (if node_header nd = None then None else Some (tsc_of (hd (xs (node_tb nd)))))"
proof (rule node_key_msg)
  show "node_ok ph bufs nd (xs (node_tb nd))"
    using assms by (simp add: queues_ok_def)
  show "\<forall>x \<in> set (xs (node_tb nd)). 8 \<le> length (snd x)"
    using assms readable_8 unfolding queues_ok_def by blast
qed

text \<open>The root is the earliest of all messages that wait.\<close>

lemma root_earliest:
  assumes ok: "queues_ok ph env infos bufs ns xs" "shows_all ns xs" and heap: "heap_from (node_key bufs) ns 0"
    and ns: "ns = nd # rest" and h: "node_header nd \<noteq> None" and t: "t \<in> node_tb ` set ns" "x \<in> set (xs t)"
  shows "tsc_of (hd (xs (node_tb nd))) \<le> tsc_of x"
proof -
  obtain j where j: "j < length ns" "node_tb (ns ! j) = t"
    using t(1) by (auto simp: in_set_conv_nth)
  let ?n = "ns ! j"
  have n: "?n \<in> set ns" "xs (node_tb ?n) \<noteq> []" using j t(2) by auto
  then have vis: "node_header ?n \<noteq> None"
    using ok(2) by (auto simp: shows_all_def)
  then have k1: "node_key bufs ?n = Some (tsc_of (hd (xs t)))"
    using queue_key [OF ok(1) n(1)] j(2) by simp
  have k2: "node_key bufs nd = Some (tsc_of (hd (xs (node_tb nd))))"
    using queue_key [OF ok(1), of nd] h by (simp add: ns)
  have "not_after (node_key bufs nd) (node_key bufs ?n)"
    using heap_root [OF heap j(1)] by (simp add: ns)
  then have "tsc_of (hd (xs (node_tb nd))) \<le> tsc_of (hd (xs t))"
    using k1 k2 by (simp add: before_def)
  also have "\<dots> \<le> tsc_of x"
  proof -
    have "sorted (map tsc_of (xs t))"
      using ok(1) n(1) j(2) by (auto simp: queues_ok_def)
    then show ?thesis
      using t(2) by (cases "xs t") auto
  qed
  finally show ?thesis .
qed

lemma queues_ok_infos:
  assumes "map info_sig is = map info_sig js"
  shows "queues_ok ph env is bufs ns xs = queues_ok ph env js bufs ns xs"
proof -
  have "msg_readable env is x = msg_readable env js x" for x
    using assms by (rule msg_readable_sig)
  then show ?thesis by (simp add: queues_ok_def)
qed

lemma line_of_infos:
  assumes "map info_sig is = map info_sig js"
  shows "line_of env is x line = line_of env js x line"
proof (cases "unat (fst x) < length js")
  case True
  then have e: "info_sig (is ! unat (fst x)) = info_sig (js ! unat (fst x))" "length is = length js"
    using info_sig_nth [OF assms] by simp_all
  then have "msg_body env (is ! unat (fst x)) (snd x) = msg_body env (js ! unat (fst x)) (snd x)"
    by (intro msg_body_sig)
  then show ?thesis using e(2) by (simp add: line_of_def)
next
  case False
  then show ?thesis using assms by (metis length_map line_of_def)
qed

text \<open>
  What the loop may assume of the state, and what it leaves alone; \<open>tb_ended\<close> tells of a buffer in use
  whether its thread has ended.
\<close>

definition loop_ok ::
  "(nat \<Rightarrow> producer) \<Rightarrow> ('k, 'f) log_env \<Rightarrow> ('k, 'f) log_backend \<Rightarrow> (nat \<Rightarrow> log_msg_bytes list) \<Rightarrow> bool" where
  "loop_ok ph env b xs \<longleftrightarrow>
     queues_ok ph env (l_bgLogInfos b) (l_buffers b) (l_bgThreadBuffers b) xs \<and>
     shows_all (l_bgThreadBuffers b) xs \<and> heap_from (node_key (l_buffers b)) (l_bgThreadBuffers b) 0 \<and>
     l_bgThreadBuffers b \<noteq> []"

definition tb_ended :: "(nat \<Rightarrow> thread_buffer option) \<Rightarrow> nat \<Rightarrow> bool option" where
  "tb_ended bufs t = map_option shouldDeallocate (bufs t)"

lemma tb_ended_upd [simp]: "tb_ended (bufs(t := v)) = (tb_ended bufs)(t := map_option shouldDeallocate v)"
  by (rule ext) (simp add: tb_ended_def)

definition loop_frame :: "('k, 'f) log_backend \<Rightarrow> ('k, 'f) log_backend \<Rightarrow> bool" where
  "loop_frame b b' \<longleftrightarrow>
     l_tscns b' = l_tscns b \<and> l_outputFp b' = l_outputFp b \<and> l_threadBuffers b' = l_threadBuffers b \<and>
     l_logInfos b' = l_logInfos b \<and> l_next_buffer b' = l_next_buffer b \<and>
     map info_sig (l_bgLogInfos b') = map info_sig (l_bgLogInfos b) \<and>
     node_tb ` set (l_bgThreadBuffers b') = node_tb ` set (l_bgThreadBuffers b) \<and>
     tb_ended (l_buffers b') = tb_ended (l_buffers b)"

lemma loop_frame_refl [simp]: "loop_frame b b"
  by (simp add: loop_frame_def)

lemma loop_frame_trans: "loop_frame a b \<Longrightarrow> loop_frame b c \<Longrightarrow> loop_frame a c"
  by (simp add: loop_frame_def)

text \<open>One round: the earliest message is written as one line and leaves its queue.\<close>

lemma poll_round:
  assumes ok: "loop_ok ph env b xs" and ns: "l_bgThreadBuffers b = nd # rest" and h: "node_header nd = Some h"
    and early: "tsc_of (hd (xs (node_tb nd))) < tsc"
    and even: "seq_even (l_tscns b)" and law: "file_law env files" and fp: "l_outputFp b \<noteq> None"
  defines "x \<equiv> hd (xs (node_tb nd))"
    and "xs' \<equiv> xs(node_tb nd := tl (xs (node_tb nd)))"
  shows "xs (node_tb nd) = x # tl (xs (node_tb nd)) \<and>
    (\<exists>b' line. poll_loop env tsc b = poll_loop env tsc b' \<and> loop_ok ph env b' xs' \<and> loop_frame b b' \<and>
      line_of env (l_bgLogInfos b) x line \<and> log_text files b' = log_text files b @ line)"
proof -
  let ?t = "node_tb nd"
  have nd: "nd \<in> set (l_bgThreadBuffers b)" "l_bgThreadBuffers b ! 0 = nd" by (simp_all add: ns)
  have nok: "node_ok ph (l_buffers b) nd (xs ?t)"
    and rd: "\<forall>y \<in> set (xs ?t). msg_readable env (l_bgLogInfos b) y"
    using ok nd(1) by (simp_all add: loop_ok_def queues_ok_def)
  from nok h obtain T where T: "l_buffers b ?t = Some T" "nameSize T \<le> length (tb_name T)"
    "ring_inv (tb_varq T) (ph ?t) True (xs ?t)" "xs ?t \<noteq> []"
    "read_msg h (tb_varq T) = x" "logId_at (q_blk (tb_varq T)) (unat h) = fst x"
    "8 \<le> length (snd x) \<Longrightarrow> get_bytes (q_blk (tb_varq T)) (8 * unat h + 8) 8 = take 8 (snd x)"
    unfolding x_def by (rule node_shows) blast
  have x: "xs ?t = x # tl (xs ?t)" "msg_readable env (l_bgLogInfos b) x"
    using T(4) rd by (simp_all add: x_def)
  have key: "sint (msg_tsc (get_bytes (q_blk (tb_varq T)) (8 * unat h + 8) 8)) = tsc_of x"
    using T(7) [OF readable_8 [OF x(2)]] by (simp add: tsc_of_def msg_tsc_def)
  obtain b1 header body where b1: "handleLog env (take (nameSize T) (tb_name T)) x b = Some (Inr b1)"
    "same_queues b b1" "msg_body env (l_bgLogInfos b ! unat (fst x)) (snd x) = Inr body"
    "log_text files b1 = log_text files b @ header @ body @ [CHR 0x0A]"
    using handleLog_ok [OF even law fp x(2)] by blast
  obtain h' q where q: "bind_res (pop (tb_varq T)) front = Inr (h', q)"
    "node_ok ph ((l_buffers b)(?t \<mapsto> T\<lparr>tb_varq := q\<rparr>)) \<lparr>node_tb = ?t, node_header = h'\<rparr> (tl (xs ?t))"
    "h' = None \<longrightarrow> tl (xs ?t) = []" "q_blk q = q_blk (tb_varq T)"
    using pop_front_ok [where bufs = "l_buffers b" and t = ?t and ph = ph, OF T(1,3,2)] by blast
  let ?bufs = "(l_buffers b)(?t \<mapsto> T\<lparr>tb_varq := q\<rparr>)"
  let ?ns = "adjustHeap (node_key ?bufs) 0 ((l_bgThreadBuffers b)[0 := nd\<lparr>node_header := h'\<rparr>])"
  let ?b' = "b1\<lparr>l_buffers := ?bufs, l_bgThreadBuffers := ?ns\<rparr>"
  note same = b1(2) [unfolded same_queues_def]
  have run: "poll_loop env tsc b = poll_loop env tsc ?b'"
    using h T(1,2,5,6) x(2) key early b1(1) q(1) same
    by (subst poll_loop.simps) (simp add: nd(2) Let_def msg_readable_def x_def [symmetric])
  note okD = ok [unfolded loop_ok_def, THEN conjunct1] ok [unfolded loop_ok_def, THEN conjunct2, THEN conjunct1]
    ok [unfolded loop_ok_def, THEN conjunct2, THEN conjunct2, THEN conjunct1]
  note adv = advance_root [OF okD ns T(1) q(2,3,4) refl refl refl]
  have "loop_ok ph env ?b' xs'"
    using adv same queues_ok_infos [of "l_bgLogInfos b1" "l_bgLogInfos b" ph env]
    by (simp add: loop_ok_def xs'_def)
  moreover have "loop_frame b ?b'"
    using adv(4) same T(1) by (simp add: loop_frame_def fun_upd_idem tb_ended_def)
  moreover have "line_of env (l_bgLogInfos b) x (header @ body @ [CHR 0x0A])"
    using b1(3) x(2) by (auto simp: line_of_def msg_readable_def)
  moreover have "log_text files ?b' = log_text files b @ header @ body @ [CHR 0x0A]"
    using b1(4) by simp
  ultimately show ?thesis
    using x(1) run by blast
qed

section \<open>The whole loop\<close>

lemma handled_of_simps [simp]:
  "handled_of t [] = []"
  "handled_of t (p # hs) = (if fst p = t then [snd p] else []) @ handled_of t hs"
  by (simp_all add: handled_of_def)

lemma pending_tl:
  assumes "t \<in> node_tb ` set ns" "xs t \<noteq> []" "node_tb ` set ns' = node_tb ` set ns"
  shows "pending_msgs ns' (xs(t := tl (xs t))) < pending_msgs ns xs"
  unfolding pending_msgs_def assms(3)
proof (rule sum_strict_mono_ex1)
  show "\<forall>u \<in> node_tb ` set ns. length ((xs(t := tl (xs t))) u) \<le> length (xs u)"
    by simp
  show "\<exists>u \<in> node_tb ` set ns. length ((xs(t := tl (xs t))) u) < length (xs u)"
    using assms by (intro bexI [of _ t]) auto
qed simp

text \<open>When the loop stops, no message is older than \<open>tsc\<close>.\<close>

lemma root_shows_nothing:
  assumes ok: "loop_ok ph env b xs" and ns: "l_bgThreadBuffers b = nd # rest" and none: "node_header nd = None"
    and n: "n \<in> set (l_bgThreadBuffers b)"
  shows "xs (node_tb n) = []"
proof -
  have q: "queues_ok ph env (l_bgLogInfos b) (l_buffers b) (l_bgThreadBuffers b) xs"
    using ok by (simp add: loop_ok_def)
  obtain j where "j < length (l_bgThreadBuffers b)" "l_bgThreadBuffers b ! j = n"
    using n by (auto simp: in_set_conv_nth)
  then have "not_after (node_key (l_buffers b) nd) (node_key (l_buffers b) n)"
    using ok heap_root [of "node_key (l_buffers b)" "l_bgThreadBuffers b" j] by (simp add: loop_ok_def ns)
  then have "node_header n = None"
    using queue_key [OF q n] queue_key [OF q, of nd] none by (auto simp: ns before_def split: if_splits)
  then show ?thesis using ok n by (simp add: loop_ok_def shows_all_def)
qed

lemma poll_stops:
  assumes ok: "loop_ok ph env b xs" and ns: "l_bgThreadBuffers b = nd # rest"
    and late: "\<not> (\<exists>h. node_header nd = Some h \<and> tsc_of (hd (xs (node_tb nd))) < tsc)"
  shows "poll_loop env tsc b = Some (Inr b)"
    and "\<forall>t \<in> node_tb ` set (l_bgThreadBuffers b). \<forall>x \<in> set (xs t). tsc \<le> tsc_of x"
proof -
  have q: "queues_ok ph env (l_bgLogInfos b) (l_buffers b) (l_bgThreadBuffers b) xs"
      "shows_all (l_bgThreadBuffers b) xs"
    and heap: "heap_from (node_key (l_buffers b)) (l_bgThreadBuffers b) 0"
    using ok by (simp_all add: loop_ok_def)
  show "poll_loop env tsc b = Some (Inr b)"
  proof (cases "node_header nd")
    case None
    then show ?thesis by (subst poll_loop.simps) (simp add: ns)
  next
    case (Some h)
    then have "node_key (l_buffers b) nd = Some (tsc_of (hd (xs (node_tb nd))))"
      using queue_key [OF q(1)] by (simp add: ns)
    then obtain T where "l_buffers b (node_tb nd) = Some T"
      "sint (msg_tsc (get_bytes (q_blk (tb_varq T)) (8 * unat h + 8) 8)) = tsc_of (hd (xs (node_tb nd)))"
      using Some by (auto simp: node_key_def split: option.splits)
    then show ?thesis
      using Some late by (subst poll_loop.simps) (simp add: ns)
  qed
  show "\<forall>t \<in> node_tb ` set (l_bgThreadBuffers b). \<forall>x \<in> set (xs t). tsc \<le> tsc_of x"
  proof (cases "node_header nd")
    case None
    then show ?thesis
      using root_shows_nothing [OF ok ns] by auto
  next
    case (Some h)
    then have "tsc \<le> tsc_of (hd (xs (node_tb nd)))" using late by auto
    then show ?thesis
      using root_earliest [OF q heap ns] Some by fastforce
  qed
qed

text \<open>
  What a run of the loop achieves: it has handled \<open>hs\<close>, in order of time stamps, which are exactly the
  messages that are older than \<open>tsc\<close>, each queue's in its order; it has written one line for each; and
  the younger messages are still there.
\<close>

definition younger :: "int \<Rightarrow> (nat \<Rightarrow> log_msg_bytes list) \<Rightarrow> nat \<Rightarrow> log_msg_bytes list" where
  "younger tsc xs t = filter (\<lambda>x. tsc \<le> tsc_of x) (xs t)"

definition loop_writes ::
  "(nat \<Rightarrow> producer) \<Rightarrow> ('k, 'f) log_env \<Rightarrow> (nat \<Rightarrow> 'k \<Rightarrow> string) \<Rightarrow> int \<Rightarrow> ('k, 'f) log_backend \<Rightarrow>
   (nat \<Rightarrow> log_msg_bytes list) \<Rightarrow> ('k, 'f) log_backend \<Rightarrow> (nat \<times> log_msg_bytes) list \<Rightarrow> string list \<Rightarrow> bool" where
  "loop_writes ph env files tsc b xs b' hs lines \<longleftrightarrow>
     sorted (map (tsc_of \<circ> snd) hs) \<and> fst ` set hs \<subseteq> node_tb ` set (l_bgThreadBuffers b) \<and>
     (\<forall>t \<in> node_tb ` set (l_bgThreadBuffers b). handled_of t hs = filter (\<lambda>x. tsc_of x < tsc) (xs t)) \<and>
     list_all2 (\<lambda>p line. line_of env (l_bgLogInfos b) (snd p) line) hs lines \<and>
     log_text files b' = log_text files b @ concat lines \<and> loop_frame b b' \<and>
     queues_ok ph env (l_bgLogInfos b') (l_buffers b') (l_bgThreadBuffers b') (younger tsc xs)"

lemma queues_ok_cong:
  "(\<And>t. t \<in> node_tb ` set ns \<Longrightarrow> xs t = ys t) \<Longrightarrow> queues_ok ph env infos bufs ns xs = queues_ok ph env infos bufs ns ys"
  by (simp add: queues_ok_def)

lemma loop_writes_nothing:
  assumes "loop_ok ph env b xs" "\<forall>t \<in> node_tb ` set (l_bgThreadBuffers b). \<forall>x \<in> set (xs t). tsc \<le> tsc_of x"
  shows "loop_writes ph env files tsc b xs b [] []"
proof -
  have "younger tsc xs t = xs t" if "t \<in> node_tb ` set (l_bgThreadBuffers b)" for t
    using assms(2) that unfolding younger_def by (blast intro: filter_True)
  then have "queues_ok ph env (l_bgLogInfos b) (l_buffers b) (l_bgThreadBuffers b) (younger tsc xs)"
    using assms(1) queues_ok_cong [of "l_bgThreadBuffers b" "younger tsc xs" xs ph env "l_bgLogInfos b" "l_buffers b"]
    by (simp add: loop_ok_def)
  moreover have "\<forall>t \<in> node_tb ` set (l_bgThreadBuffers b). filter (\<lambda>x. tsc_of x < tsc) (xs t) = []"
    using assms(2) by (fastforce simp: filter_empty_conv)
  ultimately show ?thesis
    by (simp add: loop_writes_def)
qed

lemma loop_writes_one:
  assumes w: "loop_writes ph env files tsc b1 (xs(t := tl (xs t))) b' hs lines"
    and x: "xs t = x # tl (xs t)" "tsc_of x < tsc" and t: "t \<in> node_tb ` set (l_bgThreadBuffers b)"
    and frame: "loop_frame b b1" and line: "line_of env (l_bgLogInfos b) x line"
      "log_text files b1 = log_text files b @ line"
    and earliest: "\<And>u y. u \<in> node_tb ` set (l_bgThreadBuffers b) \<Longrightarrow> y \<in> set (xs u) \<Longrightarrow> tsc_of x \<le> tsc_of y"
  shows "loop_writes ph env files tsc b xs b' ((t, x) # hs) (line # lines)"
proof -
  let ?xs = "xs(t := tl (xs t))" and ?tbs = "node_tb ` set (l_bgThreadBuffers b)"
  have tbs: "node_tb ` set (l_bgThreadBuffers b1) = ?tbs"
    and infos: "map info_sig (l_bgLogInfos b1) = map info_sig (l_bgLogInfos b)"
    using frame by (simp_all add: loop_frame_def)
  note w = w [unfolded loop_writes_def tbs]
  have hs: "fst ` set hs \<subseteq> ?tbs" "\<forall>u \<in> ?tbs. handled_of u hs = filter (\<lambda>x. tsc_of x < tsc) (?xs u)"
    and rest: "list_all2 (\<lambda>p line. line_of env (l_bgLogInfos b1) (snd p) line) hs lines"
      "queues_ok ph env (l_bgLogInfos b') (l_buffers b') (l_bgThreadBuffers b') (younger tsc ?xs)"
    using w by blast+
  have le: "tsc_of x \<le> tsc_of (snd p)" if "p \<in> set hs" for p
  proof -
    have p: "fst p \<in> ?tbs" using hs(1) that by blast
    have "snd p \<in> set (handled_of (fst p) hs)"
      using that by (auto simp: handled_of_def)
    then have "snd p \<in> set (?xs (fst p))"
      using p hs(2) by simp
    then have "snd p \<in> set (xs (fst p))"
      by (cases "fst p = t") (simp_all add: set_tl)
    then show ?thesis
      using p earliest by blast
  qed
  have "filter (\<lambda>x. tsc_of x < tsc) (xs t) = x # filter (\<lambda>x. tsc_of x < tsc) (tl (xs t))"
    by (subst x(1)) (use x(2) in simp)
  then have "handled_of u ((t, x) # hs) = filter (\<lambda>x. tsc_of x < tsc) (xs u)" if "u \<in> ?tbs" for u
    using bspec [OF hs(2) that] by (cases "u = t") simp_all
  then have "\<forall>u \<in> ?tbs. handled_of u ((t, x) # hs) = filter (\<lambda>x. tsc_of x < tsc) (xs u)"
    by blast
  moreover have "filter (\<lambda>x. tsc \<le> tsc_of x) (xs t) = filter (\<lambda>x. tsc \<le> tsc_of x) (tl (xs t))"
    by (subst x(1)) (use x(2) in simp)
  then have "younger tsc xs = younger tsc ?xs"
    by (auto simp: younger_def fun_eq_iff)
  moreover have "list_all2 (\<lambda>p line. line_of env (l_bgLogInfos b) (snd p) line) hs lines"
    using rest(1) line_of_infos [OF infos, of env] by simp
  moreover have "loop_frame b b'"
    using w frame loop_frame_trans by blast
  moreover have "sorted (map (tsc_of \<circ> snd) ((t, x) # hs))"
    using w le by simp
  moreover have "log_text files b' = log_text files b @ concat (line # lines)"
    using w line(2) by simp
  ultimately show ?thesis
    using rest(2) line(1) t hs(1) unfolding loop_writes_def by (simp del: map_eq_Cons_conv handled_of_simps)
qed

lemma poll_loop_writes:
  assumes "loop_ok ph env b xs" "seq_even (l_tscns b)" "file_law env files" "l_outputFp b \<noteq> None"
  shows "\<exists>b' hs lines. poll_loop env tsc b = Some (Inr b') \<and> loop_writes ph env files tsc b xs b' hs lines"
  using assms
proof (induction "pending_msgs (l_bgThreadBuffers b) xs" arbitrary: b xs rule: less_induct)
  case less
  note ok = less.prems(1)
  obtain nd rest where ns: "l_bgThreadBuffers b = nd # rest"
    using ok by (cases "l_bgThreadBuffers b") (auto simp: loop_ok_def)
  let ?t = "node_tb nd"
  have t: "?t \<in> node_tb ` set (l_bgThreadBuffers b)" by (simp add: ns)
  show ?case
  proof (cases "\<exists>h. node_header nd = Some h \<and> tsc_of (hd (xs ?t)) < tsc")
    case False
    then show ?thesis
      using poll_stops(1) [OF ok ns False] loop_writes_nothing [OF ok poll_stops(2) [OF ok ns False]] by blast
  next
    case True
    then obtain h where h: "node_header nd = Some h" "tsc_of (hd (xs ?t)) < tsc" by blast
    obtain b1 line where x: "xs ?t = hd (xs ?t) # tl (xs ?t)" and b1: "poll_loop env tsc b = poll_loop env tsc b1"
      "loop_ok ph env b1 (xs(?t := tl (xs ?t)))" "loop_frame b b1" "line_of env (l_bgLogInfos b) (hd (xs ?t)) line"
      "log_text files b1 = log_text files b @ line"
      using poll_round [OF ok ns h less.prems(2-4)] by blast
    have "pending_msgs (l_bgThreadBuffers b1) (xs(?t := tl (xs ?t))) < pending_msgs (l_bgThreadBuffers b) xs"
      using t x b1(3) by (intro pending_tl) (auto simp: loop_frame_def)
    moreover have "seq_even (l_tscns b1)" "l_outputFp b1 \<noteq> None"
      using b1(3) less.prems(2,4) by (simp_all add: loop_frame_def)
    ultimately obtain b' hs lines where IH: "poll_loop env tsc b1 = Some (Inr b')"
      "loop_writes ph env files tsc b1 (xs(?t := tl (xs ?t))) b' hs lines"
      using less.hyps [OF _ b1(2) _ less.prems(3)] by blast
    have "loop_writes ph env files tsc b xs b' ((?t, hd (xs ?t)) # hs) (line # lines)"
      using IH(2) x h(2) t b1(3-5)
    proof (rule loop_writes_one)
      show "tsc_of (hd (xs ?t)) \<le> tsc_of y" if "u \<in> node_tb ` set (l_bgThreadBuffers b)" "y \<in> set (xs u)" for u y
        using ok ns h(1) that root_earliest [of ph env "l_bgLogInfos b" "l_buffers b" "l_bgThreadBuffers b" xs nd rest u y]
        by (simp add: loop_ok_def)
    qed
    then show ?thesis
      using b1(1) IH(1) by auto
  qed
qed

end
