(* ===== verification/Log_Scan.thy ===== *)
theory Log_Scan
  imports Log_Poll
begin

text \<open>
  The rest of \<open>poll\<close>: taking over new log statements and thread buffers, looking at every buffer and
  dropping those of threads that ended, and the final flush.
\<close>

section \<open>Looking for new messages\<close>

lemma mset_drop_node:
  assumes "i < length ns"
  shows "mset (butlast (ns[i := last ns])) = mset ns - {#ns ! i#}"
proof (cases "i = length ns - 1")
  case True
  then have "last ns = ns ! i"
    using assms by (metis last_conv_nth length_0_conv not_less0)
  then show ?thesis
    using assms by (metis True append_butlast_last_id last_conv_nth length_0_conv list_update_id mset_append
        mset_single_iff add_diff_cancel_right' not_less0 mset.simps(1) mset.simps(2))
next
  case False
  let ?m = "ns[i := last ns]"
  have ne: "ns \<noteq> []" "?m \<noteq> []" using assms by auto
  have "last ?m = last ns"
    using False assms ne by (simp add: last_conv_nth nth_list_update)
  then have "mset ?m = mset (butlast ?m) + {#last ns#}"
    using append_butlast_last_id [OF ne(2)] by (metis mset_append mset.simps(1) mset.simps(2))
  moreover have "mset ?m = mset ns - {#ns ! i#} + {#last ns#}"
    using assms by (simp add: mset_update)
  ultimately show ?thesis by simp
qed

lemma mset_set_diff:
  assumes "mset ns' = mset ns - {#n#}" "n \<in> set ns" "distinct (map node_tb ns)"
  shows "set ns' = set ns - {n}" "distinct (map node_tb ns')" "\<forall>m \<in> set ns'. node_tb m \<noteq> node_tb n"
proof -
  have d: "distinct ns" using assms(3) by (simp add: distinct_map)
  then have "mset ns' = mset (remove1 n ns)"
    using assms(1) by simp
  then have m: "set ns' = set (remove1 n ns)" "mset (map node_tb ns') = mset (map node_tb (remove1 n ns))"
    by (metis mset_eq_setD, metis mset_map)
  then show s: "set ns' = set ns - {n}"
    using d by simp
  have "distinct (map node_tb (remove1 n ns))"
    using assms(3) by (simp add: distinct_map d inj_on_diff)
  then show "distinct (map node_tb ns')"
    using m(2) mset_eq_imp_distinct_iff by blast
  show "\<forall>m \<in> set ns'. node_tb m \<noteq> node_tb n"
    using assms(2,3) unfolding s by (auto simp: distinct_map dest: inj_onD)
qed

lemma front_node:
  assumes nok: "node_ok ph bufs nd xs" and hd: "node_header nd = None" and T: "bufs (node_tb nd) = Some T"
  shows "\<exists>h q. front (tb_varq T) = Inr (h, q) \<and>
    node_ok ph (bufs(node_tb nd \<mapsto> T\<lparr>tb_varq := q\<rparr>)) (nd\<lparr>node_header := h\<rparr>) xs \<and> (h = None \<longrightarrow> xs = [])"
proof -
  have inv: "ring_inv (tb_varq T) (ph (node_tb nd)) False xs" "nameSize T \<le> length (tb_name T)"
    using nok hd T by (auto simp: node_ok_def)
  obtain h q where q: "front (tb_varq T) = Inr (h, q)" "ring_inv q (ph (node_tb nd)) (h \<noteq> None) xs"
    "case h of None \<Rightarrow> xs = [] \<and> unat (read_idx q) = tail_of q (ph (node_tb nd))
     | Some i \<Rightarrow> i = read_idx q \<and> xs \<noteq> [] \<and> read_msg i q = hd xs"
    using front_ok [OF inv(1)] by blast
  then show ?thesis
    using inv(2) by (auto simp: node_ok_def split: option.splits)
qed

lemma queues_ok_sub:
  assumes "queues_ok ph env infos bufs ns xs" "set ns' = set ns - {n}" "distinct (map node_tb ns')"
    "\<forall>m \<in> set ns'. node_tb m \<noteq> node_tb n"
  shows "queues_ok ph env infos (bufs(node_tb n := u)) ns' xs"
  using assms by (auto simp: queues_ok_def node_ok_def)

lemma queues_ok_update:
  assumes ok: "queues_ok ph env infos bufs ns xs" and i: "i < length ns"
    and nd: "node_ok ph (bufs(node_tb (ns ! i) \<mapsto> T)) ((ns ! i)\<lparr>node_header := h\<rparr>) (xs (node_tb (ns ! i)))"
  shows "queues_ok ph env infos (bufs(node_tb (ns ! i) \<mapsto> T)) (ns[i := (ns ! i)\<lparr>node_header := h\<rparr>]) xs"
proof -
  let ?n = "ns ! i" and ?ns = "ns[i := (ns ! i)\<lparr>node_header := h\<rparr>]"
  have tbs: "map node_tb ?ns = map node_tb ns"
    using i by (intro nth_equalityI) (auto simp: nth_list_update)
  have "node_ok ph (bufs(node_tb ?n \<mapsto> T)) m (xs (node_tb m)) \<and>
      (\<forall>x \<in> set (xs (node_tb m)). msg_readable env infos x) \<and> sorted (map tsc_of (xs (node_tb m)))"
    if "m \<in> set ?ns" for m
  proof -
    from that [unfolded in_set_conv_nth] obtain j where "j < length ?ns" "?ns ! j = m" by blast
    then have j: "j < length ns" "m = ?ns ! j" by simp_all
    show ?thesis
    proof (cases "j = i")
      case True
      then show ?thesis
        using ok nd i j by (auto simp: queues_ok_def)
    next
      case False
      then have "m \<in> set ns" "m = ns ! j" using j by auto
      moreover have "node_tb m \<noteq> node_tb ?n"
        using ok False j i \<open>m = ns ! j\<close> by (auto simp: queues_ok_def distinct_conv_nth)
      ultimately show ?thesis
        using ok by (auto simp: queues_ok_def node_ok_other)
    qed
  qed
  then show ?thesis
    using ok tbs by (simp add: queues_ok_def)
qed

text \<open>The three things the loop does with a node, each as one step.\<close>

lemma scan_stop: "\<not> i < length ns \<Longrightarrow> scan_buffers i ns bufs = Inr (ns, bufs)"
  by (subst scan_buffers.simps) simp

lemma scan_skip:
  "i < length ns \<Longrightarrow> node_header (ns ! i) \<noteq> None \<Longrightarrow> scan_buffers i ns bufs = scan_buffers (Suc i) ns bufs"
  by (subst scan_buffers.simps) simp

lemma scan_look:
  assumes "i < length ns" "node_header (ns ! i) = None" "bufs (node_tb (ns ! i)) = Some T"
    and "front (tb_varq T) = Inr (h, q)"
  shows "scan_buffers i ns bufs =
    (if h = None \<and> shouldDeallocate T
     then scan_buffers i (butlast (ns[i := last ns])) (bufs(node_tb (ns ! i) := None))
     else scan_buffers (Suc i) (ns[i := (ns ! i)\<lparr>node_header := h\<rparr>])
            (bufs(node_tb (ns ! i) \<mapsto> T\<lparr>tb_varq := q\<rparr>)))"
  using assms by (subst scan_buffers.simps) (simp add: Let_def)

text \<open>A buffer to be dropped: its thread has ended, and it is empty.\<close>

definition tb_dead :: "(nat \<Rightarrow> thread_buffer option) \<Rightarrow> (nat \<Rightarrow> log_msg_bytes list) \<Rightarrow> nat \<Rightarrow> bool" where
  "tb_dead bufs xs t \<longleftrightarrow> xs t = [] \<and> tb_ended bufs t = Some True"

lemma tb_dead_upd [simp]:
  "tb_dead (bufs(t := None)) xs u \<longleftrightarrow> u \<noteq> t \<and> tb_dead bufs xs u"
  by (simp add: tb_dead_def)

text \<open>What the loop is to achieve, from nodes \<open>ns\<close>: exactly the dead buffers are dropped.\<close>

definition scanned ::
  "(nat \<Rightarrow> producer) \<Rightarrow> ('k, 'f) log_env \<Rightarrow> static_info list \<Rightarrow> (nat \<Rightarrow> log_msg_bytes list) \<Rightarrow> heap_node list \<Rightarrow>
   (nat \<Rightarrow> thread_buffer option) \<Rightarrow> (heap_node list \<times> (nat \<Rightarrow> thread_buffer option)) res \<Rightarrow> bool" where
  "scanned ph env infos xs ns bufs r \<longleftrightarrow>
     (\<exists>ns' bufs'. r = Inr (ns', bufs') \<and> queues_ok ph env infos bufs' ns' xs \<and> shows_all ns' xs \<and>
        node_tb ` set ns' = {t \<in> node_tb ` set ns. \<not> tb_dead bufs xs t} \<and>
        (\<forall>t \<in> node_tb ` set ns'. tb_ended bufs' t = tb_ended bufs t))"

lemma scanned_dropped:
  assumes "scanned ph env infos xs ns (bufs(t := None)) r" "node_tb ` set ms = insert t (node_tb ` set ns)"
    and "t \<notin> node_tb ` set ns" "tb_dead bufs xs t"
  shows "scanned ph env infos xs ms bufs r"
proof -
  obtain ns' bufs' where r: "r = Inr (ns', bufs')" "queues_ok ph env infos bufs' ns' xs" "shows_all ns' xs"
    "node_tb ` set ns' = {u \<in> node_tb ` set ns. \<not> tb_dead (bufs(t := None)) xs u}"
    "\<forall>u \<in> node_tb ` set ns'. tb_ended bufs' u = tb_ended (bufs(t := None)) u"
    using assms(1) by (auto simp only: scanned_def)
  have sub: "node_tb ` set ns' \<subseteq> node_tb ` set ns" unfolding r(4) by blast
  then have "tb_ended bufs' u = tb_ended bufs u" if "u \<in> node_tb ` set ns'" for u
    using that assms(3) bspec [OF r(5) that] by auto
  moreover have "node_tb ` set ns' = {u \<in> node_tb ` set ms. \<not> tb_dead bufs xs u}"
    using assms(2-4) r(4) by auto
  ultimately show ?thesis
    using r(1-3) unfolding scanned_def by blast
qed

lemma shown_nonempty: "node_ok ph bufs nd xs \<Longrightarrow> node_header nd \<noteq> None \<Longrightarrow> xs \<noteq> []"
  by (auto elim: node_shows)

text \<open>Before position \<open>i\<close> the loop has left nothing to drop, and an unset header only for an empty queue.\<close>

definition looked ::
  "(nat \<Rightarrow> log_msg_bytes list) \<Rightarrow> nat \<Rightarrow> heap_node list \<Rightarrow> (nat \<Rightarrow> thread_buffer option) \<Rightarrow> bool" where
  "looked xs i ns bufs \<longleftrightarrow> (\<forall>j < i. j < length ns \<longrightarrow> node_header (ns ! j) = None \<longrightarrow>
      xs (node_tb (ns ! j)) = [] \<and> \<not> tb_dead bufs xs (node_tb (ns ! j)))"

lemma looked_all:
  assumes q: "queues_ok ph env infos bufs ns xs" and l: "looked xs i ns bufs" and i: "\<not> i < length ns"
  shows "scanned ph env infos xs ns bufs (scan_buffers i ns bufs)"
proof -
  have none: "xs (node_tb nd) = [] \<and> \<not> tb_dead bufs xs (node_tb nd)"
    if "nd \<in> set ns" "node_header nd = None" for nd
    using l i that by (auto simp: in_set_conv_nth looked_def)
  moreover have "\<not> tb_dead bufs xs (node_tb nd)" if "nd \<in> set ns" for nd
    using none that q shown_nonempty [of ph bufs nd] by (auto simp: queues_ok_def tb_dead_def)
  ultimately show ?thesis
    using i q by (auto simp: scan_stop scanned_def shows_all_def)
qed

lemma looked_skip: "looked xs i ns bufs \<Longrightarrow> node_header (ns ! i) \<noteq> None \<Longrightarrow> looked xs (Suc i) ns bufs"
  by (auto simp: looked_def less_Suc_eq)

text \<open>A node whose buffer is dropped: the last node takes its place, and is looked at next.\<close>

lemma scan_dropped:
  fixes ns :: "heap_node list" and i :: nat
  defines "t \<equiv> node_tb (ns ! i)" and "ds \<equiv> butlast (ns[i := last ns])"
  assumes q: "queues_ok ph env infos bufs ns xs" and l: "looked xs i ns bufs" and i: "i < length ns"
    and dead: "tb_dead bufs xs t"
  shows "queues_ok ph env infos (bufs(t := None)) ds xs" "looked xs i ds (bufs(t := None))"
    "scanned ph env infos xs ds (bufs(t := None)) r \<Longrightarrow> scanned ph env infos xs ns bufs r"
proof -
  have "distinct (map node_tb ns)" using q by (simp add: queues_ok_def)
  note sub = mset_set_diff [OF mset_drop_node [OF i] nth_mem [OF i] this]
  show "queues_ok ph env infos (bufs(t := None)) ds xs"
    unfolding t_def ds_def by (rule queues_ok_sub [OF q sub])
  show "looked xs i ds (bufs(t := None))"
    using l by (simp add: looked_def t_def ds_def nth_butlast del: fun_upd_apply)
  have "node_tb ` set ns = insert t (node_tb ` set ds)" "t \<notin> node_tb ` set ds"
    using nth_mem [OF i] sub(1,3) by (auto simp: t_def ds_def)
  then show "scanned ph env infos xs ds (bufs(t := None)) r \<Longrightarrow> scanned ph env infos xs ns bufs r"
    using scanned_dropped dead by blast
qed

text \<open>A node that stays, with what \<open>front\<close> returned in its header.\<close>

lemma scan_kept:
  fixes ns :: "heap_node list" and i :: nat
  defines "t \<equiv> node_tb (ns ! i)"
  assumes q: "queues_ok ph env infos bufs ns xs" and l: "looked xs i ns bufs" and i: "i < length ns"
    and T: "bufs t = Some T" and keep: "h = None \<longrightarrow> \<not> shouldDeallocate T \<and> xs t = []"
    and ok: "node_ok ph (bufs(t \<mapsto> T\<lparr>tb_varq := v\<rparr>)) ((ns ! i)\<lparr>node_header := h\<rparr>) (xs t)"
  defines "ks \<equiv> ns[i := (ns ! i)\<lparr>node_header := h\<rparr>]" and "ubufs \<equiv> bufs(t \<mapsto> T\<lparr>tb_varq := v\<rparr>)"
  shows "queues_ok ph env infos ubufs ks xs" "looked xs (Suc i) ks ubufs"
    "scanned ph env infos xs ks ubufs r \<Longrightarrow> scanned ph env infos xs ns bufs r"
proof -
  show "queues_ok ph env infos ubufs ks xs"
    using queues_ok_update [OF q i ok [unfolded t_def]] by (simp only: ks_def ubufs_def t_def)
  have ended: "tb_ended ubufs = tb_ended bufs"
    using T by (simp add: ubufs_def fun_upd_idem tb_ended_def)
  then have dead: "tb_dead ubufs xs = tb_dead bufs xs" by (simp add: tb_dead_def fun_eq_iff)
  have "h = None \<Longrightarrow> \<not> tb_dead bufs xs t"
    using keep T by (simp add: tb_dead_def tb_ended_def)
  then show "looked xs (Suc i) ks ubufs"
    using l keep i unfolding looked_def dead by (auto simp: ks_def t_def nth_list_update less_Suc_eq)
  have "map node_tb ks = map node_tb ns"
    using i by (intro nth_equalityI) (auto simp: ks_def nth_list_update)
  then have "node_tb ` set ks = node_tb ` set ns" by (metis set_map)
  then show "scanned ph env infos xs ks ubufs r \<Longrightarrow> scanned ph env infos xs ns bufs r"
    by (simp only: scanned_def ended dead)
qed

lemma scan_buffers_scanned:
  assumes "queues_ok ph env infos bufs ns xs" "looked xs i ns bufs"
  shows "scanned ph env infos xs ns bufs (scan_buffers i ns bufs)"
  using assms
proof (induction i ns bufs rule: scan_buffers.induct)
  case (1 i ns bufs)
  note q = "1.prems"(1) and l = "1.prems"(2)
  let ?n = "ns ! i" and ?t = "node_tb (ns ! i)"
  have live: "\<exists>T. bufs ?t = Some T" if "i < length ns"
    using q nth_mem [OF that] by (auto simp: queues_ok_def node_ok_def)
  then consider "\<not> i < length ns" | h where "i < length ns" "node_header ?n = Some h"
    | T where "i < length ns" "node_header ?n = None" "bufs ?t = Some T"
    by (cases "node_header ?n") blast+
  then show ?case
  proof cases
    case 1
    show ?thesis by (rule looked_all [OF q l 1])
  next
    case 2
    then show ?thesis
      using "1.IH"(1) [OF 2(1) refl] q looked_skip [OF l] by (simp add: scan_skip)
  next
    case (3 T)
    obtain h v where v: "front (tb_varq T) = Inr (h, v)"
      "node_ok ph (bufs(?t \<mapsto> T\<lparr>tb_varq := v\<rparr>)) (?n\<lparr>node_header := h\<rparr>) (xs ?t)" "h = None \<longrightarrow> xs ?t = []"
      using front_node [of ph bufs ?n "xs ?t" T] 3 q by (auto simp: queues_ok_def)
    note look = scan_look [of i ns bufs, OF 3 v(1)]
    note IH = "1.IH"(2,3) [OF 3(1) refl _ 3(3) v(1) refl refl]
    show ?thesis
    proof (cases "h = None \<and> shouldDeallocate T")
      case True
      then have "tb_dead bufs xs ?t"
        using v(3) 3(3) by (simp add: tb_ended_def tb_dead_def)
      note s = scan_dropped [OF q l 3(1) this]
      have "scanned ph env infos xs (butlast (ns[i := last ns])) (bufs(?t := None))
          (scan_buffers i (butlast (ns[i := last ns])) (bufs(?t := None)))"
        using IH(1) [OF _ True] 3(2) s(1,2) by (simp del: fun_upd_apply)
      then show ?thesis
        unfolding look if_P [OF True] by (rule s(3))
    next
      case False
      then have "h = None \<longrightarrow> \<not> shouldDeallocate T \<and> xs ?t = []" using v(3) by auto
      note s = scan_kept [OF q l 3(1,3) this v(2)]
      show ?thesis
        unfolding look if_not_P [OF False] using IH(2) [OF _ False s(1,2)] 3(2)
        by (intro s(3)) (simp del: fun_upd_apply)
    qed
  qed
qed

section \<open>A whole poll\<close>

text \<open>
  Before a poll: the log statements registered so far (the last ones wait in \<open>logInfos\<close>), the buffers in
  the heap, and the new ones in \<open>threadBuffers\<close>.
\<close>

definition backend_ok ::
  "(nat \<Rightarrow> producer) \<Rightarrow> ('k, 'f) log_env \<Rightarrow> ('k, 'f) log_backend \<Rightarrow> (nat \<Rightarrow> log_msg_bytes list) \<Rightarrow> bool" where
  "backend_ok ph env b xs \<longleftrightarrow>
     queues_ok ph env (l_bgLogInfos (poll_collect b)) (l_buffers b) (l_bgThreadBuffers (poll_collect b)) xs \<and>
     seq_even (l_tscns b) \<and> l_outputFp b \<noteq> None"

text \<open>The buffers a poll looks at.\<close>

definition polled :: "('k, 'f) log_backend \<Rightarrow> nat set" where
  "polled b = node_tb ` set (l_bgThreadBuffers b) \<union> set (l_threadBuffers b)"

lemma poll_collect_frame [simp]:
  "l_buffers (poll_collect b) = l_buffers b" "l_tscns (poll_collect b) = l_tscns b"
  "l_outputFp (poll_collect b) = l_outputFp b"
  "node_tb ` set (l_bgThreadBuffers (poll_collect b)) = polled b"
  by (auto simp: poll_collect_def polled_def Let_def image_Un image_image)

lemma poll_collect_text [simp]: "log_text files (poll_collect b) = log_text files b"
  by (rule log_text_eq) (simp_all add: poll_collect_def Let_def)

lemma poll_flush_ok:
  assumes law: "file_law env files" and fp: "l_outputFp b \<noteq> None" and even: "seq_even (l_tscns b)"
  shows "\<exists>b'. poll_flush env force tsc b = Some b' \<and> log_text files b' = log_text files b \<and> same_queues b b' \<and>
    (force \<longrightarrow> l_membuf b' = [])"
proof -
  obtain now where now: "tsc2ns (e_double env) tsc (l_tscns b) = Some now"
    using tsc2ns_Some even by blast
  have "log_text files (b\<lparr>l_nextFlushTime := d\<rparr>) = log_text files b" "same_queues b (b\<lparr>l_nextFlushTime := d\<rparr>)" for d
    by (rule log_text_eq; simp) (simp add: same_queues_def)
  then show ?thesis
    using now flush_text(1) [OF law fp] flush_text(2) [of b env] flush_text(3) [of env b] by (auto simp: poll_flush_def)
qed

lemma samples_files: "file_law env files \<Longrightarrow> files fp (snd (samples (e_clocks env) n k)) = files fp k"
proof (induction n arbitrary: k)
  case 0
  then show ?case by simp
next
  case (Suc n)
  obtain a k1 where 1: "rdsysns (e_clocks env) k = (a, k1)" by fastforce
  obtain b k2 where 2: "rdtsc (e_clocks env) k1 = (b, k2)" by fastforce
  have "files fp k2 = files fp k"
    using Suc.prems 1 2 by (metis file_law_def snd_conv)
  then show ?case
    using Suc.IH [OF Suc.prems, of k2] 1 2 by (simp add: split_beta)
qed

lemma calibrate_files:
  assumes law: "file_law env files"
    and cal: "calibrate d (e_clocks env) k s = Some (Inr (s', k'))"
  shows "files fp k' = files fp k"
proof -
  obtain a k1 where 1: "rdtsc (e_clocks env) k = (a, k1)" by fastforce
  obtain b k2 where 2: "rdtsc (e_clocks env) k1 = (b, k2)" by fastforce
  have "files fp (snd (syncTime (e_clocks env) k1)) = files fp k2"
    using samples_files [OF law, of fp 3 k2] 2 by (simp add: syncTime_def split_beta Let_def)
  moreover have "files fp k2 = files fp k" "files fp k1 = files fp k"
    using law 1 2 by (metis file_law_def snd_conv)+
  moreover have "k' = k1 \<or> k' = snd (syncTime (e_clocks env) k1)"
    using cal 1 by (auto simp: calibrate_def Let_def bind_res_eq_Inr split: prod.splits if_splits option.splits)
  ultimately show ?thesis by auto
qed

text \<open>Up to the loop: the buffers are looked at, and those that are left become a heap.\<close>

lemma poll_prepare:
  assumes q: "queues_ok ph env (l_bgLogInfos (poll_collect b)) (l_buffers b) (l_bgThreadBuffers (poll_collect b)) xs"
    and cal: "calibrate (e_double env) (e_clocks env) (l_kern b) (l_tscns b) = Some (Inr (tn, k1))"
    and clk: "rdtsc (e_clocks env) k1 = (tsc, k2)"
  defines "b1 \<equiv> poll_collect (b\<lparr>l_tscns := tn, l_kern := k2\<rparr>)"
  obtains ns bufs where
    "poll env force b =
       (if ns = [] then Some (Inr (b1\<lparr>l_buffers := bufs, l_bgThreadBuffers := ns\<rparr>))
        else (case poll_loop env tsc (b1\<lparr>l_buffers := bufs, l_bgThreadBuffers := ns\<rparr>) of
                None \<Rightarrow> None
              | Some (Inl e) \<Rightarrow> Some (Inl e)
              | Some (Inr b2) \<Rightarrow> map_option Inr (poll_flush env force tsc b2)))"
    "ns \<noteq> [] \<longrightarrow> loop_ok ph env (b1\<lparr>l_buffers := bufs, l_bgThreadBuffers := ns\<rparr>) xs"
    "node_tb ` set ns = {t \<in> polled b. \<not> tb_dead (l_buffers b) xs t}"
    "\<forall>t \<in> node_tb ` set ns. tb_ended bufs t = tb_ended (l_buffers b) t"
proof -
  have c: "l_bgLogInfos b1 = l_bgLogInfos (poll_collect b)" "l_bgThreadBuffers b1 = l_bgThreadBuffers (poll_collect b)"
    "l_buffers b1 = l_buffers b" "node_tb ` set (l_bgThreadBuffers b1) = polled b"
    by (simp_all add: b1_def) (simp_all add: poll_collect_def polled_def Let_def)
  have "scanned ph env (l_bgLogInfos b1) xs (l_bgThreadBuffers b1) (l_buffers b1)
      (scan_buffers 0 (l_bgThreadBuffers b1) (l_buffers b1))"
    using q c by (intro scan_buffers_scanned) (simp_all add: looked_def)
  then obtain ns bufs where scan: "scan_buffers 0 (l_bgThreadBuffers b1) (l_buffers b1) = Inr (ns, bufs)"
    "queues_ok ph env (l_bgLogInfos b1) bufs ns xs" "shows_all ns xs"
    "node_tb ` set ns = {t \<in> polled b. \<not> tb_dead (l_buffers b) xs t}"
    "\<forall>t \<in> node_tb ` set ns. tb_ended bufs t = tb_ended (l_buffers b) t"
    unfolding scanned_def c(3,4) by blast
  define h where "h = (if ns = [] then [] else build_heap (node_key bufs) ns)"
  let ?b2 = "b1\<lparr>l_buffers := bufs, l_bgThreadBuffers := h\<rparr>"
  have set: "set h = set ns" "mset (map node_tb h) = mset (map node_tb ns)"
    using build_heap_heap(2) [of ns "node_key bufs"] by (auto simp: h_def dest: mset_eq_setD)
  have comm: "b1\<lparr>l_bgThreadBuffers := m, l_buffers := u\<rparr> = b1\<lparr>l_buffers := u, l_bgThreadBuffers := m\<rparr>" for m u
    by simp
  have "poll env force b =
      (case scan_buffers 0 (l_bgThreadBuffers b1) (l_buffers b1) of
         Inl e \<Rightarrow> Some (Inl e)
       | Inr (ns, bufs) \<Rightarrow>
           let b2 = b1\<lparr>l_bgThreadBuffers := ns, l_buffers := bufs\<rparr>
           in if ns = [] then Some (Inr b2)
              else (case poll_loop env tsc (b2\<lparr>l_bgThreadBuffers := build_heap (node_key bufs) ns\<rparr>) of
                      None \<Rightarrow> None
                    | Some (Inl e) \<Rightarrow> Some (Inl e)
                    | Some (Inr b3) \<Rightarrow> map_option Inr (poll_flush env force tsc b3)))"
    by (simp only: poll_def cal clk b1_def Let_def option.case sum.case prod.case)
  then have run: "poll env force b =
      (if h = [] then Some (Inr ?b2)
       else (case poll_loop env tsc ?b2 of
               None \<Rightarrow> None
             | Some (Inl e) \<Rightarrow> Some (Inl e)
             | Some (Inr b2) \<Rightarrow> map_option Inr (poll_flush env force tsc b2)))"
    using scan(1) set(1) by (cases "ns = []") (auto simp: h_def comm)
  have "loop_ok ph env ?b2 xs" if "h \<noteq> []"
    using that scan(2,3) set build_heap_heap(1) [of ns "node_key bufs"] mset_eq_imp_distinct_iff [OF set(2)]
    by (auto simp: loop_ok_def queues_ok_def shows_all_def h_def)
  then show ?thesis
    using that [OF run] scan(4,5) set(1) by simp
qed

text \<open>What a poll leaves of the buffers: it drops exactly the dead ones, and makes none.\<close>

definition poll_frame :: "('k, 'f) log_backend \<Rightarrow> (nat \<Rightarrow> log_msg_bytes list) \<Rightarrow> ('k, 'f) log_backend \<Rightarrow> bool" where
  "poll_frame b xs b' \<longleftrightarrow>
     polled b' = {t \<in> polled b. \<not> tb_dead (l_buffers b) xs t} \<and>
     (\<forall>t \<in> polled b'. tb_ended (l_buffers b') t = tb_ended (l_buffers b) t) \<and>
     l_next_buffer b' = l_next_buffer b \<and> l_outputFp b' = l_outputFp b \<and>
     map info_sig (l_bgLogInfos (poll_collect b')) = map info_sig (l_bgLogInfos (poll_collect b))"

lemma poll_collect_more [simp]:
  "l_logInfos (poll_collect b) = []" "l_threadBuffers (poll_collect b) = []"
  "l_next_buffer (poll_collect b) = l_next_buffer b" "l_membuf (poll_collect b) = l_membuf b"
  "l_kern (poll_collect b) = l_kern b"
  "l_bgLogInfos (poll_collect (b\<lparr>l_tscns := tn, l_kern := k\<rparr>)) = l_bgLogInfos (poll_collect b)"
  by (simp_all add: poll_collect_def Let_def)

text \<open>Nothing waits to be taken over.\<close>

lemma poll_collect_none:
  assumes "l_logInfos b = []" "l_threadBuffers b = []"
  shows "poll_collect b = b" "polled b = node_tb ` set (l_bgThreadBuffers b)"
  using assms by (simp_all add: poll_collect_def polled_def)

text \<open>What a poll at \<open>tsc\<close> comes to: it has written the older statements, and left the younger ones.\<close>

definition poll_wrote ::
  "(nat \<Rightarrow> producer) \<Rightarrow> ('k, 'f) log_env \<Rightarrow> (nat \<Rightarrow> 'k \<Rightarrow> string) \<Rightarrow> 'f tscns \<Rightarrow> int \<Rightarrow> bool \<Rightarrow> ('k, 'f) log_backend \<Rightarrow>
   (nat \<Rightarrow> log_msg_bytes list) \<Rightarrow> ('k, 'f) log_backend res option \<Rightarrow> bool" where
  "poll_wrote ph env files tn tsc force b xs r \<longleftrightarrow> (\<exists>b' hs lines. r = Some (Inr b') \<and>
    sorted (map (tsc_of \<circ> snd) hs) \<and> fst ` set hs \<subseteq> polled b \<and>
    (\<forall>t \<in> polled b. handled_of t hs = filter (\<lambda>x. tsc_of x < tsc) (xs t)) \<and>
    list_all2 (\<lambda>p line. line_of env (l_bgLogInfos (poll_collect b)) (snd p) line) hs lines \<and>
    log_text files b' = log_text files b @ concat lines \<and> (force \<and> (hs \<noteq> [] \<or> polled b' \<noteq> {}) \<longrightarrow> l_membuf b' = []) \<and>
    backend_ok ph env b' (younger tsc xs) \<and> poll_frame b xs b' \<and> l_tscns b' = tn)"

text \<open>The backend once the clock is calibrated and what was announced is taken over.\<close>

definition poll_started ::
  "(nat \<Rightarrow> 'k \<Rightarrow> string) \<Rightarrow> 'f tscns \<Rightarrow> ('k, 'f) log_backend \<Rightarrow> ('k, 'f) log_backend \<Rightarrow> bool" where
  "poll_started files tn b b1 \<longleftrightarrow>
     log_text files b1 = log_text files b \<and> seq_even tn \<and> l_tscns b1 = tn \<and> l_outputFp b1 = l_outputFp b \<and>
     l_outputFp b \<noteq> None \<and> l_logInfos b1 = [] \<and> l_threadBuffers b1 = [] \<and>
     l_next_buffer b1 = l_next_buffer b \<and> l_bgLogInfos b1 = l_bgLogInfos (poll_collect b)"

lemma poll_wrote_none:
  assumes b1: "poll_started files tn b b1"
    and dead: "\<forall>t \<in> polled b. tb_dead (l_buffers b) xs t"
  shows "poll_wrote ph env files tn tsc force b xs
    (Some (Inr (b1\<lparr>l_buffers := bufs, l_bgThreadBuffers := []\<rparr>)))"
proof -
  let ?b2 = "b1\<lparr>l_buffers := bufs, l_bgThreadBuffers := []\<rparr>"
  have c: "poll_collect ?b2 = ?b2" "polled ?b2 = {}"
    using poll_collect_none [of ?b2] b1 by (simp_all add: poll_started_def)
  have "backend_ok ph env ?b2 (younger tsc xs)" "poll_frame b xs ?b2"
    using b1 dead by (auto simp: backend_ok_def queues_ok_def poll_frame_def c poll_started_def)
  moreover have "log_text files ?b2 = log_text files b"
    using b1 log_text_eq [of ?b2 b1] by (simp add: poll_started_def)
  ultimately show ?thesis
    using dead unfolding poll_wrote_def
    by (intro exI [of _ ?b2] exI [of _ "[]"]) (simp add: c tb_dead_def b1 [unfolded poll_started_def])
qed

lemma poll_wrote_loop:
  fixes ns :: "heap_node list"
  defines "tbs \<equiv> node_tb ` set ns"
  assumes b1: "poll_started files tn b b1" and law: "file_law env files"
    and loop: "loop_ok ph env (b1\<lparr>l_buffers := bufs, l_bgThreadBuffers := ns\<rparr>) xs"
    and kept: "tbs = {t \<in> polled b. \<not> tb_dead (l_buffers b) xs t}"
    and ended: "\<forall>t \<in> tbs. tb_ended bufs t = tb_ended (l_buffers b) t"
  shows "poll_wrote ph env files tn tsc force b xs
    (case poll_loop env tsc (b1\<lparr>l_buffers := bufs, l_bgThreadBuffers := ns\<rparr>) of
       None \<Rightarrow> None | Some (Inl e) \<Rightarrow> Some (Inl e) | Some (Inr b2) \<Rightarrow> map_option Inr (poll_flush env force tsc b2))"
proof -
  let ?b2 = "b1\<lparr>l_buffers := bufs, l_bgThreadBuffers := ns\<rparr>"
  note st = b1 [unfolded poll_started_def]
  have t2: "log_text files ?b2 = log_text files b"
    using st log_text_eq [of ?b2 b1] by simp
  obtain b3 hs lines where l: "poll_loop env tsc ?b2 = Some (Inr b3)" "loop_writes ph env files tsc ?b2 xs b3 hs lines"
    using poll_loop_writes [OF loop _ law, of tsc] st by auto
  note lw = l(2) [unfolded loop_writes_def] and frame = l(2) [unfolded loop_writes_def loop_frame_def]
  obtain b' where b': "poll_flush env force tsc b3 = Some b'" "log_text files b' = log_text files b3"
    "force \<longrightarrow> l_membuf b' = []" "same_queues b3 b'"
    using poll_flush_ok [OF law, of b3 force tsc] frame st by auto
  note same = b'(4) [unfolded same_queues_def]
  have none: "l_logInfos b' = []" "l_threadBuffers b' = []"
    using same frame st by simp_all
  note c = poll_collect_none [OF none]
  have hs: "fst ` set hs \<subseteq> tbs" "\<forall>t \<in> tbs. handled_of t hs = filter (\<lambda>x. tsc_of x < tsc) (xs t)"
    using lw by (simp_all add: tbs_def)
  have "handled_of t hs = filter (\<lambda>x. tsc_of x < tsc) (xs t)" if "t \<in> polled b" for t
    using hs that kept by (cases "t \<in> tbs") (auto simp: handled_of_def filter_empty_conv tb_dead_def)
  moreover have "fst ` set hs \<subseteq> polled b" using hs(1) unfolding kept by blast
  moreover have "backend_ok ph env b' (younger tsc xs)"
    using lw same frame st queues_ok_infos [of "l_bgLogInfos b'" "l_bgLogInfos b3" ph env]
    by (simp add: backend_ok_def c)
  moreover have "poll_frame b xs b'"
    using same frame st kept ended unfolding tbs_def by (simp add: poll_frame_def c)
  moreover have "l_tscns b' = tn"
    using same frame st by simp
  ultimately show ?thesis
    using l(1) b'(1-3) lw t2 st unfolding poll_wrote_def
    by (intro exI [of _ b'] exI [of _ hs] exI [of _ lines]) simp
qed

lemma poll_start:
  assumes ok: "backend_ok ph env b xs" and law: "file_law env files"
    and cal: "calibrate (e_double env) (e_clocks env) (l_kern b) (l_tscns b) = Some (Inr (tn, k1))"
    and clk: "rdtsc (e_clocks env) k1 = (tsc, k2)"
  shows "poll_started files tn b (poll_collect (b\<lparr>l_tscns := tn, l_kern := k2\<rparr>))"
proof -
  have "files p k2 = files p (l_kern b)" for p
    using law clk calibrate_files [OF law cal] by (metis file_law_def snd_conv)
  then have "log_text files (poll_collect (b\<lparr>l_tscns := tn, l_kern := k2\<rparr>)) = log_text files b"
    by (intro log_text_eq) simp_all
  then show ?thesis
    using ok calibrate_even [OF cal] by (simp add: poll_started_def backend_ok_def)
qed

lemma poll_writes:
  assumes ok: "backend_ok ph env b xs" and law: "file_law env files"
    and cal: "calibrate (e_double env) (e_clocks env) (l_kern b) (l_tscns b) = Some (Inr (tn, k1))"
    and clk: "rdtsc (e_clocks env) k1 = (tsc, k2)"
  shows "\<exists>b' hs lines. poll env force b = Some (Inr b') \<and>
    sorted (map (tsc_of \<circ> snd) hs) \<and> fst ` set hs \<subseteq> polled b \<and>
    (\<forall>t \<in> polled b. handled_of t hs = filter (\<lambda>x. tsc_of x < tsc) (xs t)) \<and>
    list_all2 (\<lambda>p line. line_of env (l_bgLogInfos (poll_collect b)) (snd p) line) hs lines \<and>
    log_text files b' = log_text files b @ concat lines \<and> (force \<and> (hs \<noteq> [] \<or> polled b' \<noteq> {}) \<longrightarrow> l_membuf b' = []) \<and>
    backend_ok ph env b' (younger tsc xs) \<and> poll_frame b xs b' \<and> l_tscns b' = tn"
proof -
  note started = poll_start [OF ok law cal clk]
  have q: "queues_ok ph env (l_bgLogInfos (poll_collect b)) (l_buffers b) (l_bgThreadBuffers (poll_collect b)) xs"
    using ok by (simp add: backend_ok_def)
  have "poll_wrote ph env files tn tsc force b xs (poll env force b)"
  proof (rule poll_prepare [OF q cal clk, of force], goal_cases)
    case (1 ns bufs)
    show ?case
    proof (cases "ns = []")
      case True
      then show ?thesis
        using 1(1,3) poll_wrote_none [OF started, of xs] by simp
    next
      case False
      then show ?thesis
        using 1 poll_wrote_loop [OF started law, where ns = ns and bufs = bufs] by simp
    qed
  qed
  then show ?thesis
    by (simp add: poll_wrote_def)
qed

text \<open>
  Without a buffer left there is nothing to do, and \<open>poll\<close> returns early: also a forced one leaves the
  memory buffer as it is.
\<close>

lemma poll_no_buffers:
  assumes ok: "backend_ok ph env b xs" and law: "file_law env files"
    and cal: "calibrate (e_double env) (e_clocks env) (l_kern b) (l_tscns b) = Some (Inr (tn, k1))"
    and dead: "\<forall>t \<in> polled b. tb_dead (l_buffers b) xs t"
  shows "\<exists>b'. poll env force b = Some (Inr b') \<and> l_membuf b' = l_membuf b \<and> l_outputFp b' = l_outputFp b \<and>
    (\<forall>fp. files fp (l_kern b') = files fp (l_kern b))"
proof -
  obtain tsc k2 where clk: "rdtsc (e_clocks env) k1 = (tsc, k2)" by fastforce
  have q: "queues_ok ph env (l_bgLogInfos (poll_collect b)) (l_buffers b) (l_bgThreadBuffers (poll_collect b)) xs"
    using ok by (simp add: backend_ok_def)
  have fk: "files p k2 = files p (l_kern b)" for p
    using law clk calibrate_files [OF law cal] by (metis file_law_def snd_conv)
  show ?thesis
  proof (rule poll_prepare [OF q cal clk, of force])
    fix ns bufs
    let ?b2 = "(poll_collect (b\<lparr>l_tscns := tn, l_kern := k2\<rparr>))\<lparr>l_buffers := bufs, l_bgThreadBuffers := ns\<rparr>"
    assume run: "poll env force b =
       (if ns = [] then Some (Inr ?b2)
        else (case poll_loop env tsc ?b2 of
                None \<Rightarrow> None
              | Some (Inl e) \<Rightarrow> Some (Inl e)
              | Some (Inr b2) \<Rightarrow> map_option Inr (poll_flush env force tsc b2)))"
      and kept: "node_tb ` set ns = {t \<in> polled b. \<not> tb_dead (l_buffers b) xs t}"
    have "node_tb ` set ns = {}" unfolding kept using dead by blast
    then have "ns = []" by simp
    then show ?thesis
      using run fk by (intro exI [of _ ?b2]) simp
  qed
qed

section \<open>A poll from a signal handler\<close>

text \<open>
  A signal that arrives while \<open>saveParam\<close> runs finds the sequence number odd. The handler logs a
  message and polls on the same thread: formatting that message waits for ever for the number to
  become even.
\<close>

lemma poll_loop_hangs:
  assumes ok: "loop_ok ph env b xs" and seq_odd: "odd (param_seq (l_tscns b))"
    and old: "t \<in> node_tb ` set (l_bgThreadBuffers b)" "x \<in> set (xs t)" "tsc_of x < tsc"
  shows "poll_loop env tsc b = None"
proof -
  have hang: "tsc2ns d y (l_tscns b) = None" for d y
    by (rule tsc2ns_odd) (use seq_odd even_clear_bit in blast)
  obtain nd rest where ns: "l_bgThreadBuffers b = nd # rest"
    using old(1) by (cases "l_bgThreadBuffers b") auto
  have "\<exists>h. node_header nd = Some h \<and> tsc_of (hd (xs (node_tb nd))) < tsc"
    using poll_stops(2) [OF ok ns, of tsc] old by fastforce
  then obtain h where h: "node_header nd = Some h" "tsc_of (hd (xs (node_tb nd))) < tsc" by blast
  let ?x = "hd (xs (node_tb nd))"
  have nok: "node_ok ph (l_buffers b) nd (xs (node_tb nd))"
    "\<forall>x \<in> set (xs (node_tb nd)). msg_readable env (l_bgLogInfos b) x"
    using ok ns by (simp_all add: loop_ok_def queues_ok_def)
  obtain T where T: "l_buffers b (node_tb nd) = Some T" "nameSize T \<le> length (tb_name T)"
    "xs (node_tb nd) \<noteq> []" "read_msg h (tb_varq T) = ?x" "logId_at (q_blk (tb_varq T)) (unat h) = fst ?x"
    "8 \<le> length (snd ?x) \<Longrightarrow> get_bytes (q_blk (tb_varq T)) (8 * unat h + 8) 8 = take 8 (snd ?x)"
    using nok(1) h(1) by (rule node_shows) blast
  have rd: "msg_readable env (l_bgLogInfos b) ?x"
    using nok(2) T(3) by simp
  then have key: "sint (msg_tsc (get_bytes (q_blk (tb_varq T)) (8 * unat h + 8) 8)) = tsc_of ?x"
    using T(6) [OF readable_8 [OF rd]] by (simp add: tsc_of_def msg_tsc_def)
  have "handleLog env nm ?x b = None" for nm
    using rd hang by (auto simp: handleLog_def msg_readable_def Let_def not_less)
  then show ?thesis
    using h T(1,2,4,5) key rd ns by (subst poll_loop.simps) (simp add: Let_def msg_readable_def)
qed

lemma poll_hangs:
  assumes ok: "queues_ok ph env (l_bgLogInfos (poll_collect b)) (l_buffers b) (l_bgThreadBuffers (poll_collect b)) xs"
    and seq_odd: "odd (param_seq (l_tscns b))"
    and clk: "rdtsc (e_clocks env) (l_kern b) = (now, k1)" "now < next_calibrate_tsc (l_tscns b)"
      "rdtsc (e_clocks env) k1 = (tsc, k2)"
    and old: "t \<in> polled b" "x \<in> set (xs t)" "tsc_of x < tsc"
  shows "poll env force b = None"
proof -
  have cal: "calibrate (e_double env) (e_clocks env) (l_kern b) (l_tscns b) = Some (Inr (l_tscns b, k1))"
    using clk by (simp add: calibrate_def)
  show ?thesis
  proof (rule poll_prepare [OF ok cal clk(3), of force])
    fix ns bufs
    let ?b2 = "(poll_collect (b\<lparr>l_tscns := l_tscns b, l_kern := k2\<rparr>))\<lparr>l_buffers := bufs, l_bgThreadBuffers := ns\<rparr>"
    assume run: "poll env force b =
       (if ns = [] then Some (Inr ?b2)
        else (case poll_loop env tsc ?b2 of
                None \<Rightarrow> None
              | Some (Inl e) \<Rightarrow> Some (Inl e)
              | Some (Inr b2) \<Rightarrow> map_option Inr (poll_flush env force tsc b2)))"
      and loop: "ns \<noteq> [] \<longrightarrow> loop_ok ph env ?b2 xs"
      and kept: "node_tb ` set ns = {t \<in> polled b. \<not> tb_dead (l_buffers b) xs t}"
    have t: "t \<in> node_tb ` set ns" using old(1,2) unfolding kept tb_dead_def by auto
    then have "ns \<noteq> []" by auto
    then have "poll_loop env tsc ?b2 = None"
      using poll_loop_hangs [of ph env ?b2 xs t x tsc] loop t seq_odd old(2,3) by simp
    then show ?thesis
      using run \<open>ns \<noteq> []\<close> by simp
  qed
qed

end
