(* ===== verification/Log_Front.thy ===== *)
theory Log_Front
  imports Log_Scan
begin

text \<open>
  The statements a program logs with and the life of the logger: the macros \<open>FMTLOG\<close>, \<open>FMTLOG_LIMIT\<close>
  and \<open>FMTLOG_ONCE\<close> with \<open>log\<close>, \<open>logOnce\<close> and \<open>allocMsg\<close> of \<open>log/fmtlog.h\<close>, the constructor and the
  destructor, the setters and the polling thread of \<open>log/fmtlog-inl.h\<close>. The lemmas compose the two sides:
  what a statement leaves in a thread's queue is what the next poll finds.
\<close>

section \<open>Logging\<close>

text \<open>
  \<open>tid\<close> is the number of the calling thread, \<open>own\<close> its buffer, \<open>full\<close> the effect of the callback for a
  full queue. The results are whether the message found room and the thread's buffer.
\<close>

definition store_in ::
  "nat \<Rightarrow> nat option \<Rightarrow> ('k \<Rightarrow> 'k) \<Rightarrow> (varq \<Rightarrow> (bool \<times> varq) res) \<Rightarrow> ('k, 'f) log_backend \<Rightarrow>
   (bool \<times> nat \<times> ('k, 'f) log_backend) res" where
  "store_in tid own full store b =
     (let (t, b1) = preallocate tid own b
      in case l_buffers b1 t of
           None \<Rightarrow> Inl (Fault Use_after_free)
         | Some T \<Rightarrow>
             bind_res (store (tb_varq T)) (\<lambda>(ok, q).
               let b2 = b1\<lparr>l_buffers := (l_buffers b1)(t \<mapsto> T\<lparr>tb_varq := q\<rparr>)\<rparr>
               in Inr (ok, t, if ok then b2 else b2\<lparr>l_kern := full (l_kern b2)\<rparr>)))"

primrec arg_name :: "log_arg \<Rightarrow> string option" where
  "arg_name (Arg_named n a) = Some n"
| "arg_name (Arg_cstring s) = None"
| "arg_name (Arg_string s) = None"
| "arg_name (Arg_obj bs unref dtor) = None"

text \<open>\<open>log\<close>: the first execution registers the statement, which gives it its log id.\<close>

definition register_stmt ::
  "('k, 'f) log_env \<Rightarrow> u32 \<Rightarrow> string \<Rightarrow> log_level \<Rightarrow> string \<Rightarrow> log_arg list \<Rightarrow> ('k, 'f) log_backend \<Rightarrow>
   (u32 \<times> ('k, 'f) log_backend) res" where
  "register_stmt env logId loc level format args b =
     (if logId \<noteq> 0 then Inr (logId, b)
      else bind_res (unNameFormat (e_name_start env) False format [] (map arg_name args)) (\<lambda>(unnamed, ro).
             Inr (registerLogInfo logId (Some (map type_of args)) loc level unnamed b)))"

definition fmtlog_log ::
  "('k, 'f) log_env \<Rightarrow> nat \<Rightarrow> nat option \<Rightarrow> ('k \<Rightarrow> 'k) \<Rightarrow> u32 \<Rightarrow> u64 \<Rightarrow> string \<Rightarrow> log_level \<Rightarrow> string \<Rightarrow>
   log_arg list \<Rightarrow> ('k, 'f) log_backend \<Rightarrow> (bool \<times> u32 \<times> nat \<times> ('k, 'f) log_backend) res" where
  "fmtlog_log env tid own full logId tsc loc level format args b =
     bind_res (register_stmt env logId loc level format args b) (\<lambda>(logId, b1).
     bind_res (store_in tid own full (log_stmt tsc logId args) b1) (\<lambda>(ok, t, b2).
       Inr (ok, logId, t, b2)))"

text \<open>
  \<open>logOnce\<close> formats at once; \<open>loc_addr\<close> is the address of the location string. The clock is read when the
  message has found room.
\<close>

definition bytes_of :: "string \<Rightarrow> byte list" where "bytes_of s = map (\<lambda>c. of_nat (of_char c)) s"

definition logOnce_stmt ::
  "('k, 'f) log_env \<Rightarrow> nat \<Rightarrow> nat option \<Rightarrow> ('k \<Rightarrow> 'k) \<Rightarrow> u64 \<Rightarrow> log_level \<Rightarrow> string \<Rightarrow> log_arg list \<Rightarrow>
   ('k, 'f) log_backend \<Rightarrow> (bool \<times> nat \<times> ('k, 'f) log_backend) res" where
  "logOnce_stmt env tid own full loc_addr level format args b =
     (let (tsc, k1) = rdtsc (e_clocks env) (l_kern b);
          msg = bytes_of (fmt_body env format (map arg_val args))
      in bind_res (store_in tid own full (logOnce (of_int tsc) loc_addr (of_nat (level_num level)) msg) b)
           (\<lambda>(ok, t, b1). Inr (ok, t, if ok then b1\<lparr>l_kern := k1\<rparr> else b1)))"

section \<open>The macros\<close>

text \<open>\<open>None\<close> is a statement below the current level, or one that comes too early.\<close>

definition FMTLOG ::
  "('k, 'f) log_env \<Rightarrow> nat \<Rightarrow> nat option \<Rightarrow> ('k \<Rightarrow> 'k) \<Rightarrow> log_level \<Rightarrow> u32 \<Rightarrow> string \<Rightarrow> log_level \<Rightarrow> string \<Rightarrow>
   log_arg list \<Rightarrow> ('k, 'f) log_backend \<Rightarrow> (bool \<times> u32 \<times> nat option \<times> ('k, 'f) log_backend) res" where
  "FMTLOG env tid own full current logId loc level format args b =
     (if \<not> checkLogLevel current level then Inr (False, logId, own, b)
      else let (tsc, k1) = rdtsc (e_clocks env) (l_kern b)
           in bind_res (fmtlog_log env tid own full logId (of_int tsc) loc level format args (b\<lparr>l_kern := k1\<rparr>))
                (\<lambda>(ok, logId, t, b1). Inr (ok, logId, Some t, b1)))"

definition FMTLOG_LIMIT ::
  "('k, 'f) log_env \<Rightarrow> nat \<Rightarrow> nat option \<Rightarrow> ('k \<Rightarrow> 'k) \<Rightarrow> log_level \<Rightarrow> int \<Rightarrow> u32 \<Rightarrow> int \<Rightarrow> string \<Rightarrow>
   log_level \<Rightarrow> string \<Rightarrow> log_arg list \<Rightarrow> ('k, 'f) log_backend \<Rightarrow>
   (bool \<times> u32 \<times> int \<times> nat option \<times> ('k, 'f) log_backend) res option" where
  "FMTLOG_LIMIT env tid own full current min_interval logId limitNs loc level format args b =
     (if \<not> checkLogLevel current level then Some (Inr (False, logId, limitNs, own, b))
      else let (tsc, k1) = rdtsc (e_clocks env) (l_kern b); b1 = b\<lparr>l_kern := k1\<rparr>
           in case tsc2ns (e_double env) tsc (l_tscns b1) of
                None \<Rightarrow> None
              | Some ns \<Rightarrow>
                  Some (if ns < limitNs then Inr (False, logId, limitNs, own, b1)
                        else bind_res (fmtlog_log env tid own full logId (of_int tsc) loc level format args b1)
                               (\<lambda>(ok, logId, t, b2). Inr (ok, logId, ns + min_interval, Some t, b2))))"

definition FMTLOG_ONCE ::
  "('k, 'f) log_env \<Rightarrow> nat \<Rightarrow> nat option \<Rightarrow> ('k \<Rightarrow> 'k) \<Rightarrow> log_level \<Rightarrow> u64 \<Rightarrow> log_level \<Rightarrow> string \<Rightarrow>
   log_arg list \<Rightarrow> ('k, 'f) log_backend \<Rightarrow> (bool \<times> nat option \<times> ('k, 'f) log_backend) res" where
  "FMTLOG_ONCE env tid own full current loc_addr level format args b =
     (if \<not> checkLogLevel current level then Inr (False, own, b)
      else bind_res (logOnce_stmt env tid own full loc_addr level format args b)
             (\<lambda>(ok, t, b1). Inr (ok, Some t, b1)))"

section \<open>The life of the logger\<close>

definition setFlushDelay :: "int \<Rightarrow> ('k, 'f) log_backend \<Rightarrow> ('k, 'f) log_backend" where
  "setFlushDelay ns b = b\<lparr>l_flushDelay := ns\<rparr>"

definition flushOn :: "log_level \<Rightarrow> ('k, 'f) log_backend \<Rightarrow> ('k, 'f) log_backend" where
  "flushOn level b = b\<lparr>l_flushLogLevel := level\<rparr>"

definition setFlushBufSize :: "u32 \<Rightarrow> ('k, 'f) log_backend \<Rightarrow> ('k, 'f) log_backend" where
  "setFlushBufSize n b = b\<lparr>l_flushBufSize := n\<rparr>"

definition setLogCB :: "log_level option \<Rightarrow> ('k, 'f) log_backend \<Rightarrow> ('k, 'f) log_backend" where
  "setLogCB cb b = b\<lparr>l_cb := cb\<rparr>"

text \<open>
  The member \<open>setHeaderPattern\<close>; the 25 arguments are built anew for every line (\<open>make_header\<close>), so
  only the pattern and the positions are kept.
\<close>

definition set_header_pattern ::
  "('k, 'f) log_env \<Rightarrow> string \<Rightarrow> ('k, 'f) log_backend \<Rightarrow> ('k, 'f) log_backend res" where
  "set_header_pattern env pattern b =
     bind_res (setHeaderPattern (e_name_start env) pattern (replicate parttenArgSize ([] :: string))
                (replicate parttenArgSize []))
       (\<lambda>(header, ro, args). Inr (b\<lparr>l_headerPattern := header, l_reorderIdx := ro\<rparr>))"

text \<open>
  The constructor, on memory \<open>b\<close> that holds anything but the members with initial values; the result
  \<open>None\<close> is a system clock that never advances.
\<close>

definition initial_members :: "('k, 'f) log_backend \<Rightarrow> ('k, 'f) log_backend" where
  "initial_members b =
     b\<lparr>l_tscns := (l_tscns b)\<lparr>param_seq := 0\<rparr>, l_buffers := (\<lambda>t. None), l_next_buffer := 0,
       l_threadBuffers := [], l_bgThreadBuffers := [], l_logInfos := [], l_bgLogInfos := [], l_membuf := [],
       l_outputFp := None, l_manageFp := False, l_fpos := 0, l_flushDelay := 3000000000,
       l_nextFlushTime := INT64_MAX, l_flushBufSize := 8 * 1024, l_flushLogLevel := L_OFF, l_cb := None,
       l_cb_calls := []\<rparr>"

definition level_info :: "log_level \<Rightarrow> static_info" where
  "level_info l =
     \<lparr>location = [], basePos = 0, endPos = 0, formatToFn = None, formatString = [], logLevel = l\<rparr>"

definition log_backend_new ::
  "('k, 'f) log_env \<Rightarrow> nat \<Rightarrow> ('k, 'f) log_backend \<Rightarrow> ('k, 'f) log_backend res option" where
  "log_backend_new env std_out b =
     (let b1 = initial_members b
      in case tscns_init (e_double env) (e_clocks env) 20000000 (3 * NsPerSec) (l_kern b1) (l_tscns b1) of
           None \<Rightarrow> None
         | Some (tn, k) \<Rightarrow>
             (case resetDate env (b1\<lparr>l_tscns := tn, l_kern := k\<rparr>) of
                None \<Rightarrow> None
              | Some b2 \<Rightarrow>
                  Some (bind_res (setLogFile_fp env std_out False b2) (\<lambda>b3.
                        bind_res (set_header_pattern env ''{HMSf} {s:<16} {l}[{t:<6}] '' b3) (\<lambda>b4.
                          Inr (b4\<lparr>l_bgLogInfos := map level_info [L_DBG, L_INF, L_WRN, L_ERR]\<rparr>))))))"

text \<open>The destructor, once the polling thread is stopped.\<close>

definition log_backend_destroy ::
  "('k, 'f) log_env \<Rightarrow> ('k, 'f) log_backend \<Rightarrow> ('k, 'f) log_backend res option" where
  "log_backend_destroy env b =
     (case poll env True b of
        None \<Rightarrow> None
      | Some (Inl e) \<Rightarrow> Some (Inl e)
      | Some (Inr b1) \<Rightarrow> Some (closeLogFile env b1))"

text \<open>
  The polling thread; \<open>n\<close> is how many times it finds \<open>threadRunning\<close> true, \<open>sleep_for\<close> the system's.
\<close>

primrec polling_thread ::
  "('k, 'f) log_env \<Rightarrow> (int \<Rightarrow> 'k \<Rightarrow> 'k) \<Rightarrow> int \<Rightarrow> nat \<Rightarrow> ('k, 'f) log_backend \<Rightarrow>
   ('k, 'f) log_backend res option" where
  "polling_thread env sleep_for pollInterval 0 b = poll env True b"
| "polling_thread env sleep_for pollInterval (Suc n) b =
     (let (tsc, k1) = rdtsc (e_clocks env) (l_kern b)
      in case tsc2ns (e_double env) tsc (l_tscns b) of
           None \<Rightarrow> None
         | Some started \<Rightarrow>
             (case poll env False (b\<lparr>l_kern := k1\<rparr>) of
                None \<Rightarrow> None
              | Some (Inl e) \<Rightarrow> Some (Inl e)
              | Some (Inr b1) \<Rightarrow>
                  let (tsc, k2) = rdtsc (e_clocks env) (l_kern b1)
                  in case tsc2ns (e_double env) tsc (l_tscns b1) of
                       None \<Rightarrow> None
                     | Some now \<Rightarrow>
                         let delay = now - started;
                             k3 = (if delay < pollInterval then sleep_for (pollInterval - delay) k2 else k2)
                         in polling_thread env sleep_for pollInterval n (b1\<lparr>l_kern := k3\<rparr>)))"

text \<open>
  Starting and stopping it. \<open>thr\<close> is the thread to be joined, by its interval; \<open>n\<close> is how many more rounds it
  makes until it sees that \<open>threadRunning\<close> is false. Assigning to a thread that is still joinable would end
  the program (\<open>std::terminate\<close>).
\<close>

record poll_control =
  threadRunning :: bool
  thr :: "int option"

definition poll_control_new :: poll_control where
  "poll_control_new = \<lparr>threadRunning = False, thr = None\<rparr>"

definition stopPollingThread ::
  "('k, 'f) log_env \<Rightarrow> (int \<Rightarrow> 'k \<Rightarrow> 'k) \<Rightarrow> nat \<Rightarrow> poll_control \<Rightarrow> ('k, 'f) log_backend \<Rightarrow>
   (poll_control \<times> ('k, 'f) log_backend) res option" where
  "stopPollingThread env sleep_for n p b =
     (if \<not> threadRunning p then Some (Inr (p, b))
      else let p1 = p\<lparr>threadRunning := False\<rparr>
      in case thr p1 of
           None \<Rightarrow> Some (Inr (p1, b))
         | Some interval \<Rightarrow>
             (case polling_thread env sleep_for interval n b of
                None \<Rightarrow> None
              | Some (Inl e) \<Rightarrow> Some (Inl e)
              | Some (Inr b1) \<Rightarrow> Some (Inr (p1\<lparr>thr := None\<rparr>, b1))))"

definition startPollingThread ::
  "('k, 'f) log_env \<Rightarrow> (int \<Rightarrow> 'k \<Rightarrow> 'k) \<Rightarrow> nat \<Rightarrow> int \<Rightarrow> poll_control \<Rightarrow> ('k, 'f) log_backend \<Rightarrow>
   (poll_control \<times> ('k, 'f) log_backend) res option" where
  "startPollingThread env sleep_for n pollInterval p b =
     (case stopPollingThread env sleep_for n p b of
        None \<Rightarrow> None
      | Some (Inl e) \<Rightarrow> Some (Inl e)
      | Some (Inr (p1, b1)) \<Rightarrow>
          let p2 = p1\<lparr>threadRunning := True\<rparr>
          in Some (if thr p2 \<noteq> None then Inl (Fault Uncaught)
                   else Inr (p2\<lparr>thr := Some pollInterval\<rparr>, b1)))"

text \<open>The whole destructor.\<close>

definition fmtlogDetail_destroy ::
  "('k, 'f) log_env \<Rightarrow> (int \<Rightarrow> 'k \<Rightarrow> 'k) \<Rightarrow> nat \<Rightarrow> poll_control \<Rightarrow> ('k, 'f) log_backend \<Rightarrow>
   ('k, 'f) log_backend res option" where
  "fmtlogDetail_destroy env sleep_for n p b =
     (case stopPollingThread env sleep_for n p b of
        None \<Rightarrow> None
      | Some (Inl e) \<Rightarrow> Some (Inl e)
      | Some (Inr (p1, b1)) \<Rightarrow> log_backend_destroy env b1)"

text \<open>A thread is there to be joined exactly while it runs.\<close>

definition poll_control_ok :: "poll_control \<Rightarrow> bool" where
  "poll_control_ok p \<longleftrightarrow> (threadRunning p \<longleftrightarrow> thr p \<noteq> None)"

lemma poll_control_new_ok: "poll_control_ok poll_control_new"
  by (simp add: poll_control_ok_def poll_control_new_def)

lemma stopPollingThread_ok:
  assumes "stopPollingThread env sleep_for n p b = Some (Inr (p1, b1))" "poll_control_ok p"
  shows "p1 = poll_control_new"
  using assms by (cases p) (auto simp: stopPollingThread_def poll_control_ok_def poll_control_new_def
      split: if_splits option.splits sum.splits)

lemma startPollingThread_ok:
  assumes "stopPollingThread env sleep_for n p b = Some (Inr (p1, b1))" "poll_control_ok p"
  shows "\<exists>p2. startPollingThread env sleep_for n pollInterval p b = Some (Inr (p2, b1)) \<and> poll_control_ok p2 \<and>
    threadRunning p2 \<and> thr p2 = Some pollInterval"
  using assms stopPollingThread_ok [OF assms]
  by (simp add: startPollingThread_def poll_control_new_def poll_control_ok_def)

section \<open>A statement extends its thread's queue\<close>

lemma alloc_read_idx: "alloc sz q = Inr (r, q') \<Longrightarrow> read_idx q' = read_idx q"
  by (fastforce simp: alloc_def Let_def bind_res_eq_Inr producer_read_idx(3) split: if_splits
      dest: producer_read_idx(1,2,4))

lemma log_put_read_idx: "log_put x q = Inr (ok, q') \<Longrightarrow> read_idx q' = read_idx q"
  using alloc_read_idx [of "msg_size x" q]
  by (fastforce simp: log_put_def bind_res_eq_Inr fill_def push_def store_size_def split: if_splits option.splits)

lemma queues_ok_register:
  assumes "queues_ok ph env infos bufs ns xs"
  shows "queues_ok ph env (infos @ js) bufs ns xs"
proof -
  have "msg_readable env (infos @ js) x" if "msg_readable env infos x" for x
    using that by (auto simp: msg_readable_def nth_append)
  then show ?thesis
    using assms by (auto simp: queues_ok_def)
qed

lemma queues_ok_new_buffer:
  assumes "queues_ok ph env infos bufs ns xs" "t \<notin> node_tb ` set ns" "xs t = []"
    and "tb_varq T = varq_new" "ph t = P_idle" "nameSize T \<le> length (tb_name T)"
  shows "queues_ok ph env infos (bufs(t \<mapsto> T)) (ns @ [\<lparr>node_tb = t, node_header = None\<rparr>]) xs"
proof -
  have "node_ok ph (bufs(t \<mapsto> T)) nd (xs (node_tb nd))" if "nd \<in> set ns" for nd
  proof -
    have "node_tb nd \<noteq> t" using assms(2) that by auto
    then show ?thesis
      using assms(1) that by (simp add: queues_ok_def node_ok_other)
  qed
  moreover have "node_ok ph (bufs(t \<mapsto> T)) \<lparr>node_tb = t, node_header = None\<rparr> []"
    using assms(4-6) ring_inv_new by (simp add: node_ok_def)
  ultimately show ?thesis
    using assms(1-3) by (simp add: queues_ok_def)
qed

lemma queues_ok_store:
  assumes ok: "queues_ok ph env infos bufs ns xs" and t: "t \<in> node_tb ` set ns" "ph t = P_idle"
    and x: "msg_fits x" "msg_readable env infos x" "\<forall>y \<in> set (xs t). tsc_of y \<le> tsc_of x"
  shows "\<exists>T stored q. bufs t = Some T \<and> log_put x (tb_varq T) = Inr (stored, q) \<and>
    queues_ok ph env infos (bufs(t \<mapsto> T\<lparr>tb_varq := q\<rparr>)) ns (if stored then xs(t := xs t @ [x]) else xs)"
proof -
  obtain nd where nd: "nd \<in> set ns" "node_tb nd = t" using t(1) by blast
  obtain T where T: "bufs t = Some T" "nameSize T \<le> length (tb_name T)"
    "ring_inv (tb_varq T) P_idle (node_header nd \<noteq> None) (xs t)"
    "\<forall>h. node_header nd = Some h \<longrightarrow> h = read_idx (tb_varq T)"
    using ok nd t(2) by (auto simp: queues_ok_def node_ok_def)
  obtain stored q where q: "log_put x (tb_varq T) = Inr (stored, q)"
    "ring_inv q P_idle (node_header nd \<noteq> None) (if stored then xs t @ [x] else xs t)"
    using log_put_view [OF T(3) x(1)] by blast
  let ?T = "T\<lparr>tb_varq := q\<rparr>" and ?xs = "if stored then xs(t := xs t @ [x]) else xs"
  have "node_ok ph (bufs(t \<mapsto> ?T)) nd (?xs t)"
    using nd(2) t(2) T q log_put_read_idx [OF q(1)] by (cases stored) (simp_all add: node_ok_def)
  moreover have "nd' = nd" if "nd' \<in> set ns" "node_tb nd' = t" for nd'
    using ok nd that by (auto simp: queues_ok_def distinct_map inj_on_def)
  ultimately have "node_ok ph (bufs(t \<mapsto> ?T)) nd' (?xs (node_tb nd'))" if "nd' \<in> set ns" for nd'
    using ok that nd(2) node_ok_other [of nd' t] by (cases "node_tb nd' = t") (auto simp: queues_ok_def)
  moreover have "sorted (map tsc_of (?xs (node_tb nd')))" "\<forall>y \<in> set (?xs (node_tb nd')). msg_readable env infos y"
    if "nd' \<in> set ns" for nd'
    using ok that x by (auto simp: queues_ok_def sorted_append)
  ultimately have "queues_ok ph env infos (bufs(t \<mapsto> ?T)) ns ?xs"
    using ok by (simp add: queues_ok_def)
  then show ?thesis
    using T(1) q(1) by blast
qed

section \<open>From the statement to the line in the file\<close>

text \<open>
  The calling thread's buffer: its own, or the one it is going to get. The thread is not in the middle of
  another statement; what the other threads do is \<open>ph\<close>.
\<close>

definition caller_buffer ::
  "(nat \<Rightarrow> producer) \<Rightarrow> ('k, 'f) log_backend \<Rightarrow> nat option \<Rightarrow> (nat \<Rightarrow> log_msg_bytes list) \<Rightarrow> nat \<Rightarrow> bool" where
  "caller_buffer ph b own xs t \<longleftrightarrow> ph t = P_idle \<and>
     (case own of
        Some t' \<Rightarrow> t = t' \<and> t \<in> polled b
      | None \<Rightarrow> t = l_next_buffer b \<and> t \<notin> polled b \<and> xs t = [])"

text \<open>What logging leaves alone of the polling side.\<close>

definition same_backend :: "('k, 'f) log_backend \<Rightarrow> ('k, 'f) log_backend \<Rightarrow> bool" where
  "same_backend b b' \<longleftrightarrow> l_tscns b' = l_tscns b \<and> l_outputFp b' = l_outputFp b \<and> l_membuf b' = l_membuf b \<and>
     l_bgLogInfos (poll_collect b') = l_bgLogInfos (poll_collect b)"

lemma collected_nodes:
  "l_bgThreadBuffers (poll_collect b) = l_bgThreadBuffers b @ map (\<lambda>t. \<lparr>node_tb = t, node_header = None\<rparr>) (l_threadBuffers b)"
  "l_bgLogInfos (poll_collect b) = l_bgLogInfos b @ map processLocation (l_logInfos b)"
  by (simp_all add: poll_collect_def Let_def)

lemma preallocate_ok:
  assumes ok: "backend_ok ph env b xs" and caller: "caller_buffer ph b own xs t" and tid: "length (dec_of_nat tid) \<le> 32"
  shows "\<exists>b'. preallocate tid own b = (t, b') \<and> backend_ok ph env b' xs \<and> same_backend b b' \<and> t \<in> polled b' \<and>
    l_kern b' = l_kern b"
proof (cases own)
  case (Some t')
  then show ?thesis
    using ok caller by (auto simp: preallocate_def caller_buffer_def same_backend_def)
next
  case None
  let ?T = "\<lparr>tb_varq = varq_new, shouldDeallocate = False, tb_name = take 32 (dec_of_nat tid),
    nameSize = length (dec_of_nat tid)\<rparr>"
  let ?b = "b\<lparr>l_next_buffer := Suc t, l_buffers := (l_buffers b)(t \<mapsto> ?T), l_threadBuffers := l_threadBuffers b @ [t]\<rparr>"
  have t: "t = l_next_buffer b" "t \<notin> node_tb ` set (l_bgThreadBuffers (poll_collect b))" "xs t = []" "ph t = P_idle"
    using caller None by (auto simp: caller_buffer_def)
  have "queues_ok ph env (l_bgLogInfos (poll_collect b)) ((l_buffers b)(t \<mapsto> ?T))
      (l_bgThreadBuffers (poll_collect b) @ [\<lparr>node_tb = t, node_header = None\<rparr>]) xs"
    using ok tid by (intro queues_ok_new_buffer t) (simp_all add: backend_ok_def)
  then have "backend_ok ph env ?b xs"
    using ok by (simp add: backend_ok_def collected_nodes)
  moreover have "preallocate tid own b = (t, ?b)"
    using None t(1) by (simp add: preallocate_def Let_def)
  ultimately show ?thesis
    by (simp add: same_backend_def collected_nodes polled_def)
qed

lemma store_in_ok:
  assumes ok: "backend_ok ph env b xs" and caller: "caller_buffer ph b own xs t" and tid: "length (dec_of_nat tid) \<le> 32"
    and x: "msg_fits x" "msg_readable env (l_bgLogInfos (poll_collect b)) x" "\<forall>y \<in> set (xs t). tsc_of y \<le> tsc_of x"
    and store: "\<And>q. store q = log_put x q"
  shows "\<exists>stored b'. store_in tid own full store b = Inr (stored, t, b') \<and>
    backend_ok ph env b' (if stored then xs(t := xs t @ [x]) else xs) \<and> same_backend b b' \<and> t \<in> polled b' \<and>
    (stored \<longrightarrow> l_kern b' = l_kern b)"
proof -
  obtain b1 where b1: "preallocate tid own b = (t, b1)" "backend_ok ph env b1 xs" "same_backend b b1" "t \<in> polled b1"
    "l_kern b1 = l_kern b"
    using preallocate_ok [OF ok caller tid] by blast
  have "t \<in> node_tb ` set (l_bgThreadBuffers (poll_collect b1))"
    using b1(4) by simp
  then obtain T stored q where T: "l_buffers b1 t = Some T" "log_put x (tb_varq T) = Inr (stored, q)"
    "queues_ok ph env (l_bgLogInfos (poll_collect b1)) ((l_buffers b1)(t \<mapsto> T\<lparr>tb_varq := q\<rparr>))
       (l_bgThreadBuffers (poll_collect b1)) (if stored then xs(t := xs t @ [x]) else xs)"
    using queues_ok_store [of ph env "l_bgLogInfos (poll_collect b1)" "l_buffers b1" "l_bgThreadBuffers (poll_collect b1)" xs t x]
      b1(2,3) x caller by (auto simp: backend_ok_def same_backend_def caller_buffer_def)
  let ?b2 = "b1\<lparr>l_buffers := (l_buffers b1)(t \<mapsto> T\<lparr>tb_varq := q\<rparr>)\<rparr>"
  let ?b = "if stored then ?b2 else ?b2\<lparr>l_kern := full (l_kern ?b2)\<rparr>"
  have "store_in tid own full store b = Inr (stored, t, ?b)"
    using b1(1) T(1,2) store by (simp add: store_in_def Let_def)
  moreover have "backend_ok ph env ?b (if stored then xs(t := xs t @ [x]) else xs)"
    using T(3) b1(2) by (cases stored) (simp_all add: backend_ok_def collected_nodes)
  moreover have "same_backend b ?b" "t \<in> polled ?b"
    using b1(3,4) by (cases stored; simp add: same_backend_def collected_nodes polled_def)+
  moreover have "stored \<longrightarrow> l_kern ?b = l_kern b"
    using b1(5) by simp
  ultimately show ?thesis by blast
qed

lemma register_stmt_ok:
  assumes ok: "backend_ok ph env b xs" and caller: "caller_buffer ph b own xs t"
    and fmt: "unNameFormat (e_name_start env) False format [] (map arg_name args) = Inr (unnamed, [])"
    and small: "length (l_bgLogInfos (poll_collect b)) < 2 ^ 32"
  shows "\<exists>id b' info. register_stmt env 0 loc level format args b = Inr (id, b') \<and>
    backend_ok ph env b' xs \<and> caller_buffer ph b' own xs t \<and> l_kern b' = l_kern b \<and> l_tscns b' = l_tscns b \<and>
    l_outputFp b' = l_outputFp b \<and> l_membuf b' = l_membuf b \<and>
    unat id < length (l_bgLogInfos (poll_collect b')) \<and> l_bgLogInfos (poll_collect b') ! unat id = info \<and>
    formatToFn info = Some (map type_of args) \<and> formatString info = unnamed"
proof -
  let ?info = "\<lparr>location = loc, basePos = 0, endPos = 0, formatToFn = Some (map type_of args),
    formatString = unnamed, logLevel = level\<rparr>"
  define n where "n = length (l_logInfos b) + length (l_bgLogInfos b)"
  let ?b = "b\<lparr>l_logInfos := l_logInfos b @ [?info]\<rparr>"
  have infos: "l_bgLogInfos (poll_collect ?b) = l_bgLogInfos (poll_collect b) @ [processLocation ?info]"
    by (simp add: collected_nodes)
  have "length (l_bgLogInfos (poll_collect b)) = n"
    by (simp add: collected_nodes n_def)
  then have n: "unat (of_nat n :: u32) = length (l_bgLogInfos (poll_collect b))"
    using small by (simp add: unat_of_nat take_bit_nat_eq_self)
  then have "unat (of_nat n :: u32) < length (l_bgLogInfos (poll_collect ?b))"
    "l_bgLogInfos (poll_collect ?b) ! unat (of_nat n :: u32) = processLocation ?info"
    by (simp_all add: infos)
  moreover have "formatToFn (processLocation ?info) = Some (map type_of args)"
    "formatString (processLocation ?info) = unnamed"
    by (simp_all add: processLocation_def Let_def)
  moreover have "register_stmt env 0 loc level format args b = Inr (of_nat n, ?b)"
    using fmt by (simp add: register_stmt_def registerLogInfo_def n_def)
  moreover have "backend_ok ph env ?b xs"
    using ok queues_ok_register [of ph env "l_bgLogInfos (poll_collect b)" "l_buffers b" "l_bgThreadBuffers (poll_collect b)" xs]
    by (simp add: backend_ok_def infos) (simp add: collected_nodes)
  moreover have "caller_buffer ph ?b own xs t"
    using caller by (auto simp: caller_buffer_def polled_def split: option.splits)
  ultimately show ?thesis
    by (intro exI [of _ "of_nat n"] exI [of _ ?b] exI [of _ "processLocation ?info"] conjI) simp_all
qed

lemma log_bytes_simps [simp]: "fst (log_bytes tsc logId args) = logId" "tsc_of (log_bytes tsc logId args) = sint tsc"
  by (simp_all add: log_bytes_def tsc_of_def)

text \<open>A registered statement: its message can be read and extends the caller's queue.\<close>

lemma stmt_message:
  assumes info: "unat logId < length infos" "formatToFn (infos ! unat logId) = Some (map type_of args)"
    and args: "\<forall>a \<in> set args. arg_ok a" "sum_list (map arg_size args) + 23 < 2 ^ 32"
  shows "msg_fits (log_bytes tsc logId args)" "msg_readable env infos (log_bytes tsc logId args)"
    "log_stmt tsc logId args q = log_put (log_bytes tsc logId args) q"
proof -
  have ends: "\<forall>a \<in> set args. arg_terminated a"
    using args(1) arg_ok_terminated by blast
  note len = log_stmt_put(2) [OF ends, of tsc logId]
  show "msg_readable env infos (log_bytes tsc logId args)"
    using info len read_args_log_bytes [OF args(1)] by (simp add: msg_readable_def msg_body_eq)
  show "msg_fits (log_bytes tsc logId args)"
    using len args(2) by (simp add: msg_fits_def)
  show "log_stmt tsc logId args q = log_put (log_bytes tsc logId args) q"
    by (rule log_stmt_put(1) [OF ends])
qed

lemma stmt_stored:
  assumes ok: "backend_ok ph env b xs" and caller: "caller_buffer ph b own xs t" and tid: "length (dec_of_nat tid) \<le> 32"
    and info: "unat logId < length (l_bgLogInfos (poll_collect b))"
      "formatToFn (l_bgLogInfos (poll_collect b) ! unat logId) = Some (map type_of args)"
    and args: "\<forall>a \<in> set args. arg_ok a" "sum_list (map arg_size args) + 23 < 2 ^ 32"
    and order: "\<forall>y \<in> set (xs t). tsc_of y \<le> sint tsc"
  shows "\<exists>stored b'. store_in tid own full (log_stmt tsc logId args) b = Inr (stored, t, b') \<and>
    backend_ok ph env b' (if stored then xs(t := xs t @ [log_bytes tsc logId args]) else xs) \<and> same_backend b b' \<and>
    t \<in> polled b' \<and> (stored \<longrightarrow> l_kern b' = l_kern b)"
  using order by (intro store_in_ok [OF ok caller tid stmt_message(1,2) [OF info args] _ stmt_message(3) [OF info args]]) simp

text \<open>A statement that logs once: its message holds the text, and its log id is that of its level.\<close>

definition once_bytes :: "u64 \<Rightarrow> u64 \<Rightarrow> log_level \<Rightarrow> string \<Rightarrow> log_msg_bytes" where
  "once_bytes tsc loc_addr level txt =
     (of_nat (level_num level), le_bytes 8 (unat tsc) @ le_bytes 8 (unat loc_addr) @ bytes_of txt)"

text \<open>The first entries of the statements stand for the levels.\<close>

definition levels_known :: "static_info list \<Rightarrow> bool" where
  "levels_known infos \<longleftrightarrow> 4 \<le> length infos \<and> (\<forall>i < 4. formatToFn (infos ! i) = None)"

lemma levels_known_append: "levels_known infos \<Longrightarrow> levels_known (infos @ js)"
  by (simp add: levels_known_def nth_append)

lemma levels_known_sig:
  assumes "map info_sig is = map info_sig js" "levels_known js"
  shows "levels_known is"
proof -
  have "length is = length js" using assms(1) map_eq_imp_length_eq by blast
  then show ?thesis
    using assms info_sig_nth [OF assms(1)] by (simp add: levels_known_def info_sig_def)
qed

lemma levels_known_new: "levels_known (map level_info [L_DBG, L_INF, L_WRN, L_ERR])"
  by (simp add: levels_known_def level_info_def eval_nat_numeral All_less_Suc)

lemma char_of_byte: "char_of (unat (of_nat (of_char c) :: byte)) = c"
proof -
  have "(of_char c :: nat) < 2 ^ 8"
    using nat_of_char_less_256 [of c] by simp
  then show ?thesis
    by (simp add: unat_of_nat take_bit_nat_eq_self)
qed

lemma chars_of_bytes_of [simp]: "chars_of (bytes_of s) = s"
  by (simp add: chars_of_def bytes_of_def comp_def char_of_byte)

lemma level_num_less: "level \<noteq> L_OFF \<Longrightarrow> unat (of_nat (level_num level) :: u32) < 4"
  by (cases level) (simp_all add: level_num_def)

lemma once_message:
  assumes known: "levels_known infos" "level \<noteq> L_OFF" and len: "length txt + 31 < 2 ^ 32"
  shows "msg_fits (once_bytes tsc loc_addr level txt)" "msg_readable env infos (once_bytes tsc loc_addr level txt)"
    "msg_body env (infos ! unat (fst (once_bytes tsc loc_addr level txt))) (snd (once_bytes tsc loc_addr level txt)) = Inr txt"
    "tsc_of (once_bytes tsc loc_addr level txt) = sint tsc"
    "logOnce tsc loc_addr (of_nat (level_num level)) (bytes_of txt) q = log_put (once_bytes tsc loc_addr level txt) q"
proof -
  have n: "length (bytes_of txt) = length txt" by (simp add: bytes_of_def)
  have "formatToFn (infos ! unat (of_nat (level_num level) :: u32)) = None"
    using known level_num_less [OF known(2)] by (simp add: levels_known_def)
  then show body: "msg_body env (infos ! unat (fst (once_bytes tsc loc_addr level txt)))
      (snd (once_bytes tsc loc_addr level txt)) = Inr txt"
    by (simp add: once_bytes_def msg_body_eq read_once_bytes)
  show "msg_fits (once_bytes tsc loc_addr level txt)"
    using len n by (simp add: msg_fits_def once_bytes_def)
  show "msg_readable env infos (once_bytes tsc loc_addr level txt)"
    using body known(1) level_num_less [OF known(2)] by (simp add: msg_readable_def levels_known_def once_bytes_def)
  show "tsc_of (once_bytes tsc loc_addr level txt) = sint tsc"
    by (simp add: tsc_of_def once_bytes_def)
  show "logOnce tsc loc_addr (of_nat (level_num level)) (bytes_of txt) q = log_put (once_bytes tsc loc_addr level txt) q"
    unfolding logOnce_def Let_def once_bytes_def by (rule store_log_put) (simp add: msg_size_def)
qed

text \<open>A thread that logs for the first time has an empty queue, which accepts any but the largest messages.\<close>

lemma stmt_stored_new:
  assumes "store_in tid None full (log_stmt tsc logId args) b = Inr (stored, t, b')"
    and "\<forall>a \<in> set args. arg_ok a" "sum_list (map arg_size args) + 23 < 2 ^ 19"
  shows stored
proof -
  let ?m = "log_bytes tsc logId args"
  have ends: "\<forall>a \<in> set args. arg_terminated a"
    using assms(2) arg_ok_terminated by blast
  have "msg_fits ?m" "2 * nblk ?m < BLK_CNT"
    using log_stmt_put(2) [OF ends, of tsc logId] assms(3) by (simp_all add: msg_fits_def nblk_def BLK_CNT_def)
  then obtain q where "log_stmt tsc logId args varq_new = Inr (True, q)"
    using log_put_empty [OF ring_inv_new, of ?m] log_stmt_put(1) [OF ends, of tsc logId]
    by (auto simp: varq_new_def)
  then show ?thesis
    using assms(1) by (auto simp: store_in_def preallocate_def Let_def)
qed

lemma stmt_body:
  assumes "formatToFn info = Some (map type_of args)" "\<forall>a \<in> set args. arg_ok a"
  shows "msg_body env info (snd (log_bytes tsc logId args)) = Inr (fmt_body env (formatString info) (map arg_val args))"
  using assms read_args_log_bytes by (simp add: msg_body_eq)

text \<open>The line of a message the poll has handled.\<close>

lemma handled_line:
  assumes "list_all2 (\<lambda>p line. line_of env infos (snd p) line) hs lines" "x \<in> set (handled_of t hs)"
    and "msg_body env (infos ! unat (fst x)) (snd x) = Inr body"
  shows "\<exists>ls header rs. concat lines = ls @ (header @ body @ [CHR 0x0A]) @ rs"
proof -
  have "(t, x) \<in> set hs"
    using assms(2) by (auto simp: handled_of_def)
  then obtain as bs where hs: "hs = as @ (t, x) # bs"
    by (meson split_list)
  then obtain ls l rs where l: "lines = ls @ l # rs" "line_of env infos x l"
    using assms(1) by (auto simp: list_all2_append1 list_all2_Cons1)
  then obtain header where "l = header @ body @ [CHR 0x0A]"
    using assms(3) by (auto simp: line_of_def)
  then show ?thesis
    using l(1) by (intro exI [of _ "concat ls"] exI [of _ header] exI [of _ "concat rs"]) simp
qed

end
