(* ===== verification/Log_Props.thy ===== *)
theory Log_Props
  imports Log_Front
begin

text \<open>
  The properties of the logger, from the queue between the threads to the lines of the log file, each
  with an instance that shows its hypotheses can hold.
\<close>

section \<open>The queue between the threads\<close>

text \<open>A run: four steps of the producer push a message, and the consumer looks at it.\<close>

definition demo_msg :: log_msg_bytes where "demo_msg = (7, [1, 2, 3])"

definition demo_log_run :: "log_sys res" where
  "demo_log_run =
     bind_res (iterate_res (producer_step demo_msg) 4 log_sys_init) (iterate_res consumer_step 1)"

lemma demo_msg_fits [simp]: "msg_fits demo_msg" "nblk demo_msg = 2" "length (snd demo_msg) = 3"
  by (simp_all add: demo_msg_def msg_fits_def nblk_def)

lemma log_reach_produce: "log_reach s \<Longrightarrow> msg_fits x \<Longrightarrow> producer_step x s = Inr s' \<Longrightarrow> log_reach s'"
  by (blast intro: log_reach.Step log_step.Produce)

lemma log_reach_consume: "log_reach s \<Longrightarrow> consumer_step s = Inr s' \<Longrightarrow> log_reach s'"
  by (blast intro: log_reach.Step log_step.Consume)

lemma log_reach_produce_n:
  "log_reach s \<Longrightarrow> msg_fits x \<Longrightarrow> iterate_res (producer_step x) n s = Inr s' \<Longrightarrow> log_reach s'"
proof (induction n arbitrary: s)
  case 0
  then show ?case by simp
next
  case (Suc n)
  then show ?case
    using log_reach_produce [OF Suc.prems(1,2)] by (auto simp: bind_res_eq_Inr simp del: producer_step.simps)
qed

lemma need_demo: "need_blocks demo_msg = 2"
  using unat_blk_sz_msg [OF demo_msg_fits(1)] by (simp add: word_unat_eq_iff)

lemma producer_run:
  assumes "phase s = P_idle" "\<not> free_write_cnt (ring s) \<le> need_blocks x"
    and "reserve (need_blocks x) (ring s) = Inr (i, q1)" "fill i x q1 = Inr q2" "push i (msg_size x) q2 = Inr q3"
  shows "iterate_res (producer_step x) 4 s = Inr (s\<lparr>ring := q3, phase := P_idle, pushed := pushed s @ [x]\<rparr>)"
proof -
  have "iterate_res (producer_step x) (Suc (Suc (Suc (Suc 0)))) s =
      Inr (s\<lparr>ring := q3, phase := P_idle, pushed := pushed s @ [x]\<rparr>)"
    using assms by simp
  then show ?thesis by (simp add: eval_nat_numeral)
qed

lemma demo_pushed:
  "\<exists>s. iterate_res (producer_step demo_msg) 4 log_sys_init = Inr s \<and> log_reach s \<and> pushed s = [demo_msg] \<and>
     popped s = [] \<and> cphase s = C_idle \<and> phase s = P_idle \<and> read_idx (ring s) = 0"
proof -
  have room: "\<not> free_write_cnt varq_new \<le> need_blocks demo_msg"
    by (simp add: need_demo varq_new_def BLK_CNT_def)
  obtain i q1 where q1: "reserve (need_blocks demo_msg) varq_new = Inr (i, q1)"
    "ring_inv q1 (P_reserved i demo_msg) False []"
    using ring_inv_reserve [OF ring_inv_start(2) [OF ring_inv_new demo_msg_fits(1)] room] by auto
  obtain q2 where q2: "fill i demo_msg q1 = Inr q2" "ring_inv q2 (P_filled i demo_msg) False []"
    using ring_inv_fill [OF q1(2)] by auto
  obtain q3 where q3: "push i (msg_size demo_msg) q2 = Inr q3"
    using ring_inv_push [OF q2(2)] by auto
  have "\<exists>s. iterate_res (producer_step demo_msg) 4 log_sys_init = Inr s \<and> pushed s = [demo_msg] \<and>
     popped s = [] \<and> cphase s = C_idle \<and> phase s = P_idle \<and> read_idx (ring s) = 0"
    using producer_run [of log_sys_init demo_msg i q1 q2 q3] room q1(1) q2(1) q3
      producer_read_idx(4) [OF q1(1)] producer_read_idx(5) [OF q2(1)] producer_read_idx(6) [OF q3]
    by (simp add: log_sys_init_def varq_new_def)
  then show ?thesis
    using log_reach_produce_n [OF log_reach.Start demo_msg_fits(1)] by blast
qed

text \<open>
  C5: However the logging thread and the polling thread interleave at the single stores and loads of the
  sizes and indices of the queue, the wrap-around of \<open>front\<close> included (load a size, store \<open>read_idx\<close>, load
  the first size), no step of either reads or writes outside of the array; what was popped is what was
  pushed, in order and unchanged, up to the messages still unread; the message whose header \<open>front\<close> has
  returned is the oldest unread one, and so is the one that was read there, until \<open>pop\<close> has stored
  \<open>read_idx\<close>, whatever the logging thread does meanwhile. The bytes of a message are written in one step and
  read in one step.
\<close>

theorem log_queue_in_order:
  assumes "log_reach s"
  shows "(\<exists>rest. pushed s = popped s @ rest \<and>
      (\<forall>h. cphase s = C_held h \<longrightarrow> rest \<noteq> [] \<and> read_msg h (ring s) = hd rest) \<and>
      (\<forall>x sz. cphase s \<in> {C_handled x, C_popping sz x} \<longrightarrow> rest \<noteq> [] \<and> x = hd rest)) \<and>
    (\<forall>x. msg_fits x \<longrightarrow> (\<exists>s'. producer_step x s = Inr s')) \<and> (\<exists>s'. consumer_step s = Inr s')"
  using log_reach_order [OF assms] producer_step_ok [OF log_reach_inv [OF assms]]
    consumer_step_ok [OF log_reach_inv [OF assms]]
  by blast

theorem log_queue_in_order_witness:
  "\<exists>s h. demo_log_run = Inr s \<and> cphase s = C_held h \<and> pushed s = [demo_msg] \<and> popped s = [] \<and>
     read_msg h (ring s) = demo_msg"
proof -
  obtain s where s: "iterate_res (producer_step demo_msg) 4 log_sys_init = Inr s" "log_reach s"
    "pushed s = [demo_msg]" "popped s = []" "cphase s = C_idle" "phase s = P_idle" "read_idx (ring s) = 0"
    using demo_pushed by blast
  have inv: "ring_inv (ring s) P_idle False [demo_msg]"
    using log_reach_inv [OF s(2)] s(3-6) by (auto simp: sys_inv_def sys_inv_at_def)
  have no: "size_at (q_blk (ring s)) 0 \<noteq> 1" "size_at (q_blk (ring s)) 0 \<noteq> 0"
    using inv layout_no_mark [of "q_blk (ring s)" 0] layout_at_end [of "q_blk (ring s)" 0] s(7)
    by (auto simp: ring_inv_def)
  let ?s' = "s\<lparr>cphase := C_held 0\<rparr>"
  have s': "consumer_step s = Inr ?s'"
    using s(5,7) no by (simp add: consumer_step_def load_size_def BLK_CNT_def)
  have "read_msg 0 (ring ?s') = demo_msg"
    using log_queue_in_order [OF log_reach_consume [OF s(2) s']] s(3,4) by auto
  then show ?thesis
    using s(1,3,4) s' by (intro exI [of _ ?s']) (simp add: demo_log_run_def)
qed

text \<open>
  C24: The polling thread gets every message: from any reachable state, wherever the two threads stand, four
  of its steps for each unread message and two for a wrap-around, or any larger number of its steps, leave
  nothing unread: what it has popped then is all that was pushed.
\<close>

theorem log_queue_drains:
  assumes "log_reach s" "4 * (length (pushed s) - length (popped s)) + 2 \<le> n"
  shows "\<exists>s'. iterate_res consumer_step n s = Inr s' \<and> popped s' = pushed s"
proof -
  obtain xs where xs: "sys_inv_at s xs" "pushed s = popped s @ xs"
    using log_reach_inv [OF assms(1)] by (auto simp: sys_inv_def sys_inv_at_def)
  then have "work s xs \<le> n"
    using assms(2) work_le [of s xs] by simp
  then show ?thesis
    using consumer_drains [OF xs(1), of n] by (auto simp: sys_inv_at_def)
qed

theorem log_queue_drains_witness:
  "\<exists>s s'. iterate_res (producer_step demo_msg) 4 log_sys_init = Inr s \<and>
     iterate_res consumer_step 6 s = Inr s' \<and> popped s' = [demo_msg]"
proof -
  obtain s where s: "iterate_res (producer_step demo_msg) 4 log_sys_init = Inr s" "log_reach s"
    "pushed s = [demo_msg]" "popped s = []"
    using demo_pushed by blast
  then show ?thesis
    using log_queue_drains [OF s(2), of 6] by simp
qed

lemma idle_unread:
  assumes "log_reach s" "phase s = P_idle" "cphase s = C_idle"
  shows "ring_inv (ring s) P_idle False (drop (length (popped s)) (pushed s))"
  using log_reach_inv [OF assms(1)] assms(2,3) by (auto simp: sys_inv_def sys_inv_at_def)

text \<open>
  C23: When the polling thread has found the queue empty, a message that takes less than half of its
  blocks is accepted, wherever in the array the next message starts, and is what the polling thread then
  sees first. The bound is sharp: a message of exactly half the blocks is accepted by the new queue and,
  after it was popped, never again while the indices stay where they are, although the queue is empty.
\<close>

theorem log_queue_accepts_when_empty:
  assumes "log_reach s" "phase s = P_idle" "cphase s = C_idle" "front (ring s) = Inr (None, q)"
    and "msg_fits x"
  shows "(2 * nblk x < BLK_CNT \<longrightarrow>
      (\<exists>q1 h q2. log_put x q = Inr (True, q1) \<and> front q1 = Inr (Some h, q2) \<and> read_msg h q2 = x)) \<and>
    (2 * nblk x = BLK_CNT \<longrightarrow>
      (\<exists>q1 h q2 q3 q4. log_put x varq_new = Inr (True, q1) \<and> front q1 = Inr (Some h, q2) \<and>
         pop q2 = Inr q3 \<and> log_put x q3 = Inr (False, q4)))"
proof -
  have inv: "ring_inv q P_idle False []" "read_idx q = write_idx q"
    using front_ok [OF idle_unread [OF assms(1-3)]] assms(4) by (auto simp: word_unat_eq_iff)
  have "\<exists>q1 h q2. log_put x q = Inr (True, q1) \<and> front q1 = Inr (Some h, q2) \<and> read_msg h q2 = x"
    if small: "2 * nblk x < BLK_CNT"
  proof -
    obtain q1 where "log_put x q = Inr (True, q1)" "ring_inv q1 P_idle False [x]"
      using log_put_empty [OF inv(1) assms(5) inv(2) small] by auto
    then show ?thesis
      using front_ok [of q1 P_idle False "[x]"] by (auto split: option.splits)
  qed
  then show ?thesis
    using log_put_half [OF assms(5)] by blast
qed

lemma front_new: "front varq_new = Inr (None, varq_new)"
proof -
  have "size_at (q_blk varq_new) 0 = 0"
    by (simp add: varq_new_def size_at_def get32_def get_bytes_def map_replicate_const eval_nat_numeral)
  then show ?thesis
    by (simp add: front_def load_size_def varq_new_def BLK_CNT_def)
qed

theorem log_queue_accepts_when_empty_witness:
  "\<exists>q1 h q2. log_put demo_msg varq_new = Inr (True, q1) \<and> front q1 = Inr (Some h, q2) \<and>
     read_msg h q2 = demo_msg"
  using log_queue_accepts_when_empty [OF log_reach.Start, of varq_new demo_msg] front_new
  by (simp add: log_sys_init_def BLK_CNT_def)

section \<open>The arguments of a log statement\<close>

text \<open>
  C17: What a log statement stores is what the polling thread reads back, behind the messages that were
  waiting. In any reachable state in which neither thread is in the middle of something, the statement
  either finds no room and changes nothing the polling thread sees, or the polling thread gets, after the
  waiting messages, one with the statement's log id and time stamp and with arguments that decode to the
  values logged, the objects to be destroyed and the end of the message; and formatting it, with any format,
  uses those values and calls the destructor of each of those objects once.
\<close>

theorem logged_arguments_read_back:
  assumes "log_reach s" "phase s = P_idle" "cphase s = C_idle"
    and "\<forall>a \<in> set args. arg_ok a" "sum_list (map arg_size args) + 23 < 2 ^ 32"
  shows "\<exists>ok q1 waiting. log_stmt tsc logId args (ring s) = Inr (ok, q1) \<and> pushed s = popped s @ waiting \<and>
    (\<exists>q2 ms. lf.take_n (Suc (length waiting)) q1 = Inr (waiting @ ms, q2) \<and> (\<not> ok \<longrightarrow> ms = []) \<and>
      (ok \<longrightarrow> (\<exists>data. ms = [(logId, data)] \<and> msg_tsc data = tsc \<and>
         read_args (map type_of args) data =
           Inr (map arg_val args, dtor_offsets 8 args, length data) \<and>
         (\<forall>f. formatTo f (map type_of args) data = Inr (f (map arg_val args), dtor_offsets 8 args, length data)))))"
proof -
  let ?m = "log_bytes tsc logId args"
  let ?w = "drop (length (popped s)) (pushed s)"
  have inv: "ring_inv (ring s) P_idle False ?w"
    by (rule idle_unread) (use assms in auto)
  have w: "pushed s = popped s @ ?w"
    using log_reach_order [OF assms(1)] by auto
  have ends: "\<forall>a \<in> set args. arg_terminated a"
    using assms(4) arg_ok_terminated by blast
  obtain ok q1 where put: "log_stmt tsc logId args (ring s) = Inr (ok, q1)"
    "ring_inv q1 P_idle False (if ok then ?w @ [?m] else ?w)"
    using log_stmt_view [OF inv ends assms(5)] by blast
  obtain q2 where "lf.take_n (Suc (length ?w)) q1 = Inr (if ok then ?w @ [?m] else ?w, q2)"
    using lf.take_n_view [OF put(2), of "Suc (length ?w)"] by (auto split: if_splits)
  moreover have "fst ?m = logId" "msg_tsc (snd ?m) = tsc"
    by (simp_all add: log_bytes_def)
  moreover have "read_args (map type_of args) (snd ?m) =
      Inr (map arg_val args, dtor_offsets 8 args, length (snd ?m))"
    using read_args_log_bytes [OF assms(4)] log_stmt_put(2) [OF ends] by simp
  ultimately show ?thesis
    using put(1) w
    by (intro exI [of _ ok] exI [of _ q1] exI [of _ ?w] conjI exI [of _ q2] exI [of _ "if ok then [?m] else []"])
      (auto simp: prod_eq_iff formatTo_eq)
qed

definition demo_args :: "log_arg list" where
  "demo_args = [Arg_cstring [104, 105, 0, 9], Arg_named ''n'' (Arg_string [1, 2]), Arg_obj [5] False True]"

theorem logged_arguments_read_back_witness:
  "\<exists>ok q1 q2 ms. log_stmt 77 5 demo_args varq_new = Inr (ok, q1) \<and> lf.take_n 1 q1 = Inr (ms, q2) \<and>
     (\<not> ok \<longrightarrow> ms = []) \<and>
     (ok \<longrightarrow> (\<exists>data. ms = [(5, data)] \<and> msg_tsc data = 77 \<and>
       read_args [Ty_cstring, Ty_named ''n'' Ty_string, Ty_obj 1 False True] data =
         Inr ([Val_chars [104, 105], Val_chars [1, 2], Val_obj [5]], [14], length data) \<and>
       (\<forall>f. formatTo f [Ty_cstring, Ty_named ''n'' Ty_string, Ty_obj 1 False True] data =
         Inr (f [Val_chars [104, 105], Val_chars [1, 2], Val_obj [5]], [14], length data))))"
  using logged_arguments_read_back [OF log_reach.Start, of demo_args 77 5]
  by (simp add: log_sys_init_def demo_args_def del: lf.take_n.simps)

text \<open>
  C37: A string object that contains a NUL is cut there when it is read, and everything behind it is read
  from the wrong place: an object logged after it gets the rest of the string instead of its own bytes.
\<close>

theorem embedded_NUL_shifts_arguments:
  assumes "0 \<notin> set before_NUL" "length bs \<le> length after_NUL"
  shows "read_args [Ty_string, Ty_obj (length bs) False False]
      (snd (log_bytes tsc logId [Arg_string (before_NUL @ 0 # after_NUL), Arg_obj bs False False])) =
    Inr ([Val_chars before_NUL, Val_obj (take (length bs) after_NUL)], [],
         8 + length before_NUL + 1 + length bs)"
proof -
  have "drop 8 (snd (log_bytes tsc logId [Arg_string (before_NUL @ 0 # after_NUL), Arg_obj bs False False])) =
      before_NUL @ 0 # (after_NUL @ 0 # bs)"
    by (simp add: log_bytes_def)
  then show ?thesis
    using assms(2) by (simp only: read_args_def decode_chars(2) [OF assms(1)]) simp
qed

theorem embedded_NUL_shifts_arguments_witness:
  "read_args [Ty_string, Ty_obj 1 False False]
      (snd (log_bytes 1 5 [Arg_string [65, 0, 66, 67], Arg_obj [9] False False])) =
    Inr ([Val_chars [65], Val_obj [66]], [], 11)"
  using embedded_NUL_shifts_arguments [of "[65]" "[9]" "[66, 67]" 1 5] by simp

section \<open>The clock\<close>

text \<open>
  C22: The sequence lock works: while one thread calibrates the clock, store by store, another that turns
  a time stamp into nanoseconds ends with a base and a factor that belong together, namely those of one
  completed calibration (or the initial ones), never a mixture, as long as the 32-bit sequence number has
  not wrapped around.
\<close>

theorem clock_parameters_consistent:
  assumes "seq_reach p0 s" "stores s < 2 ^ 32" "reader s = R_done n t f"
  shows "(t, n, f) \<in> set (saved s)"
  using seq_reach_consistent [OF assms] .

definition demo_clock :: "int tscns" where
  "demo_clock = \<lparr>param_seq = 0, ns_per_tsc = 1, base_tsc = 0, base_ns = 0, calibate_interval_ns = 3000000000,
     base_ns_err = 0, next_calibrate_tsc = 1000000\<rparr>"

text \<open>A reader that was overtaken by a calibration starts again and gets the new parameters.\<close>

definition demo_clock_run :: "int seq_sys" where
  "demo_clock_run =
     (reader_step ^^ 5) (reader_step
       ((writer_step (90, 100, 2) ^^ 5)
         ((reader_step ^^ 4) \<lparr>params = demo_clock, writer = W_idle, reader = R_idle, stores = 0,
            saved = [(0, 0, 1)]\<rparr>)))"

lemma seq_reach_reads: "seq_reach p0 s \<Longrightarrow> seq_reach p0 ((reader_step ^^ n) s)"
  by (induction n) (auto intro: seq_reach.Read simp del: reader_step.simps)

lemma seq_reach_writes: "seq_reach p0 s \<Longrightarrow> seq_reach p0 ((writer_step new ^^ n) s)"
  by (induction n) (auto intro: seq_reach.Write simp del: writer_step.simps)

theorem clock_parameters_consistent_witness:
  "reader demo_clock_run = R_done 100 90 2 \<and> (90, 100, 2) \<in> set (saved demo_clock_run)"
proof -
  have "seq_reach demo_clock demo_clock_run"
    using seq_reach.Start [of demo_clock] unfolding demo_clock_run_def
    by (intro seq_reach_reads seq_reach.Read seq_reach_writes) (simp add: demo_clock_def)
  moreover have "reader demo_clock_run = R_done 100 90 2" "stores demo_clock_run = 2"
    by (simp_all add: demo_clock_run_def demo_clock_def eval_nat_numeral)
  ultimately show ?thesis
    using clock_parameters_consistent [of demo_clock demo_clock_run 100 90 2] by simp
qed

section \<open>The text of a log line\<close>

text \<open>
  C31: With a header pattern whose fields carry different names of the 25 there are, each field shows the
  value its name stands for: translating the pattern succeeds, the pattern loses its names and nothing
  else, and the j-th argument the formatting library gets is the value of the j-th field's name.
\<close>

theorem header_shows_named_fields:
  assumes "\<forall>f \<in> set fs. field_ok ns f \<and> fst f \<in> set header_names" "distinct (map fst fs)"
    and "length fs < parttenArgSize" "CHR ''{'' \<notin> set pre" "length args = parttenArgSize"
  shows "\<exists>ro args'. setHeaderPattern ns (pre @ render_fields fs) vals args =
      Inr (pre @ unnamed_fields fs, ro, args') \<and>
    (\<forall>j < length fs. \<exists>i < parttenArgSize. header_names ! i = fst (fs ! j) \<and> args' ! j = vals ! i)"
  using setHeaderPattern_fields [OF assms] .

definition demo_fields :: "(string \<times> string) list" where
  "demo_fields = [(''HMS'', ''} ''), (''s'', '':<16} ''), (''l'', ''} '')]"

definition demo_name_start :: "char \<Rightarrow> bool" where
  "demo_name_start c \<longleftrightarrow> (CHR ''A'' \<le> c \<and> c \<le> CHR ''Z'') \<or> (CHR ''a'' \<le> c \<and> c \<le> CHR ''z'') \<or> c = CHR ''_''"

theorem header_shows_named_fields_witness:
  "\<exists>ro args'. setHeaderPattern demo_name_start ''{HMS} {s:<16} {l} '' header_names (replicate 25 []) =
     Inr (''{} {:<16} {} '', ro, args') \<and> take 3 args' = [''HMS'', ''s'', ''l'']"
proof -
  have ok: "\<forall>f \<in> set demo_fields. field_ok demo_name_start f \<and> fst f \<in> set header_names"
    "distinct (map fst demo_fields)" "length demo_fields < parttenArgSize"
    by code_simp+
  have pat: "[] @ render_fields demo_fields = ''{HMS} {s:<16} {l} ''" "[] @ unnamed_fields demo_fields = ''{} {:<16} {} ''"
    by (simp_all add: demo_fields_def)
  obtain ro args' where r: "setHeaderPattern demo_name_start ''{HMS} {s:<16} {l} '' header_names (replicate 25 []) =
      Inr (''{} {:<16} {} '', ro, args')"
    "\<forall>j < length demo_fields. \<exists>i < parttenArgSize. header_names ! i = fst (demo_fields ! j) \<and> args' ! j = header_names ! i"
    using header_shows_named_fields [OF ok, of "[]" "replicate 25 []" header_names] unfolding pat
    by (auto simp: parttenArgSize_def)
  have "length demo_fields = 3"
    by (simp add: demo_fields_def)
  then have "args' ! j = fst (demo_fields ! j)" if "j < 3" for j
    using r(2) that by (metis (no_types))
  moreover have "3 \<le> length args'"
    using r(1) by (auto simp: setHeaderPattern_def bind_res_eq_Inr)
  ultimately have "take 3 args' = map (\<lambda>j. fst (demo_fields ! j)) [0..<3]"
    by (intro nth_equalityI) auto
  then show ?thesis
    using r(1) by (simp add: demo_fields_def numeral_3_eq_3)
qed

text \<open>
  C29: \<open>Str::fromi\<close>, with its table of digit pairs and its switch that falls through, writes exactly the
  lowest decimal digits of the number, highest first with leading zeros, into a field of any width the
  logger could use (up to 19 characters).
\<close>

theorem fromi_writes_low_digits:
  assumes "length s \<le> 19"
  shows "fromi num s = map (\<lambda>i. digit_char (num div 10 ^ (length s - 1 - i) mod 10)) [0..<length s]"
  using fromi_digits [OF assms] by (simp add: low_digits_def)

theorem fromi_writes_low_digits_witness:
  "fromi 2057 ''xxx'' = ''057''"
proof -
  have "map (\<lambda>i. digit_char (2057 div 10 ^ (length ''xxx'' - 1 - i) mod 10)) [0..<length ''xxx''] = ''057''"
    by (simp add: upt_rec digit_char_simps)
  then show ?thesis
    by (subst fromi_writes_low_digits) simp_all
qed

section \<open>Polling\<close>

text \<open>
  A small logger: the operating system is a counter of clock readings and the text of the one file; two
  threads have logged one line each, the second one earlier, and their buffers were not looked at yet.
\<close>

definition demo_log_env :: "(nat \<times> string, int) log_env" where
  "demo_log_env =
     \<lparr>e_clocks = \<lparr>rdtsc = (\<lambda>k. (1000 + int (min (fst k) 1000), (Suc (fst k), snd k))),
                  rdsysns = (\<lambda>k. (1000 + int (fst k), (Suc (fst k), snd k)))\<rparr>,
      e_double = \<lparr>d_of_int = (\<lambda>i. i), d_to_int = (\<lambda>i. i), d_div = (div), d_mul = (*), d_sub = (-)\<rparr>,
      e_localtime = (\<lambda>t. (\<lparr>tm_year = 70, tm_mon = 0, tm_mday = 1, tm_wday = 4\<rparr>, 0)),
      e_fwrite = (\<lambda>fp s k. (fst k, snd k @ s)), e_fflush = (\<lambda>fp k. k), e_fclose = (\<lambda>fp k. k),
      e_fopen = (\<lambda>f trunc k. (Some 0, k)), e_setbuf = (\<lambda>fp k. k), e_ftell = (\<lambda>fp k. of_nat (length (snd k))),
      e_name_start = demo_name_start, fmt_header = (\<lambda>p vals. concat vals), fmt_body = (\<lambda>p vals. p),
      str_at = (\<lambda>a. ''app/xfly.cpp:7'')\<rparr>"

definition demo_files :: "nat \<Rightarrow> nat \<times> string \<Rightarrow> string" where "demo_files fp k = snd k"

definition once_msg :: "u64 \<Rightarrow> log_msg_bytes" where
  "once_msg tsc = (1, le_bytes 8 (unat tsc) @ le_bytes 8 4096 @ [104, 105])"

definition once_buffer :: "u64 \<Rightarrow> thread_buffer" where
  "once_buffer tsc =
     \<lparr>tb_varq = snd (projr (log_put (once_msg tsc) varq_new)), shouldDeallocate = False, tb_name = ''1'',
      nameSize = 1\<rparr>"

definition once_info :: "log_level \<Rightarrow> static_info" where
  "once_info l =
     \<lparr>location = [], basePos = 0, endPos = 0, formatToFn = None, formatString = [], logLevel = l\<rparr>"

definition demo_backend :: "(nat \<times> string, int) log_backend" where
  "demo_backend =
     \<lparr>l_kern = (0, []), l_tscns = demo_clock, l_buffers = [0 \<mapsto> once_buffer 500, 1 \<mapsto> once_buffer 400],
      l_next_buffer = 2, l_threadBuffers = [0, 1], l_bgThreadBuffers = [], l_logInfos = [],
      l_bgLogInfos = map once_info [L_DBG, L_INF, L_WRN, L_ERR], l_membuf = [], l_outputFp = Some 0,
      l_manageFp = True, l_fpos = 0, l_flushDelay = 3000000000, l_nextFlushTime = INT64_MAX,
      l_flushBufSize = 8192, l_flushLogLevel = L_OFF, l_midnightNs = 0, l_headerPattern = ''{} '',
      l_reorderIdx = replicate 25 0, l_weekdayName = ''Thu'', l_monthName = ''Jan'', l_year = ''1970'',
      l_month = ''01'', l_day = ''01'', l_hour = ''00'', l_minute = ''00'', l_second = ''00'',
      l_nanosecond = ''000000000'', l_cb = None, l_cb_calls = []\<rparr>"

definition demo_queues :: "nat \<Rightarrow> log_msg_bytes list" where
  "demo_queues t = (if t = 0 then [once_msg 500] else if t = 1 then [once_msg 400] else [])"

definition once_infos :: "static_info list" where "once_infos = map once_info [L_DBG, L_INF, L_WRN, L_ERR]"

lemma once_msg_simps [simp]:
  "tsc_of (once_msg tsc) = sint tsc" "length (snd (once_msg tsc)) = 18" "fst (once_msg tsc) = 1"
  by (simp_all add: tsc_of_def once_msg_def)

lemma once_buffer_ok:
  "ring_inv (tb_varq (once_buffer tsc)) P_idle False [once_msg tsc]" "nameSize (once_buffer tsc) = 1"
  "tb_name (once_buffer tsc) = ''1''"
proof -
  obtain q where "log_put (once_msg tsc) varq_new = Inr (True, q)" "ring_inv q P_idle False ([] @ [once_msg tsc])"
    using log_put_empty [OF ring_inv_new, of "once_msg tsc"]
    by (auto simp: msg_fits_def nblk_def BLK_CNT_def varq_new_def)
  then show "ring_inv (tb_varq (once_buffer tsc)) P_idle False [once_msg tsc]"
    by (simp add: once_buffer_def)
qed (simp_all add: once_buffer_def)

lemma demo_collect:
  "l_bgLogInfos (poll_collect demo_backend) = once_infos"
  "l_bgThreadBuffers (poll_collect demo_backend) = [\<lparr>node_tb = 0, node_header = None\<rparr>, \<lparr>node_tb = 1, node_header = None\<rparr>]"
  "l_buffers demo_backend = [0 \<mapsto> once_buffer 500, 1 \<mapsto> once_buffer 400]" "polled demo_backend = {0, 1}"
  by (simp_all add: poll_collect_def demo_backend_def polled_def once_infos_def Let_def)

lemma once_readable: "msg_readable env once_infos (once_msg tsc)"
  by (simp add: msg_readable_def msg_body_eq once_infos_def once_info_def)

text \<open>The second thread is in the middle of a statement: it looked for the reader's position only just now.\<close>

definition demo_phases :: "nat \<Rightarrow> producer" where
  "demo_phases t = (if t = 1 then P_loaded (read_idx (tb_varq (once_buffer 400))) (once_msg 700) else P_idle)"

lemma demo_queues_ok:
  "queues_ok demo_phases env (l_bgLogInfos (poll_collect demo_backend)) (l_buffers demo_backend)
     (l_bgThreadBuffers (poll_collect demo_backend)) demo_queues"
  unfolding demo_collect
  using once_buffer_ok ring_inv_start(1) [OF once_buffer_ok(1), of "once_msg 700" 400]
  by (simp add: queues_ok_def node_ok_def demo_queues_def once_readable demo_phases_def msg_fits_def)

lemma demo_file_law: "file_law demo_log_env demo_files"
  by (simp add: file_law_def demo_log_env_def demo_files_def)

text \<open>
  C7: A poll writes the log. With queues whose messages are readable and in order of their time stamps
  in each thread's buffer, and with every logging thread anywhere in a log statement (\<open>ph\<close>), the poll
  returns without a fault; it has handled, of each buffer it polls, exactly the messages older than the poll,
  each once and in their order, and nothing else, all of them merged by time stamp; what the file and the memory buffer hold together has
  grown by one line for each handled message, in that order, its header, its text and the end of the line;
  after a forced poll that handled something or left a buffer, everything is in the file; and the logger
  is in order again, with the younger messages still in their queues and with exactly the buffers gone
  that were empty and whose threads had ended.
\<close>

theorem poll_writes_in_time_order:
  assumes "backend_ok ph env b xs" "file_law env files"
    and "calibrate (e_double env) (e_clocks env) (l_kern b) (l_tscns b) = Some (Inr (tn, k1))"
    and "rdtsc (e_clocks env) k1 = (tsc, k2)"
  shows "\<exists>b' hs lines. poll env force b = Some (Inr b') \<and>
    sorted (map (tsc_of \<circ> snd) hs) \<and>
    fst ` set hs \<subseteq> polled b \<and> (\<forall>t \<in> polled b. handled_of t hs = filter (\<lambda>x. tsc_of x < tsc) (xs t)) \<and>
    list_all2 (\<lambda>p line. line_of env (l_bgLogInfos (poll_collect b)) (snd p) line) hs lines \<and>
    log_text files b' = log_text files b @ concat lines \<and> (force \<and> (hs \<noteq> [] \<or> polled b' \<noteq> {}) \<longrightarrow> l_membuf b' = []) \<and>
    backend_ok ph env b' (younger tsc xs) \<and> polled b' = {t \<in> polled b. \<not> tb_dead (l_buffers b) xs t}"
  using poll_writes [OF assms, of force] unfolding poll_frame_def by blast

theorem poll_writes_in_time_order_witness:
  "\<exists>b' hs lines. poll demo_log_env True demo_backend = Some (Inr b') \<and>
    sorted (map (tsc_of \<circ> snd) hs) \<and> handled_of 0 hs = [once_msg 500] \<and> handled_of 1 hs = [once_msg 400] \<and>
    length lines = length hs \<and> log_text demo_files b' = concat lines"
proof -
  have "backend_ok demo_phases demo_log_env demo_backend demo_queues"
    using demo_queues_ok by (simp add: backend_ok_def demo_backend_def seq_even_def demo_clock_def)
  moreover have "calibrate (e_double demo_log_env) (e_clocks demo_log_env) (l_kern demo_backend) (l_tscns demo_backend) =
      Some (Inr (demo_clock, (1, [])))"
    by (simp add: calibrate_def demo_log_env_def demo_backend_def demo_clock_def)
  moreover have "rdtsc (e_clocks demo_log_env) (1, []) = (1001, (2, []))"
    by (simp add: demo_log_env_def)
  moreover have "log_text demo_files demo_backend = []"
    by (simp add: log_text_def demo_backend_def demo_files_def)
  ultimately show ?thesis
    using poll_writes_in_time_order [OF _ demo_file_law, of demo_phases demo_backend demo_queues demo_clock "(1, [])" 1001 "(2, [])" True]
    by (fastforce simp: demo_collect demo_queues_def dest: list_all2_lengthD)
qed

text \<open>
  C6: What a program logs ends up in its log file. When a log statement is executed for the first time,
  by a thread that may or may not have logged before, it registers itself, makes the thread's buffer if
  needed, and returns with the logger in order; a thread's first message always finds room. If the message
  was stored, a later forced poll (at whatever times the clock is calibrated) returns without a fault, and
  the file then holds everything logged before, followed by lines one of which is a header, the statement's
  text formatted with its own argument values, and the end of the line.
\<close>

theorem logged_statement_is_written:
  assumes "backend_ok ph env b xs" "caller_buffer ph b own xs t" "length (dec_of_nat tid) \<le> 32"
    and "file_law env files" "length (l_bgLogInfos (poll_collect b)) < 2 ^ 32"
    and "unNameFormat (e_name_start env) False format [] (map arg_name args) = Inr (unnamed, [])"
    and "\<forall>a \<in> set args. arg_ok a" "sum_list (map arg_size args) + 23 < 2 ^ 32"
    and "\<forall>y \<in> set (xs t). tsc_of y \<le> sint tsc"
  shows "\<exists>stored logId b'. fmtlog_log env tid own full 0 tsc loc level format args b = Inr (stored, logId, t, b') \<and>
    (own = None \<and> sum_list (map arg_size args) + 23 < 2 ^ 19 \<longrightarrow> stored) \<and>
    (stored \<longrightarrow>
      (\<forall>tn k1 now k2. calibrate (e_double env) (e_clocks env) (l_kern b') (l_tscns b') = Some (Inr (tn, k1)) \<longrightarrow>
         rdtsc (e_clocks env) k1 = (now, k2) \<longrightarrow> sint tsc < now \<longrightarrow>
         (\<exists>b'' ls header rs. poll env True b' = Some (Inr b'') \<and> l_membuf b'' = [] \<and>
            log_text files b'' = log_text files b @ ls @
              (header @ fmt_body env unnamed (map arg_val args) @ [CHR 0x0A]) @ rs)))"
proof -
  obtain logId b1 info where b1: "register_stmt env 0 loc level format args b = Inr (logId, b1)"
    "backend_ok ph env b1 xs" "caller_buffer ph b1 own xs t" "l_kern b1 = l_kern b" "l_tscns b1 = l_tscns b"
    "l_outputFp b1 = l_outputFp b" "l_membuf b1 = l_membuf b"
    and info: "unat logId < length (l_bgLogInfos (poll_collect b1))" "l_bgLogInfos (poll_collect b1) ! unat logId = info"
      "formatToFn info = Some (map type_of args)" "formatString info = unnamed"
    using register_stmt_ok [OF assms(1,2,6,5)] by blast
  let ?m = "log_bytes tsc logId args"
  obtain stored b2 where b2: "store_in tid own full (log_stmt tsc logId args) b1 = Inr (stored, t, b2)"
    "backend_ok ph env b2 (if stored then xs(t := xs t @ [?m]) else xs)" "same_backend b1 b2" "t \<in> polled b2"
    "stored \<longrightarrow> l_kern b2 = l_kern b1"
    using stmt_stored [OF b1(2,3) assms(3) info(1) _ assms(7,8,9)] info by blast
  have run: "fmtlog_log env tid own full 0 tsc loc level format args b = Inr (stored, logId, t, b2)"
    using b1(1) b2(1) by (simp add: fmtlog_log_def)
  have new: "own = None \<Longrightarrow> sum_list (map arg_size args) + 23 < 2 ^ 19 \<Longrightarrow> stored"
    using stmt_stored_new b2(1) assms(7) by blast
  have "\<exists>b'' ls header rs. poll env True b2 = Some (Inr b'') \<and> l_membuf b'' = [] \<and>
      log_text files b'' = log_text files b @ ls @
        (header @ fmt_body env unnamed (map arg_val args) @ [CHR 0x0A]) @ rs"
    if stored and cal: "calibrate (e_double env) (e_clocks env) (l_kern b2) (l_tscns b2) = Some (Inr (tn, k1))"
      and clk: "rdtsc (e_clocks env) k1 = (now, k2)" "sint tsc < now" for tn k1 now k2
  proof -
    have kept: "log_text files b2 = log_text files b"
      using b1(4-7) b2(3,5) \<open>stored\<close> by (intro log_text_eq) (simp_all add: same_backend_def)
    have infos: "l_bgLogInfos (poll_collect b2) = l_bgLogInfos (poll_collect b1)"
      using b2(3) by (simp add: same_backend_def)
    have ok: "backend_ok ph env b2 (xs(t := xs t @ [?m]))" using b2(2) \<open>stored\<close> by simp
    obtain b'' hs lines where w: "poll env True b2 = Some (Inr b'')"
      "\<forall>t' \<in> polled b2. handled_of t' hs = filter (\<lambda>x. tsc_of x < now) ((xs(t := xs t @ [?m])) t')"
      "list_all2 (\<lambda>p line. line_of env (l_bgLogInfos (poll_collect b2)) (snd p) line) hs lines"
      "log_text files b'' = log_text files b2 @ concat lines" "hs \<noteq> [] \<longrightarrow> l_membuf b'' = []"
      using poll_writes [OF ok assms(4) cal clk(1), of True] by blast
    have m: "?m \<in> set (handled_of t hs)"
      using w(2) b2(4) clk(2) by (simp add: tsc_of_def log_bytes_def)
    have body: "msg_body env (l_bgLogInfos (poll_collect b2) ! unat (fst ?m)) (snd ?m) =
        Inr (fmt_body env unnamed (map arg_val args))"
      using stmt_body [OF info(3) assms(7)] info(2,4) infos by (simp add: log_bytes_def)
    show ?thesis
      using handled_line [OF w(3) m body] w(1,4,5) m kept by (auto simp: handled_of_def)
  qed
  then show ?thesis
    using run new by blast
qed

theorem logged_statement_is_written_witness:
  "\<exists>logId b'. fmtlog_log demo_log_env 4711 None (\<lambda>k. k) 0 600 ''app/xfly.cpp:20'' L_INF ''{} {n} {}'' demo_args
       demo_backend = Inr (True, logId, 2, b') \<and>
     (\<forall>tn k1 now k2. calibrate (e_double demo_log_env) (e_clocks demo_log_env) (l_kern b') (l_tscns b') = Some (Inr (tn, k1)) \<longrightarrow>
        rdtsc (e_clocks demo_log_env) k1 = (now, k2) \<longrightarrow> 600 < now \<longrightarrow>
        (\<exists>b'' ls header rs. poll demo_log_env True b' = Some (Inr b'') \<and> l_membuf b'' = [] \<and>
           log_text demo_files b'' = ls @ (header @ ''{} {1} {}'' @ [CHR 0x0A]) @ rs))"
proof -
  have "backend_ok demo_phases demo_log_env demo_backend demo_queues" "log_text demo_files demo_backend = []"
    using demo_queues_ok
    by (simp_all add: backend_ok_def demo_backend_def seq_even_def demo_clock_def log_text_def demo_files_def)
  moreover have "caller_buffer demo_phases demo_backend None demo_queues 2"
    by (simp add: caller_buffer_def demo_collect(4) demo_queues_def demo_phases_def) (simp add: demo_backend_def)
  moreover have "length (dec_of_nat 4711) \<le> 32"
    by (simp add: dec_of_nat.simps)
  moreover have "unNameFormat (e_name_start demo_log_env) False ''{} {n} {}'' [] (map arg_name demo_args) = Inr (''{} {1} {}'', [])"
    unfolding demo_log_env_def by code_simp
  moreover have "\<forall>a \<in> set demo_args. arg_ok a" "sum_list (map arg_size demo_args) = 7"
    by (simp_all add: demo_args_def)
  moreover have "fmt_body demo_log_env p vals = p" for p vals
    by (simp add: demo_log_env_def)
  ultimately show ?thesis
    using logged_statement_is_written [OF _ _ _ demo_file_law, of demo_phases demo_backend demo_queues None 2 4711 "''{} {n} {}''" demo_args
        "''{} {1} {}''" 600 "\<lambda>k. k" "''app/xfly.cpp:20''" L_INF]
    by (simp add: demo_collect(1) once_infos_def demo_queues_def) (elim exE conjE, simp)
qed

text \<open>
  C35: A poll from a signal handler can hang. The handler logs a message and
  polls; when the signal arrives while the thread is inside \<open>saveParam\<close>, the sequence number is odd and
  stays odd, and a poll that has any message older than itself to handle never returns.
\<close>

theorem interrupted_calibration_hangs:
  assumes "queues_ok ph env (l_bgLogInfos (poll_collect b)) (l_buffers b) (l_bgThreadBuffers (poll_collect b)) xs"
    and "odd (param_seq (l_tscns b))"
    and "rdtsc (e_clocks env) (l_kern b) = (now, k1)" "now < next_calibrate_tsc (l_tscns b)"
    and "rdtsc (e_clocks env) k1 = (tsc, k2)"
    and "t \<in> polled b" "x \<in> set (xs t)" "tsc_of x < tsc"
  shows "poll env force b = None"
  using poll_hangs [OF assms] .

theorem interrupted_calibration_hangs_witness:
  "poll demo_log_env True (demo_backend\<lparr>l_tscns := demo_clock\<lparr>param_seq := 1\<rparr>\<rparr>) = None"
proof -
  let ?b = "demo_backend\<lparr>l_tscns := demo_clock\<lparr>param_seq := 1\<rparr>\<rparr>"
  have c: "l_bgLogInfos (poll_collect ?b) = l_bgLogInfos (poll_collect demo_backend)"
    "l_bgThreadBuffers (poll_collect ?b) = l_bgThreadBuffers (poll_collect demo_backend)" "polled ?b = {0, 1}"
    using demo_collect(4) by (simp_all add: poll_collect_def polled_def Let_def)
  then have "queues_ok demo_phases demo_log_env (l_bgLogInfos (poll_collect ?b)) (l_buffers ?b) (l_bgThreadBuffers (poll_collect ?b)) demo_queues"
    using demo_queues_ok by simp
  then show ?thesis
    by (rule interrupted_calibration_hangs [of _ _ _ _ 1000 "(1, [])" 1001 "(2, [])" 0 "once_msg 500"])
      (simp_all add: c, simp_all add: demo_clock_def demo_backend_def demo_log_env_def demo_queues_def)
qed

end
