(* ===== verification/Log_Life.thy ===== *)
theory Log_Life
  imports Log_Front
begin

text \<open>
  The logger over its whole life: any number of threads log through any number of statements of the three
  kinds, name themselves and end, options are set, and the polling thread polls, in any order. The invariant
  of this system says where every message is: written as a line, or still in its thread's queue.
\<close>

section \<open>The system\<close>

text \<open>A log statement in the source: its static data. Its arguments have the same types each time.\<close>

record log_site =
  site_loc :: string
  site_level :: log_level
  site_format :: string
  site_types :: "arg_type list"

primrec type_name :: "arg_type \<Rightarrow> string option" where
  "type_name (Ty_named n a) = Some n"
| "type_name Ty_cstring = None"
| "type_name Ty_string = None"
| "type_name (Ty_obj n unref dtor) = None"

lemma arg_name_type: "arg_name a = type_name (type_of a)"
  by (cases a) simp_all

lemma arg_names_types: "map type_of args = types \<Longrightarrow> map arg_name args = map type_name types"
  by (auto simp: arg_name_type)

text \<open>
  The threads' buffers (\<open>threadBuffer\<close> is thread-local), the statements' log ids and the times before
  which they are silent (\<open>logId\<close> and \<open>limitNs\<close> are static in each statement). \<open>run_logged\<close> records what
  was stored: the buffer, the message and the text it is to appear with.
\<close>

record ('k, 'f) log_run =
  run_backend :: "('k, 'f) log_backend"
  run_owner :: "nat \<Rightarrow> nat option"
  run_ids :: "nat \<Rightarrow> u32"
  run_limits :: "nat \<Rightarrow> int"
  run_logged :: "(nat \<times> log_msg_bytes \<times> string) list"

text \<open>
  When a thread may log a message of \<open>n\<close> bytes: the time stamp counter is in range and does not run
  backwards for a thread, the message fits, and the callback for a full queue does not write to the log.
\<close>

definition thread_allowed ::
  "('k, 'f) log_env \<Rightarrow> (nat \<Rightarrow> 'k \<Rightarrow> string) \<Rightarrow> ('k, 'f) log_run \<Rightarrow> nat \<Rightarrow> int \<Rightarrow> nat \<Rightarrow> ('k \<Rightarrow> 'k) \<Rightarrow> bool" where
  "thread_allowed env files r tid tsc n full \<longleftrightarrow>
     fst (rdtsc (e_clocks env) (l_kern (run_backend r))) = tsc \<and> - (2 ^ 63) \<le> tsc \<and> tsc < 2 ^ 63 \<and>
     (\<forall>u x tx. run_owner r tid = Some u \<longrightarrow> (u, x, tx) \<in> set (run_logged r) \<longrightarrow> tsc_of x \<le> tsc) \<and>
     n + 15 < 2 ^ 32 \<and> length (dec_of_nat tid) \<le> 32 \<and> (\<forall>fp k. files fp (full k) = files fp k)"

text \<open>
  A statement: the arguments have its types, its format names only them, and there are fewer than
  \<open>2 ^ 32\<close> statements. A statement that logs once has a level of its own.
\<close>

definition log_allowed ::
  "('k, 'f) log_env \<Rightarrow> (nat \<Rightarrow> 'k \<Rightarrow> string) \<Rightarrow> log_site \<Rightarrow> ('k, 'f) log_run \<Rightarrow> nat \<Rightarrow> int \<Rightarrow> log_arg list \<Rightarrow> string \<Rightarrow>
   ('k \<Rightarrow> 'k) \<Rightarrow> bool" where
  "log_allowed env files site r tid tsc args unnamed full \<longleftrightarrow>
     thread_allowed env files r tid tsc (8 + sum_list (map arg_size args)) full \<and>
     map type_of args = site_types site \<and> (\<forall>a \<in> set args. arg_ok a) \<and>
     length (l_bgLogInfos (poll_collect (run_backend r))) < 2 ^ 32 \<and>
     unNameFormat (e_name_start env) False (site_format site) [] (map type_name (site_types site)) =
       Inr (unnamed, [])"

definition once_allowed ::
  "('k, 'f) log_env \<Rightarrow> (nat \<Rightarrow> 'k \<Rightarrow> string) \<Rightarrow> ('k, 'f) log_run \<Rightarrow> nat \<Rightarrow> int \<Rightarrow> log_level \<Rightarrow> string \<Rightarrow>
   ('k \<Rightarrow> 'k) \<Rightarrow> bool" where
  "once_allowed env files r tid tsc level txt full \<longleftrightarrow>
     thread_allowed env files r tid tsc (16 + length txt) full \<and> level \<noteq> L_OFF"

text \<open>A statement has stored message \<open>x\<close>, to appear as \<open>txt\<close>, or it was dropped.\<close>

definition run_stored ::
  "nat \<Rightarrow> bool \<Rightarrow> nat option \<Rightarrow> log_msg_bytes \<Rightarrow> string \<Rightarrow> ('k, 'f) log_backend \<Rightarrow> ('k, 'f) log_run \<Rightarrow> ('k, 'f) log_run" where
  "run_stored tid ok own' x txt b' r = r\<lparr>run_backend := b', run_owner := (run_owner r)(tid := own'),
     run_logged := run_logged r @ (if ok then [(the own', x, txt)] else [])\<rparr>"

text \<open>What the settings change.\<close>

definition set_option :: "('k, 'f) log_env \<Rightarrow> ('k, 'f) log_backend \<Rightarrow> ('k, 'f) log_backend \<Rightarrow> bool" where
  "set_option env b b' \<longleftrightarrow>
     (\<exists>ns. b' = setFlushDelay ns b) \<or> (\<exists>level. b' = flushOn level b) \<or> (\<exists>n. b' = setFlushBufSize n b) \<or>
     (\<exists>cb. b' = setLogCB cb b) \<or> (\<exists>pattern. set_header_pattern env pattern b = Inr b')"

text \<open>
  One step. \<open>Log\<close>, \<open>Limit\<close> and \<open>Once\<close>: thread \<open>tid\<close> executes \<open>FMTLOG\<close> or \<open>FMTLOG_LIMIT\<close> of statement
  \<open>s\<close>, or an \<open>FMTLOG_ONCE\<close>; the current level is any. \<open>Name\<close>: a thread sets its name. \<open>Poll\<close>: the polling
  thread polls. \<open>Exit\<close>: a thread that has logged ends. \<open>Set\<close>: an option is set. \<open>Other\<close>: the operating
  system does anything else but writing to the log file.
\<close>

inductive run_step ::
  "('k, 'f) log_env \<Rightarrow> (nat \<Rightarrow> 'k \<Rightarrow> string) \<Rightarrow> (nat \<Rightarrow> log_site) \<Rightarrow> ('k, 'f) log_run \<Rightarrow> ('k, 'f) log_run \<Rightarrow> bool"
  for env files sites where
  Log: "log_allowed env files (sites s) r tid tsc args unnamed full \<Longrightarrow>
    FMTLOG env tid (run_owner r tid) full current (run_ids r s) (site_loc (sites s)) (site_level (sites s))
      (site_format (sites s)) args (run_backend r) = Inr (ok, logId, own', b') \<Longrightarrow>
    run_step env files sites r
      (run_stored tid ok own' (log_bytes (of_int tsc) logId args) (fmt_body env unnamed (map arg_val args)) b'
        (r\<lparr>run_ids := (run_ids r)(s := logId)\<rparr>))"
| Limit: "log_allowed env files (sites s) r tid tsc args unnamed full \<Longrightarrow>
    FMTLOG_LIMIT env tid (run_owner r tid) full current interval (run_ids r s) (run_limits r s) (site_loc (sites s))
      (site_level (sites s)) (site_format (sites s)) args (run_backend r) = Some (Inr (ok, logId, limitNs, own', b')) \<Longrightarrow>
    run_step env files sites r
      (run_stored tid ok own' (log_bytes (of_int tsc) logId args) (fmt_body env unnamed (map arg_val args)) b'
        (r\<lparr>run_ids := (run_ids r)(s := logId), run_limits := (run_limits r)(s := limitNs)\<rparr>))"
| Once: "once_allowed env files r tid tsc level (fmt_body env format (map arg_val args)) full \<Longrightarrow>
    FMTLOG_ONCE env tid (run_owner r tid) full current loc_addr level format args (run_backend r) =
      Inr (ok, own', b') \<Longrightarrow>
    run_step env files sites r
      (run_stored tid ok own' (once_bytes (of_int tsc) loc_addr level (fmt_body env format (map arg_val args)))
        (fmt_body env format (map arg_val args)) b' r)"
| Name: "length nm \<le> 32 \<Longrightarrow> length (dec_of_nat tid) \<le> 32 \<Longrightarrow>
    setThreadName tid (run_owner r tid) nm (run_backend r) = Inr (t, b') \<Longrightarrow>
    run_step env files sites r (r\<lparr>run_backend := b', run_owner := (run_owner r)(tid := Some t)\<rparr>)"
| Poll: "poll env force (run_backend r) = Some (Inr b') \<Longrightarrow> run_step env files sites r (r\<lparr>run_backend := b'\<rparr>)"
| Exit: "run_owner r tid = Some u \<Longrightarrow> thread_exit u (run_backend r) = Inr b' \<Longrightarrow>
    run_step env files sites r (r\<lparr>run_backend := b', run_owner := (run_owner r)(tid := None)\<rparr>)"
| Set: "set_option env (run_backend r) b' \<Longrightarrow> run_step env files sites r (r\<lparr>run_backend := b'\<rparr>)"
| Other: "\<forall>fp. files fp k = files fp (l_kern (run_backend r)) \<Longrightarrow>
    run_step env files sites r (r\<lparr>run_backend := (run_backend r)\<lparr>l_kern := k\<rparr>\<rparr>)"

text \<open>The logger is in order and no thread has logged yet.\<close>

definition all_idle :: "nat \<Rightarrow> producer" where "all_idle t = P_idle"

definition run_start :: "('k, 'f) log_env \<Rightarrow> ('k, 'f) log_run \<Rightarrow> bool" where
  "run_start env r \<longleftrightarrow>
     backend_ok all_idle env (run_backend r) (\<lambda>t. []) \<and> polled (run_backend r) = {} \<and>
     levels_known (l_bgLogInfos (run_backend r)) \<and> run_owner r = (\<lambda>t. None) \<and> run_ids r = (\<lambda>s. 0) \<and>
     run_limits r = (\<lambda>s. 0) \<and> run_logged r = []"

inductive run_reach ::
  "('k, 'f) log_env \<Rightarrow> (nat \<Rightarrow> 'k \<Rightarrow> string) \<Rightarrow> (nat \<Rightarrow> log_site) \<Rightarrow> ('k, 'f) log_run \<Rightarrow> ('k, 'f) log_run \<Rightarrow> bool"
  for env files sites r0 where
  Start: "run_reach env files sites r0 r0"
| Step: "run_reach env files sites r0 r \<Longrightarrow> run_step env files sites r r' \<Longrightarrow> run_reach env files sites r0 r'"

section \<open>The invariant\<close>

text \<open>A registered statement, and a message with the text it is formatted to.\<close>

definition site_known :: "('k, 'f) log_env \<Rightarrow> static_info list \<Rightarrow> log_site \<Rightarrow> u32 \<Rightarrow> bool" where
  "site_known env infos site logId \<longleftrightarrow>
     unat logId < length infos \<and> formatToFn (infos ! unat logId) = Some (site_types site) \<and>
     unNameFormat (e_name_start env) False (site_format site) [] (map type_name (site_types site)) =
       Inr (formatString (infos ! unat logId), [])"

definition entry_ok :: "('k, 'f) log_env \<Rightarrow> static_info list \<Rightarrow> nat \<times> log_msg_bytes \<times> string \<Rightarrow> bool" where
  "entry_ok env infos e \<longleftrightarrow> (case e of (u, x, tx) \<Rightarrow>
     unat (fst x) < length infos \<and> msg_body env (infos ! unat (fst x)) (snd x) = Inr tx)"

definition entry_msg :: "nat \<times> log_msg_bytes \<times> string \<Rightarrow> nat \<times> log_msg_bytes" where
  "entry_msg e = (fst e, fst (snd e))"

text \<open>What is known about statements and messages stays known when others are registered.\<close>

lemma known_append:
  "site_known env infos site i \<Longrightarrow> site_known env (infos @ js) site i"
  "entry_ok env infos e \<Longrightarrow> entry_ok env (infos @ js) e"
  "line_of env infos x line \<Longrightarrow> line_of env (infos @ js) x line"
  by (auto simp: site_known_def entry_ok_def line_of_def nth_append split: prod.splits)

lemma known_sig_one:
  assumes "map info_sig is = map info_sig js"
  shows "site_known env js site i \<Longrightarrow> site_known env is site i" "entry_ok env js e \<Longrightarrow> entry_ok env is e"
proof -
  assume k: "site_known env js site i"
  then have "unat i < length js" by (simp add: site_known_def)
  then have "info_sig (is ! unat i) = info_sig (js ! unat i)" "length is = length js"
    using info_sig_nth [OF assms] by simp_all
  then show "site_known env is site i" using k by (simp add: site_known_def info_sig_def)
next
  assume e: "entry_ok env js e"
  obtain u x tx where [simp]: "e = (u, x, tx)" by (cases e) auto
  have "unat (fst x) < length js" using e by (simp add: entry_ok_def)
  then have i: "info_sig (is ! unat (fst x)) = info_sig (js ! unat (fst x))" "length is = length js"
    using info_sig_nth [OF assms] by simp_all
  then show "entry_ok env is e"
    using e msg_body_sig [OF i(1), of env "snd x"] by (simp add: entry_ok_def)
qed

lemma known_sig:
  assumes "map info_sig is = map info_sig js"
  shows "site_known env is site i = site_known env js site i" "entry_ok env is e = entry_ok env js e"
  using known_sig_one [OF assms] known_sig_one [OF assms [symmetric]] by blast+

definition owners_ok :: "('k, 'f) log_backend \<Rightarrow> (nat \<Rightarrow> nat option) \<Rightarrow> bool" where
  "owners_ok b own \<longleftrightarrow>
     (\<forall>tid u. own tid = Some u \<longrightarrow> u \<in> polled b \<and> tb_ended (l_buffers b) u = Some False) \<and>
     (\<forall>tid tid' u. own tid = Some u \<longrightarrow> own tid' = Some u \<longrightarrow> tid = tid')"

text \<open>
  \<open>xs\<close> are the queues, \<open>hs\<close> the messages handled and \<open>lines\<close> their lines; the log began with \<open>text0\<close>.
\<close>

definition run_inv ::
  "('k, 'f) log_env \<Rightarrow> (nat \<Rightarrow> 'k \<Rightarrow> string) \<Rightarrow> (nat \<Rightarrow> log_site) \<Rightarrow> string \<Rightarrow> ('k, 'f) log_run \<Rightarrow>
   (nat \<Rightarrow> log_msg_bytes list) \<Rightarrow> (nat \<times> log_msg_bytes) list \<Rightarrow> string list \<Rightarrow> bool" where
  "run_inv env files sites text0 r xs hs lines \<longleftrightarrow>
     (let b = run_backend r; infos = l_bgLogInfos (poll_collect b) in
      backend_ok all_idle env b xs \<and> levels_known infos \<and>
      (\<forall>u. handled_of u (map entry_msg (run_logged r)) = handled_of u hs @ xs u) \<and>
      list_all2 (\<lambda>p line. line_of env infos (snd p) line) hs lines \<and>
      log_text files b = text0 @ concat lines \<and>
      (\<forall>e \<in> set (run_logged r). entry_ok env infos e \<and> fst e < l_next_buffer b) \<and>
      (\<forall>s. run_ids r s \<noteq> 0 \<longrightarrow> site_known env infos (sites s) (run_ids r s)) \<and>
      owners_ok b (run_owner r) \<and> (\<forall>u \<in> polled b. u < l_next_buffer b) \<and> (\<forall>u. u \<notin> polled b \<longrightarrow> xs u = []))"

lemma run_invD:
  assumes "run_inv env files sites text0 r xs hs lines"
  defines "b \<equiv> run_backend r"
  shows "backend_ok all_idle env b xs" "levels_known (l_bgLogInfos (poll_collect b))"
    "\<And>u. handled_of u (map entry_msg (run_logged r)) = handled_of u hs @ xs u"
    "list_all2 (\<lambda>p line. line_of env (l_bgLogInfos (poll_collect b)) (snd p) line) hs lines"
    "log_text files b = text0 @ concat lines"
    "\<And>e. e \<in> set (run_logged r) \<Longrightarrow> entry_ok env (l_bgLogInfos (poll_collect b)) e"
    "\<And>e. e \<in> set (run_logged r) \<Longrightarrow> fst e < l_next_buffer b"
    "\<And>s. run_ids r s \<noteq> 0 \<Longrightarrow> site_known env (l_bgLogInfos (poll_collect b)) (sites s) (run_ids r s)"
    "owners_ok b (run_owner r)" "\<And>u. u \<in> polled b \<Longrightarrow> u < l_next_buffer b" "\<And>u. u \<notin> polled b \<Longrightarrow> xs u = []"
  using assms(1) unfolding b_def run_inv_def Let_def by blast+

lemma run_invI:
  assumes "backend_ok all_idle env (run_backend r) xs" "levels_known (l_bgLogInfos (poll_collect (run_backend r)))"
    "\<And>u. handled_of u (map entry_msg (run_logged r)) = handled_of u hs @ xs u"
    "list_all2 (\<lambda>p line. line_of env (l_bgLogInfos (poll_collect (run_backend r))) (snd p) line) hs lines"
    "log_text files (run_backend r) = text0 @ concat lines"
    "\<And>e. e \<in> set (run_logged r) \<Longrightarrow> entry_ok env (l_bgLogInfos (poll_collect (run_backend r))) e"
    "\<And>e. e \<in> set (run_logged r) \<Longrightarrow> fst e < l_next_buffer (run_backend r)"
    "\<And>s. run_ids r s \<noteq> 0 \<Longrightarrow> site_known env (l_bgLogInfos (poll_collect (run_backend r))) (sites s) (run_ids r s)"
    "owners_ok (run_backend r) (run_owner r)" "\<And>u. u \<in> polled (run_backend r) \<Longrightarrow> u < l_next_buffer (run_backend r)"
    "\<And>u. u \<notin> polled (run_backend r) \<Longrightarrow> xs u = []"
  shows "run_inv env files sites text0 r xs hs lines"
  using assms unfolding run_inv_def Let_def by blast

lemma run_inv_start:
  assumes "run_start env r"
  shows "run_inv env files sites (log_text files (run_backend r)) r (\<lambda>t. []) [] []"
  using assms levels_known_append by (auto simp: run_start_def run_inv_def owners_ok_def Let_def collected_nodes)

section \<open>Polling and the end of a thread\<close>

lemma poll_collect_kern [simp]:
  "l_bgLogInfos (poll_collect (b\<lparr>l_kern := k\<rparr>)) = l_bgLogInfos (poll_collect b)"
  "l_bgThreadBuffers (poll_collect (b\<lparr>l_kern := k\<rparr>)) = l_bgThreadBuffers (poll_collect b)"
  "polled (b\<lparr>l_kern := k\<rparr>) = polled b" "owners_ok (b\<lparr>l_kern := k\<rparr>) own = owners_ok b own"
  "backend_ok ph env (b\<lparr>l_kern := k\<rparr>) xs = backend_ok ph env b xs"
proof -
  show c: "l_bgLogInfos (poll_collect (b\<lparr>l_kern := k\<rparr>)) = l_bgLogInfos (poll_collect b)"
    "l_bgThreadBuffers (poll_collect (b\<lparr>l_kern := k\<rparr>)) = l_bgThreadBuffers (poll_collect b)"
    "polled (b\<lparr>l_kern := k\<rparr>) = polled b"
    by (simp_all add: collected_nodes polled_def)
  then show "owners_ok (b\<lparr>l_kern := k\<rparr>) own = owners_ok b own"
    "backend_ok ph env (b\<lparr>l_kern := k\<rparr>) xs = backend_ok ph env b xs"
    by (simp_all add: owners_ok_def backend_ok_def)
qed

lemma run_inv_other:
  assumes "run_inv env files sites text0 r xs hs lines" "\<forall>fp. files fp k = files fp (l_kern (run_backend r))"
  shows "run_inv env files sites text0 (r\<lparr>run_backend := (run_backend r)\<lparr>l_kern := k\<rparr>\<rparr>) xs hs lines"
proof -
  have "log_text files ((run_backend r)\<lparr>l_kern := k\<rparr>) = log_text files (run_backend r)"
    using assms(2) by (intro log_text_eq) simp_all
  then show ?thesis
    using assms(1) by (simp add: run_inv_def Let_def)
qed

lemma sorted_split:
  "sorted (map f xs) \<Longrightarrow> xs = filter (\<lambda>x. f x < c) xs @ filter (\<lambda>x. c \<le> f x) xs" for f :: "'a \<Rightarrow> int"
proof (induction xs)
  case (Cons x xs)
  show ?case
  proof (cases "f x < c")
    case True
    then show ?thesis using Cons by simp
  next
    case False
    then have "\<forall>y \<in> set (x # xs). c \<le> f y"
      using Cons.prems by auto
    then have "filter (\<lambda>y. f y < c) (x # xs) = []" "filter (\<lambda>y. c \<le> f y) (x # xs) = x # xs"
      by (auto simp: filter_empty_conv intro!: filter_True)
    then show ?thesis by simp
  qed
qed simp

lemma handled_of_append [simp]: "handled_of t (as @ bs) = handled_of t as @ handled_of t bs"
  by (simp add: handled_of_def)

lemma queue_split:
  assumes "backend_ok ph env b xs" "u \<in> polled b"
  shows "xs u = filter (\<lambda>x. tsc_of x < c) (xs u) @ younger c xs u"
proof -
  obtain nd where "nd \<in> set (l_bgThreadBuffers (poll_collect b))" "u = node_tb nd"
    using assms(2) poll_collect_frame(4) [of b] by blast
  then have "sorted (map tsc_of (xs u))"
    using assms(1) by (simp add: backend_ok_def queues_ok_def)
  then show ?thesis
    unfolding younger_def by (rule sorted_split)
qed

text \<open>The time of a poll.\<close>

definition poll_time :: "('k, 'f) log_env \<Rightarrow> ('k, 'f) log_backend \<Rightarrow> int \<Rightarrow> bool" where
  "poll_time env b tsc \<longleftrightarrow> (\<exists>tn k1 k2. calibrate (e_double env) (e_clocks env) (l_kern b) (l_tscns b) =
     Some (Inr (tn, k1)) \<and> rdtsc (e_clocks env) k1 = (tsc, k2))"

lemma poll_has_time: "poll env force b = Some (Inr b') \<Longrightarrow> \<exists>tsc. poll_time env b tsc"
  by (auto simp: poll_def poll_time_def split: option.splits sum.splits prod.splits)

lemma run_inv_poll:
  assumes inv: "run_inv env files sites text0 r xs hs lines" and law: "file_law env files"
    and time: "poll_time env (run_backend r) tsc"
  shows "\<exists>b' hs' lines'. poll env force (run_backend r) = Some (Inr b') \<and>
    run_inv env files sites text0 (r\<lparr>run_backend := b'\<rparr>) (younger tsc xs) (hs @ hs') (lines @ lines') \<and>
    (force \<and> polled b' \<noteq> {} \<longrightarrow> l_membuf b' = []) \<and> l_outputFp b' = l_outputFp (run_backend r) \<and>
    (\<exists>k. calibrate (e_double env) (e_clocks env) (l_kern (run_backend r)) (l_tscns (run_backend r)) =
       Some (Inr (l_tscns b', k)))"
proof -
  let ?b = "run_backend r" and ?infos = "l_bgLogInfos (poll_collect (run_backend r))"
  note i = run_invD [OF inv]
  obtain tn k1 k2 where cal: "calibrate (e_double env) (e_clocks env) (l_kern ?b) (l_tscns ?b) = Some (Inr (tn, k1))"
    and clk: "rdtsc (e_clocks env) k1 = (tsc, k2)"
    using time by (auto simp: poll_time_def)
  obtain b' hs' lines' where p: "poll env force ?b = Some (Inr b')" "fst ` set hs' \<subseteq> polled ?b"
    "\<forall>t \<in> polled ?b. handled_of t hs' = filter (\<lambda>x. tsc_of x < tsc) (xs t)"
    "list_all2 (\<lambda>p line. line_of env ?infos (snd p) line) hs' lines'"
    "log_text files b' = log_text files ?b @ concat lines'"
    "force \<and> (hs' \<noteq> [] \<or> polled b' \<noteq> {}) \<longrightarrow> l_membuf b' = []"
    "backend_ok all_idle env b' (younger tsc xs)" "poll_frame ?b xs b'" "l_tscns b' = tn"
    using poll_writes [OF i(1) law cal clk, of force] by blast
  note frame = p(8) [unfolded poll_frame_def]
  have sig: "map info_sig (l_bgLogInfos (poll_collect b')) = map info_sig ?infos" using frame by blast
  have split: "handled_of u hs' @ younger tsc xs u = xs u" for u
  proof (cases "u \<in> polled ?b")
    case True
    then show ?thesis using queue_split [OF i(1) True, of tsc] p(3) by simp
  next
    case False
    then have "handled_of u hs' = []" using p(2) by (auto simp: handled_of_def filter_empty_conv)
    then show ?thesis using i(11) [OF False] by (simp add: younger_def)
  qed
  have gone: "younger tsc xs u = []" if "u \<notin> polled b'" for u
    using that i(11) [of u] frame by (auto simp: younger_def tb_dead_def)
  have "run_inv env files sites text0 (r\<lparr>run_backend := b'\<rparr>) (younger tsc xs) (hs @ hs') (lines @ lines')"
  proof (rule run_invI)
    show "list_all2 (\<lambda>p line. line_of env (l_bgLogInfos (poll_collect (run_backend (r\<lparr>run_backend := b'\<rparr>)))) (snd p) line)
        (hs @ hs') (lines @ lines')"
      using i(4) p(4) line_of_infos [OF sig, of env] by (simp add: list_all2_appendI)
    show "owners_ok (run_backend (r\<lparr>run_backend := b'\<rparr>)) (run_owner (r\<lparr>run_backend := b'\<rparr>))"
      using i(9) frame by (auto simp: owners_ok_def tb_dead_def)
    show "levels_known (l_bgLogInfos (poll_collect (run_backend (r\<lparr>run_backend := b'\<rparr>))))"
      using levels_known_sig [OF sig i(2)] by simp
  qed (use i(3,5-8,10) frame known_sig [OF sig, where env = env] split p(5,7) gone in auto)
  then show ?thesis using p(1,6,9) frame cal by blast
qed

lemma queues_ok_mark:
  assumes "queues_ok ph env infos bufs ns xs" "bufs u = Some T"
  shows "queues_ok ph env infos (bufs(u \<mapsto> T\<lparr>shouldDeallocate := x\<rparr>)) ns xs"
proof -
  have "node_ok ph (bufs(u \<mapsto> T\<lparr>shouldDeallocate := x\<rparr>)) nd ys = node_ok ph bufs nd ys" for nd ys
    using assms(2) by (cases "node_tb nd = u") (simp_all add: node_ok_def)
  then show ?thesis
    using assms(1) by (simp add: queues_ok_def del: fun_upd_apply)
qed

lemma run_inv_exit:
  assumes inv: "run_inv env files sites text0 r xs hs lines" and own: "run_owner r tid = Some u"
  shows "\<exists>b'. thread_exit u (run_backend r) = Inr b' \<and>
    run_inv env files sites text0 (r\<lparr>run_backend := b', run_owner := (run_owner r)(tid := None)\<rparr>) xs hs lines"
proof -
  let ?b = "run_backend r"
  note i = run_invD [OF inv]
  obtain T where T: "l_buffers ?b u = Some T"
    using own i(9) by (fastforce simp: owners_ok_def tb_ended_def)
  let ?b' = "?b\<lparr>l_buffers := (l_buffers ?b)(u \<mapsto> T\<lparr>shouldDeallocate := True\<rparr>)\<rparr>"
  have c: "l_bgLogInfos (poll_collect ?b') = l_bgLogInfos (poll_collect ?b)"
    "l_bgThreadBuffers (poll_collect ?b') = l_bgThreadBuffers (poll_collect ?b)" "polled ?b' = polled ?b"
    by (simp_all add: collected_nodes polled_def)
  have "backend_ok all_idle env ?b' xs"
    using i(1) queues_ok_mark [of all_idle env _ "l_buffers ?b" _ xs u T] T by (simp add: backend_ok_def c del: fun_upd_apply)
  moreover have "owners_ok ?b' ((run_owner r)(tid := None))"
    using i(9) own by (auto simp: owners_ok_def c)
  ultimately have "run_inv env files sites text0 (r\<lparr>run_backend := ?b', run_owner := (run_owner r)(tid := None)\<rparr>) xs hs lines"
    using i by (intro run_invI) (simp_all add: c)
  then show ?thesis
    using T by (simp add: thread_exit_def)
qed

section \<open>Logging\<close>

lemma register_frame:
  assumes "register_stmt env logId loc level format args b = Inr (i, b1)"
  shows "l_buffers b1 = l_buffers b" "l_next_buffer b1 = l_next_buffer b" "polled b1 = polled b"
    "l_kern b1 = l_kern b" "l_membuf b1 = l_membuf b" "l_outputFp b1 = l_outputFp b" "l_tscns b1 = l_tscns b"
    "\<exists>js. l_bgLogInfos (poll_collect b1) = l_bgLogInfos (poll_collect b) @ js"
  using assms
  by (auto simp: register_stmt_def registerLogInfo_def collected_nodes polled_def bind_res_eq_Inr split: if_splits)

lemma store_in_frame:
  assumes "store_in tid own full store b = Inr (ok, t, b')"
  shows "t = (case own of None \<Rightarrow> l_next_buffer b | Some u \<Rightarrow> u)"
    "l_next_buffer b' = (case own of None \<Rightarrow> Suc (l_next_buffer b) | Some u \<Rightarrow> l_next_buffer b)"
    "polled b' = (case own of None \<Rightarrow> insert t (polled b) | Some u \<Rightarrow> polled b)"
    "tb_ended (l_buffers b') = (case own of None \<Rightarrow> (tb_ended (l_buffers b))(t := Some False) | Some u \<Rightarrow> tb_ended (l_buffers b))"
    "l_kern b' = (if ok then l_kern b else full (l_kern b))" "l_tscns b' = l_tscns b"
  using assms
  by (auto simp: store_in_def preallocate_def Let_def bind_res_eq_Inr polled_def tb_ended_def fun_eq_iff
      split: option.splits if_splits)

lemma FMTLOG_frame:
  assumes "FMTLOG env tid own full current i loc level format args b = Inr (True, i', own', b')"
  shows "l_tscns b' = l_tscns b" "l_kern b' = snd (rdtsc (e_clocks env) (l_kern b))"
proof -
  obtain tsc k where k: "rdtsc (e_clocks env) (l_kern b) = (tsc, k)" by fastforce
  obtain b1 t where b1: "register_stmt env i loc level format args (b\<lparr>l_kern := k\<rparr>) = Inr (i', b1)"
    "store_in tid own full (log_stmt (of_int tsc) i' args) b1 = Inr (True, t, b')"
    using assms by (auto simp: FMTLOG_def fmtlog_log_def bind_res_eq_Inr k split: if_splits)
  show "l_tscns b' = l_tscns b" "l_kern b' = snd (rdtsc (e_clocks env) (l_kern b))"
    using register_frame(4,7) [OF b1(1)] store_in_frame(5,6) [OF b1(2)] k by simp_all
qed

text \<open>The buffer a thread logs to.\<close>

definition own_buffer :: "('k, 'f) log_run \<Rightarrow> nat \<Rightarrow> nat" where
  "own_buffer r tid = (case run_owner r tid of None \<Rightarrow> l_next_buffer (run_backend r) | Some u \<Rightarrow> u)"

lemma run_caller:
  assumes inv: "run_inv env files sites text0 r xs hs lines"
  shows "caller_buffer all_idle (run_backend r) (run_owner r tid) xs (own_buffer r tid)"
proof -
  note i = run_invD [OF inv]
  have "l_next_buffer (run_backend r) \<notin> polled (run_backend r)" using i(10) by blast
  then show ?thesis
    using i(9,11) by (auto simp: caller_buffer_def own_buffer_def owners_ok_def all_idle_def split: option.splits)
qed

text \<open>What waits in a thread's buffer was logged by it.\<close>

lemma waiting_logged:
  assumes inv: "run_inv env files sites text0 r xs hs lines" and x: "x \<in> set (xs u)"
  shows "\<exists>tx. (u, x, tx) \<in> set (run_logged r)"
proof -
  have "x \<in> set (handled_of u (map entry_msg (run_logged r)))"
    using x run_invD(3) [OF inv] by simp
  then show ?thesis
    by (force simp: handled_of_def entry_msg_def)
qed

lemma run_inv_register:
  assumes inv: "run_inv env files sites text0 r xs hs lines"
    and fmt: "unNameFormat (e_name_start env) False (site_format (sites s)) [] (map type_name (site_types (sites s))) =
      Inr (unnamed, [])"
    and args: "map type_of args = site_types (sites s)"
    and small: "length (l_bgLogInfos (poll_collect (run_backend r))) < 2 ^ 32"
  shows "\<exists>i b1. register_stmt env (run_ids r s) (site_loc (sites s)) (site_level (sites s)) (site_format (sites s)) args
      (run_backend r) = Inr (i, b1) \<and>
    run_inv env files sites text0 (r\<lparr>run_backend := b1, run_ids := (run_ids r)(s := i)\<rparr>) xs hs lines \<and>
    site_known env (l_bgLogInfos (poll_collect b1)) (sites s) i"
proof (cases "run_ids r s = 0")
  case False
  have "r\<lparr>run_backend := run_backend r, run_ids := (run_ids r)(s := run_ids r s)\<rparr> = r" by simp
  then show ?thesis
    using False inv run_invD(8) [OF inv False] by (simp add: register_stmt_def)
next
  case True
  let ?b = "run_backend r"
  note i = run_invD [OF inv]
  obtain k b1 where b1: "register_stmt env 0 (site_loc (sites s)) (site_level (sites s)) (site_format (sites s)) args ?b = Inr (k, b1)"
    "backend_ok all_idle env b1 xs" "unat k < length (l_bgLogInfos (poll_collect b1))"
    "formatToFn (l_bgLogInfos (poll_collect b1) ! unat k) = Some (map type_of args)"
    "formatString (l_bgLogInfos (poll_collect b1) ! unat k) = unnamed"
    using register_stmt_ok [OF i(1) run_caller [OF inv], of "site_format (sites s)" args unnamed]
      fmt small arg_names_types [OF args] by metis
  note fr = register_frame [OF b1(1)]
  obtain js where js: "l_bgLogInfos (poll_collect b1) = l_bgLogInfos (poll_collect ?b) @ js"
    using fr(8) by blast
  have known: "site_known env (l_bgLogInfos (poll_collect b1)) (sites s) k"
    using b1(3-5) fmt args by (simp add: site_known_def)
  have "log_text files b1 = log_text files ?b"
    using fr by (intro log_text_eq) simp_all
  moreover have "owners_ok b1 (run_owner r)"
    using i(9) fr by (simp add: owners_ok_def)
  moreover have "list_all2 (\<lambda>p line. line_of env (l_bgLogInfos (poll_collect b1)) (snd p) line) hs lines"
    using i(4) by (rule list_all2_mono) (simp add: js known_append(3))
  ultimately have "run_inv env files sites text0 (r\<lparr>run_backend := b1, run_ids := (run_ids r)(s := k)\<rparr>) xs hs lines"
    using i b1(2) fr known by (intro run_invI) (auto simp: js known_append levels_known_append split: if_splits)
  then show ?thesis
    using True b1(1) known by auto
qed

lemma run_inv_limits [simp]:
  "run_inv env files sites text0 (r\<lparr>run_limits := l\<rparr>) xs hs lines = run_inv env files sites text0 r xs hs lines"
  by (simp add: run_inv_def)

text \<open>A thread gets a buffer of its own, unless it has one.\<close>

lemma owners_ok_take:
  assumes "owners_ok b own" "\<And>u. u \<in> polled b \<Longrightarrow> u < l_next_buffer b"
    and "t = (case own tid of None \<Rightarrow> l_next_buffer b | Some u \<Rightarrow> u)"
      "polled b' = (case own tid of None \<Rightarrow> insert t (polled b) | Some u \<Rightarrow> polled b)"
      "tb_ended (l_buffers b') =
         (case own tid of None \<Rightarrow> (tb_ended (l_buffers b))(t := Some False) | Some u \<Rightarrow> tb_ended (l_buffers b))"
  shows "owners_ok b' (own(tid := Some t))"
  using assms by (cases "own tid") (fastforce simp: owners_ok_def)+

text \<open>A message that fits and can be read is stored in the thread's queue, or dropped.\<close>

lemma run_inv_put:
  assumes inv: "run_inv env files sites text0 r xs hs lines"
    and x: "msg_fits x" "msg_readable env (l_bgLogInfos (poll_collect (run_backend r))) x"
      "msg_body env (l_bgLogInfos (poll_collect (run_backend r)) ! unat (fst x)) (snd x) = Inr txt"
    and store: "\<And>q. store q = log_put x q" and tid: "length (dec_of_nat tid) \<le> 32"
    and order: "\<forall>u y ty. run_owner r tid = Some u \<longrightarrow> (u, y, ty) \<in> set (run_logged r) \<longrightarrow> tsc_of y \<le> tsc_of x"
    and full: "\<forall>fp k. files fp (full k) = files fp k"
  defines "t \<equiv> own_buffer r tid"
  shows "\<exists>ok b'. store_in tid (run_owner r tid) full store (run_backend r) = Inr (ok, t, b') \<and>
    run_inv env files sites text0 (run_stored tid ok (Some t) x txt b' r) (if ok then xs(t := xs t @ [x]) else xs) hs lines"
proof -
  let ?b = "run_backend r"
  note i = run_invD [OF inv] and caller = run_caller [OF inv, of tid, folded t_def]
  have young: "\<forall>y \<in> set (xs t). tsc_of y \<le> tsc_of x"
    using caller waiting_logged [OF inv, of _ t] order by (fastforce simp: caller_buffer_def split: option.splits)
  obtain ok b' where st: "store_in tid (run_owner r tid) full store ?b = Inr (ok, t, b')"
    "backend_ok all_idle env b' (if ok then xs(t := xs t @ [x]) else xs)" "same_backend ?b b'" "t \<in> polled b'"
    using store_in_ok [OF i(1) caller tid x(1,2) young, of store full] store by blast
  note fr = store_in_frame [OF st(1)]
  have infos: "l_bgLogInfos (poll_collect b') = l_bgLogInfos (poll_collect ?b)"
    using st(3) by (simp add: same_backend_def)
  have "log_text files b' = log_text files ?b"
    using st(3) fr(5) full by (intro log_text_eq) (simp_all add: same_backend_def)
  moreover have "owners_ok b' ((run_owner r)(tid := Some t))"
    using i(9,10) fr(1,3,4) by (rule owners_ok_take)
  moreover have "entry_ok env (l_bgLogInfos (poll_collect ?b)) (t, x, txt)"
    using x(2,3) by (simp add: entry_ok_def msg_readable_def)
  moreover have "t < l_next_buffer b'" "\<And>u. u < l_next_buffer ?b \<Longrightarrow> u < l_next_buffer b'"
    "\<And>u. u \<in> polled b' \<Longrightarrow> u < l_next_buffer b'" "\<And>u. u \<notin> polled b' \<Longrightarrow> u \<notin> polled ?b"
    using i(10) fr(1-3) caller by (auto simp: caller_buffer_def intro: less_SucI split: option.splits)
  ultimately show ?thesis
    using st(1,2,4) i unfolding run_stored_def
    by (intro exI [of _ ok] exI [of _ b'] conjI run_invI) (auto simp: infos entry_msg_def)
qed

text \<open>The timestamp of a statement is read from the clock, and nothing else happens.\<close>

lemma run_inv_clock:
  assumes inv: "run_inv env files sites text0 r xs hs lines" and law: "file_law env files"
    and allowed: "thread_allowed env files r tid tsc n full"
  obtains k where "rdtsc (e_clocks env) (l_kern (run_backend r)) = (tsc, k)"
    "run_inv env files sites text0 (r\<lparr>run_backend := run_backend r\<lparr>l_kern := k\<rparr>\<rparr>) xs hs lines"
    "sint (of_int tsc :: u64) = tsc" "\<And>fp. files fp k = files fp (l_kern (run_backend r))"
proof -
  have tsc: "fst (rdtsc (e_clocks env) (l_kern (run_backend r))) = tsc" "- (2 ^ 63) \<le> tsc" "tsc < 2 ^ 63"
    using allowed unfolding thread_allowed_def by blast+
  obtain k where k: "rdtsc (e_clocks env) (l_kern (run_backend r)) = (tsc, k)"
    using tsc(1) by (metis prod.collapse)
  have same: "files fp k = files fp (l_kern (run_backend r))" for fp
    using law k by (metis file_law_def snd_conv)
  then have "run_inv env files sites text0 (r\<lparr>run_backend := run_backend r\<lparr>l_kern := k\<rparr>\<rparr>) xs hs lines"
    using run_inv_other [OF inv] by blast
  moreover have "sint (of_int tsc :: u64) = tsc"
    using tsc(2,3) by (simp add: sint_sbintrunc' signed_take_bit_int_eq_self)
  ultimately show thesis
    using that k same by blast
qed

text \<open>\<open>log\<close>, which \<open>FMTLOG\<close> and \<open>FMTLOG_LIMIT\<close> call once the clock is read.\<close>

lemma run_inv_fmtlog:
  assumes inv: "run_inv env files sites text0 (r\<lparr>run_backend := run_backend r\<lparr>l_kern := k\<rparr>\<rparr>) xs hs lines"
    and allowed: "log_allowed env files (sites s) r tid tsc args unnamed full" and sint: "sint (of_int tsc :: u64) = tsc"
  defines "t \<equiv> own_buffer r tid"
  shows "\<exists>ok logId b' xs'.
    fmtlog_log env tid (run_owner r tid) full (run_ids r s) (of_int tsc) (site_loc (sites s)) (site_level (sites s))
      (site_format (sites s)) args ((run_backend r)\<lparr>l_kern := k\<rparr>) = Inr (ok, logId, t, b') \<and>
    run_inv env files sites text0
      (run_stored tid ok (Some t) (log_bytes (of_int tsc) logId args) (fmt_body env unnamed (map arg_val args)) b'
        (r\<lparr>run_ids := (run_ids r)(s := logId)\<rparr>)) xs' hs lines \<and>
    (run_owner r tid = None \<and> sum_list (map arg_size args) + 23 < 2 ^ 19 \<longrightarrow> ok)"
proof -
  have a: "map type_of args = site_types (sites s)" "\<forall>a \<in> set args. arg_ok a"
    "length (l_bgLogInfos (poll_collect (run_backend r))) < 2 ^ 32"
    "unNameFormat (e_name_start env) False (site_format (sites s)) [] (map type_name (site_types (sites s))) = Inr (unnamed, [])"
    and ta: "thread_allowed env files r tid tsc (8 + sum_list (map arg_size args)) full"
    using allowed unfolding log_allowed_def by blast+
  have th: "\<forall>u x tx. run_owner r tid = Some u \<longrightarrow> (u, x, tx) \<in> set (run_logged r) \<longrightarrow> tsc_of x \<le> tsc"
    "sum_list (map arg_size args) + 23 < 2 ^ 32" "length (dec_of_nat tid) \<le> 32" "\<forall>fp k. files fp (full k) = files fp k"
    using ta unfolding thread_allowed_def by (blast, simp, blast, blast)
  obtain i b1 where b1: "register_stmt env (run_ids r s) (site_loc (sites s)) (site_level (sites s)) (site_format (sites s)) args
      ((run_backend r)\<lparr>l_kern := k\<rparr>) = Inr (i, b1)"
    "run_inv env files sites text0 (r\<lparr>run_backend := b1, run_ids := (run_ids r)(s := i)\<rparr>) xs hs lines"
    "site_known env (l_bgLogInfos (poll_collect b1)) (sites s) i"
    using run_inv_register [OF inv, of s unnamed args] a by auto
  let ?r1 = "r\<lparr>run_backend := b1, run_ids := (run_ids r)(s := i)\<rparr>" and ?x = "log_bytes (of_int tsc) i args"
  have info: "unat i < length (l_bgLogInfos (poll_collect b1))"
    "formatToFn (l_bgLogInfos (poll_collect b1) ! unat i) = Some (map type_of args)"
    "formatString (l_bgLogInfos (poll_collect b1) ! unat i) = unnamed"
    using b1(3) a(1,4) by (simp_all add: site_known_def)
  have t: "own_buffer ?r1 tid = t"
    using register_frame(2) [OF b1(1)] by (simp add: t_def own_buffer_def cong: option.case_cong)
  note msg = stmt_message [OF info(1,2) a(2) th(2)]
  have "\<exists>ok b'. store_in tid (run_owner ?r1 tid) full (log_stmt (of_int tsc) i args) (run_backend ?r1) =
      Inr (ok, own_buffer ?r1 tid, b') \<and>
    run_inv env files sites text0 (run_stored tid ok (Some (own_buffer ?r1 tid)) ?x (fmt_body env unnamed (map arg_val args)) b' ?r1)
      (if ok then xs(own_buffer ?r1 tid := xs (own_buffer ?r1 tid) @ [?x]) else xs) hs lines"
    using msg info a(2) th stmt_body [OF info(2) a(2)] sint
    by (intro run_inv_put [OF b1(2)]) simp_all
  then obtain ok b2 where b2: "store_in tid (run_owner r tid) full (log_stmt (of_int tsc) i args) b1 = Inr (ok, t, b2)"
    "run_inv env files sites text0 (run_stored tid ok (Some t) ?x (fmt_body env unnamed (map arg_val args)) b2 ?r1)
      (if ok then xs(t := xs t @ [?x]) else xs) hs lines"
    unfolding t by auto
  have "run_stored tid ok (Some t) ?x tx b2 ?r1 = run_stored tid ok (Some t) ?x tx b2 (r\<lparr>run_ids := (run_ids r)(s := i)\<rparr>)" for tx
    by (simp add: run_stored_def)
  note inv2 = b2(2) [unfolded this]
  have "run_owner r tid = None \<Longrightarrow> sum_list (map arg_size args) + 23 < 2 ^ 19 \<Longrightarrow> ok"
    using b2(1) stmt_stored_new a(2) by metis
  then show ?thesis
    using b1(1) b2(1) inv2 by (intro exI [of _ ok] exI [of _ i] exI [of _ b2] exI conjI) (auto simp: fmtlog_log_def)
qed

text \<open>Nothing happens.\<close>

lemma run_stored_none:
  "run_stored tid False (run_owner r tid) x txt (run_backend r) (r\<lparr>run_ids := (run_ids r)(s := run_ids r s)\<rparr>) = r"
  "run_stored tid False (run_owner r tid) x txt (run_backend r) r = r"
  by (simp_all add: run_stored_def)

lemma run_inv_log:
  assumes inv: "run_inv env files sites text0 r xs hs lines" and law: "file_law env files"
    and allowed: "log_allowed env files (sites s) r tid tsc args unnamed full"
  shows "\<exists>ok logId own' b' xs'.
    FMTLOG env tid (run_owner r tid) full current (run_ids r s) (site_loc (sites s)) (site_level (sites s))
      (site_format (sites s)) args (run_backend r) = Inr (ok, logId, own', b') \<and>
    run_inv env files sites text0
      (run_stored tid ok own' (log_bytes (of_int tsc) logId args) (fmt_body env unnamed (map arg_val args)) b'
        (r\<lparr>run_ids := (run_ids r)(s := logId)\<rparr>)) xs' hs lines \<and>
    (checkLogLevel current (site_level (sites s)) \<and> run_owner r tid = None \<and>
       sum_list (map arg_size args) + 23 < 2 ^ 19 \<longrightarrow> ok)"
proof (cases "checkLogLevel current (site_level (sites s))")
  case False
  then show ?thesis
    using inv by (intro exI [of _ False] exI [of _ "run_ids r s"] exI [of _ "run_owner r tid"] exI [of _ "run_backend r"] exI [of _ xs])
      (simp add: FMTLOG_def run_stored_none)
next
  case True
  obtain k where k: "rdtsc (e_clocks env) (l_kern (run_backend r)) = (tsc, k)"
    "run_inv env files sites text0 (r\<lparr>run_backend := run_backend r\<lparr>l_kern := k\<rparr>\<rparr>) xs hs lines"
    "sint (of_int tsc :: u64) = tsc"
    using run_inv_clock [OF inv law] allowed unfolding log_allowed_def by metis
  obtain ok logId b' xs' where log: "fmtlog_log env tid (run_owner r tid) full (run_ids r s) (of_int tsc) (site_loc (sites s))
      (site_level (sites s)) (site_format (sites s)) args ((run_backend r)\<lparr>l_kern := k\<rparr>) = Inr (ok, logId, own_buffer r tid, b')"
    and inv': "run_inv env files sites text0 (run_stored tid ok (Some (own_buffer r tid)) (log_bytes (of_int tsc) logId args)
        (fmt_body env unnamed (map arg_val args)) b' (r\<lparr>run_ids := (run_ids r)(s := logId)\<rparr>)) xs' hs lines"
    and new: "run_owner r tid = None \<and> sum_list (map arg_size args) + 23 < 2 ^ 19 \<longrightarrow> ok"
    using run_inv_fmtlog [OF k(2) allowed k(3)] by blast
  have "FMTLOG env tid (run_owner r tid) full current (run_ids r s) (site_loc (sites s)) (site_level (sites s))
      (site_format (sites s)) args (run_backend r) = Inr (ok, logId, Some (own_buffer r tid), b')"
    using log True k(1) by (simp add: FMTLOG_def)
  then show ?thesis
    using inv' new by blast
qed

text \<open>\<open>FMTLOG_LIMIT\<close> returns: no calibration is going on, so the clock can be read.\<close>

lemma run_inv_limit:
  assumes inv: "run_inv env files sites text0 r xs hs lines" and law: "file_law env files"
    and allowed: "log_allowed env files (sites s) r tid tsc args unnamed full"
  shows "\<exists>ok logId limitNs own' b' xs'.
    FMTLOG_LIMIT env tid (run_owner r tid) full current interval (run_ids r s) (run_limits r s) (site_loc (sites s))
      (site_level (sites s)) (site_format (sites s)) args (run_backend r) = Some (Inr (ok, logId, limitNs, own', b')) \<and>
    run_inv env files sites text0
      (run_stored tid ok own' (log_bytes (of_int tsc) logId args) (fmt_body env unnamed (map arg_val args)) b'
        (r\<lparr>run_ids := (run_ids r)(s := logId), run_limits := (run_limits r)(s := limitNs)\<rparr>)) xs' hs lines"
proof (cases "checkLogLevel current (site_level (sites s))")
  case False
  then show ?thesis
    using inv by (intro exI [of _ False] exI [of _ "run_ids r s"] exI [of _ "run_limits r s"] exI [of _ "run_owner r tid"]
        exI [of _ "run_backend r"] exI [of _ xs]) (simp add: FMTLOG_LIMIT_def run_stored_none)
next
  case True
  obtain k where k: "rdtsc (e_clocks env) (l_kern (run_backend r)) = (tsc, k)"
    "run_inv env files sites text0 (r\<lparr>run_backend := run_backend r\<lparr>l_kern := k\<rparr>\<rparr>) xs hs lines"
    "sint (of_int tsc :: u64) = tsc"
    using run_inv_clock [OF inv law] allowed unfolding log_allowed_def by metis
  have lim: "run_stored tid ok own' x tx b' (r'\<lparr>run_limits := l\<rparr>) = (run_stored tid ok own' x tx b' r')\<lparr>run_limits := l\<rparr>"
    for ok own' x tx b' l and r' :: "('a, 'b) log_run" by (simp add: run_stored_def)
  obtain ns where ns: "tsc2ns (e_double env) tsc (l_tscns (run_backend r)) = Some ns"
    using tsc2ns_Some run_invD(1) [OF inv] unfolding backend_ok_def by blast
  show ?thesis
  proof (cases "ns < run_limits r s")
    case True
    let ?b = "(run_backend r)\<lparr>l_kern := k\<rparr>"
    have "run_stored tid False (run_owner r tid) x tx ?b (r\<lparr>run_ids := (run_ids r)(s := run_ids r s)\<rparr>) =
        r\<lparr>run_backend := ?b\<rparr>" for x tx
      by (simp add: run_stored_def)
    then show ?thesis
      using True k(1,2) ns \<open>checkLogLevel _ _\<close>
      by (intro exI [of _ False] exI [of _ "run_ids r s"] exI [of _ "run_limits r s"] exI [of _ "run_owner r tid"]
        exI [of _ ?b] exI [of _ xs]) (simp add: FMTLOG_LIMIT_def lim)
  next
    case False
    obtain ok logId b' xs' where log: "fmtlog_log env tid (run_owner r tid) full (run_ids r s) (of_int tsc) (site_loc (sites s))
        (site_level (sites s)) (site_format (sites s)) args ((run_backend r)\<lparr>l_kern := k\<rparr>) = Inr (ok, logId, own_buffer r tid, b')"
      and inv': "run_inv env files sites text0 (run_stored tid ok (Some (own_buffer r tid)) (log_bytes (of_int tsc) logId args)
          (fmt_body env unnamed (map arg_val args)) b' (r\<lparr>run_ids := (run_ids r)(s := logId)\<rparr>)) xs' hs lines"
      using run_inv_fmtlog [OF k(2) allowed k(3)] by blast
    have "FMTLOG_LIMIT env tid (run_owner r tid) full current interval (run_ids r s) (run_limits r s) (site_loc (sites s))
        (site_level (sites s)) (site_format (sites s)) args (run_backend r) =
        Some (Inr (ok, logId, ns + interval, Some (own_buffer r tid), b'))"
      using log True False k(1) ns by (simp add: FMTLOG_LIMIT_def)
    then show ?thesis
      using inv' lim run_inv_limits by metis
  qed
qed

lemma run_inv_once:
  assumes inv: "run_inv env files sites text0 r xs hs lines" and law: "file_law env files"
    and allowed: "once_allowed env files r tid tsc level txt full" and shown: "txt = fmt_body env format (map arg_val args)"
  shows "\<exists>ok own' b' xs'.
    FMTLOG_ONCE env tid (run_owner r tid) full current loc_addr level format args (run_backend r) = Inr (ok, own', b') \<and>
    run_inv env files sites text0 (run_stored tid ok own' (once_bytes (of_int tsc) loc_addr level txt) txt b' r) xs' hs lines"
proof (cases "checkLogLevel current level")
  case False
  then show ?thesis
    using inv by (intro exI [of _ False] exI [of _ "run_owner r tid"] exI [of _ "run_backend r"] exI [of _ xs])
      (simp add: FMTLOG_ONCE_def run_stored_none)
next
  case True
  have level: "level \<noteq> L_OFF" and ta: "thread_allowed env files r tid tsc (16 + length txt) full"
    using allowed by (simp_all add: once_allowed_def)
  obtain k where k: "rdtsc (e_clocks env) (l_kern (run_backend r)) = (tsc, k)" "sint (of_int tsc :: u64) = tsc"
    "\<And>fp. files fp k = files fp (l_kern (run_backend r))"
    using run_inv_clock [OF inv law ta] by blast
  have th: "\<forall>u x tx. run_owner r tid = Some u \<longrightarrow> (u, x, tx) \<in> set (run_logged r) \<longrightarrow> tsc_of x \<le> tsc"
    "length txt + 31 < 2 ^ 32" "length (dec_of_nat tid) \<le> 32" "\<forall>fp k. files fp (full k) = files fp k"
    using ta unfolding thread_allowed_def by (blast, simp, blast, blast)
  note msg = once_message [OF run_invD(2) [OF inv] level th(2)]
  have order: "\<forall>u y ty. run_owner r tid = Some u \<longrightarrow> (u, y, ty) \<in> set (run_logged r) \<longrightarrow>
      tsc_of y \<le> tsc_of (once_bytes (of_int tsc) loc_addr level txt)"
    unfolding msg(4) k(2) by (rule th(1))
  obtain ok b' where st: "store_in tid (run_owner r tid) full
      (logOnce (of_int tsc) loc_addr (of_nat (level_num level)) (bytes_of txt)) (run_backend r) = Inr (ok, own_buffer r tid, b')"
    "\<exists>xs'. run_inv env files sites text0
      (run_stored tid ok (Some (own_buffer r tid)) (once_bytes (of_int tsc) loc_addr level txt) txt b' r) xs' hs lines"
    using run_inv_put [OF inv msg(1-3,5) th(3) order th(4)] by blast
  let ?b = "if ok then b'\<lparr>l_kern := k\<rparr> else b'"
  have "\<exists>xs'. run_inv env files sites text0
      (run_stored tid ok (Some (own_buffer r tid)) (once_bytes (of_int tsc) loc_addr level txt) txt ?b r) xs' hs lines"
  proof (cases ok)
    case True
    let ?r = "run_stored tid True (Some (own_buffer r tid)) (once_bytes (of_int tsc) loc_addr level txt) txt b' r"
    obtain xs' where xs': "run_inv env files sites text0 ?r xs' hs lines"
      using st(2) True by auto
    have "\<forall>fp. files fp k = files fp (l_kern (run_backend ?r))"
      using store_in_frame(5) [OF st(1)] True k(3) by (simp add: run_stored_def)
    note inv' = run_inv_other [OF xs' this]
    have "run_stored tid True own' x tx (b'\<lparr>l_kern := k\<rparr>) r = (run_stored tid True own' x tx b' r)\<lparr>run_backend :=
        (run_backend (run_stored tid True own' x tx b' r))\<lparr>l_kern := k\<rparr>\<rparr>" for own' x tx
      by (simp add: run_stored_def)
    then show ?thesis
      using inv' True by auto
  qed (use st(2) in simp)
  moreover have "FMTLOG_ONCE env tid (run_owner r tid) full current loc_addr level format args (run_backend r) =
      Inr (ok, Some (own_buffer r tid), ?b)"
    using True k(1) st(1) shown by (simp add: FMTLOG_ONCE_def logOnce_stmt_def)
  ultimately show ?thesis by blast
qed

section \<open>Names and options\<close>

lemma node_ok_rename:
  assumes "bufs u = Some T" "length nm \<le> 32"
  shows "node_ok ph bufs nd ys \<Longrightarrow> node_ok ph (bufs(u \<mapsto> T\<lparr>tb_name := take 32 nm, nameSize := length nm\<rparr>)) nd ys"
  using assms by (cases "node_tb nd = u") (simp_all add: node_ok_def)

lemma run_inv_name:
  assumes inv: "run_inv env files sites text0 r xs hs lines"
    and nm: "length nm \<le> 32" "length (dec_of_nat tid) \<le> 32"
  shows "\<exists>t b'. setThreadName tid (run_owner r tid) nm (run_backend r) = Inr (t, b') \<and>
    run_inv env files sites text0 (r\<lparr>run_backend := b', run_owner := (run_owner r)(tid := Some t)\<rparr>) xs hs lines"
proof -
  let ?b = "run_backend r" and ?t = "own_buffer r tid"
  note i = run_invD [OF inv] and caller = run_caller [OF inv, of tid]
  obtain b1 where b1: "preallocate tid (run_owner r tid) ?b = (?t, b1)" "backend_ok all_idle env b1 xs"
    "same_backend ?b b1" "?t \<in> polled b1" "l_kern b1 = l_kern ?b"
    using preallocate_ok [OF i(1) caller nm(2)] by blast
  obtain nd where "nd \<in> set (l_bgThreadBuffers (poll_collect b1))" "?t = node_tb nd"
    using b1(4) poll_collect_frame(4) [of b1] by blast
  then obtain T where T: "l_buffers b1 ?t = Some T"
    using b1(2) by (fastforce simp: backend_ok_def queues_ok_def node_ok_def)
  let ?T = "T\<lparr>tb_name := take 32 nm, nameSize := length nm\<rparr>"
  let ?b' = "b1\<lparr>l_buffers := (l_buffers b1)(?t \<mapsto> ?T)\<rparr>"
  have fr: "l_next_buffer b1 = (case run_owner r tid of None \<Rightarrow> Suc (l_next_buffer ?b) | Some u \<Rightarrow> l_next_buffer ?b)"
    "polled b1 = (case run_owner r tid of None \<Rightarrow> insert ?t (polled ?b) | Some u \<Rightarrow> polled ?b)"
    "tb_ended (l_buffers b1) =
       (case run_owner r tid of None \<Rightarrow> (tb_ended (l_buffers ?b))(?t := Some False) | Some u \<Rightarrow> tb_ended (l_buffers ?b))"
    using b1(1) by (auto simp: preallocate_def Let_def polled_def tb_ended_def fun_eq_iff split: option.splits)
  have c: "l_bgLogInfos (poll_collect ?b') = l_bgLogInfos (poll_collect ?b)"
    "l_bgThreadBuffers (poll_collect ?b') = l_bgThreadBuffers (poll_collect b1)" "polled ?b' = polled b1"
    using b1(3) by (simp_all add: collected_nodes polled_def same_backend_def)
  have t: "?t = (case run_owner r tid of None \<Rightarrow> l_next_buffer ?b | Some u \<Rightarrow> u)"
    by (rule own_buffer_def)
  have ended: "tb_ended (l_buffers ?b') = tb_ended (l_buffers b1)"
    using T by (simp add: tb_ended_def fun_eq_iff)
  have "backend_ok all_idle env ?b' xs"
    using b1(2,3) node_ok_rename [where bufs = "l_buffers b1", OF T nm(1)] by (auto simp: backend_ok_def queues_ok_def c same_backend_def simp del: fun_upd_apply)
  moreover have "log_text files ?b' = log_text files ?b"
    using b1(3,5) by (intro log_text_eq) (simp_all add: same_backend_def)
  moreover have "owners_ok ?b' ((run_owner r)(tid := Some ?t))"
    using i(9,10) t fr(2,3) unfolding c(3) [symmetric] ended [symmetric] by (rule owners_ok_take)
  moreover have "\<And>u. u < l_next_buffer ?b \<Longrightarrow> u < l_next_buffer b1" "\<And>u. u \<in> polled b1 \<Longrightarrow> u < l_next_buffer b1"
    "\<And>u. u \<notin> polled b1 \<Longrightarrow> u \<notin> polled ?b"
    using i(10) fr(1,2) t by (auto intro: less_SucI split: option.splits)
  ultimately have "run_inv env files sites text0 (r\<lparr>run_backend := ?b', run_owner := (run_owner r)(tid := Some ?t)\<rparr>) xs hs lines"
    using i by (intro run_invI) (simp_all add: c)
  then show ?thesis
    using b1(1) T by (intro exI [of _ ?t] exI [of _ ?b']) (simp add: setThreadName_def)
qed

lemma run_inv_set:
  assumes inv: "run_inv env files sites text0 r xs hs lines" and set: "set_option env (run_backend r) b'"
  shows "run_inv env files sites text0 (r\<lparr>run_backend := b'\<rparr>) xs hs lines"
proof -
  let ?b = "run_backend r"
  have f: "l_bgLogInfos b' = l_bgLogInfos ?b" "l_logInfos b' = l_logInfos ?b" "l_threadBuffers b' = l_threadBuffers ?b"
    "l_bgThreadBuffers b' = l_bgThreadBuffers ?b" "l_buffers b' = l_buffers ?b" "l_next_buffer b' = l_next_buffer ?b"
    "l_tscns b' = l_tscns ?b" "l_outputFp b' = l_outputFp ?b" "l_membuf b' = l_membuf ?b" "l_kern b' = l_kern ?b"
    using set by (auto simp: set_option_def setFlushDelay_def flushOn_def setFlushBufSize_def setLogCB_def
        set_header_pattern_def bind_res_eq_Inr)
  then have c: "l_bgLogInfos (poll_collect b') = l_bgLogInfos (poll_collect ?b)"
    "l_bgThreadBuffers (poll_collect b') = l_bgThreadBuffers (poll_collect ?b)" "polled b' = polled ?b"
    by (simp_all add: collected_nodes polled_def)
  have "log_text files b' = log_text files ?b"
    using f by (intro log_text_eq) simp_all
  then show ?thesis
    using inv f c by (simp add: run_inv_def backend_ok_def owners_ok_def Let_def)
qed

section \<open>Every reachable state\<close>

lemma run_step_inv:
  assumes "run_step env files sites r r'" "run_inv env files sites text0 r xs hs lines" "file_law env files"
  shows "\<exists>xs' hs' lines'. run_inv env files sites text0 r' xs' hs' lines'"
  using assms(1)
proof cases
  case (Log s tid tsc args unnamed full current ok logId own' b')
  show ?thesis
    using run_inv_log [OF assms(2,3) Log(2), of current] unfolding Log(1,3)
    by (simp only: sum.inject prod.inject) blast
next
  case (Limit s tid tsc args unnamed full current interval ok logId limitNs own' b')
  show ?thesis
    using run_inv_limit [OF assms(2,3) Limit(2), of current interval] unfolding Limit(1,3)
    by (simp only: option.inject sum.inject prod.inject) blast
next
  case (Once tid tsc level format args full current loc_addr ok own' b')
  show ?thesis
    using run_inv_once [OF assms(2,3) Once(2) refl, of current loc_addr] unfolding Once(1,3)
    by (simp only: sum.inject prod.inject) blast
next
  case (Name nm tid t b')
  then show ?thesis
    using run_inv_name [OF assms(2) Name(2,3)] by auto
next
  case (Poll force b')
  then show ?thesis
    using poll_has_time [OF Poll(2)] run_inv_poll [OF assms(2,3), of _ force] by fastforce
next
  case (Exit tid u b')
  then show ?thesis
    using run_inv_exit [OF assms(2) Exit(2)] by auto
next
  case (Set b')
  then show ?thesis
    using run_inv_set [OF assms(2)] by blast
next
  case (Other k)
  then show ?thesis
    using run_inv_other [OF assms(2)] by blast
qed

lemma run_reach_inv:
  assumes "run_reach env files sites r0 r" "run_start env r0" "file_law env files"
  shows "\<exists>xs hs lines. run_inv env files sites (log_text files (run_backend r0)) r xs hs lines"
  using assms(1)
proof induction
  case Start
  show ?case using run_inv_start [OF assms(2)] by blast
next
  case (Step r r')
  then show ?case using run_step_inv assms(3) by blast
qed

section \<open>The polling thread\<close>

lemma run_reach_trans:
  assumes "run_reach env files sites r1 r2" "run_reach env files sites r0 r1"
  shows "run_reach env files sites r0 r2"
  using assms by induction (auto intro: run_reach.Step)

text \<open>
  A clock that can be calibrated again and again from parameters that satisfy \<open>good\<close>, and a sleep that
  writes to no file.
\<close>

definition steady_clock :: "('k, 'f) log_env \<Rightarrow> ('f tscns \<Rightarrow> bool) \<Rightarrow> bool" where
  "steady_clock env good \<longleftrightarrow> (\<forall>k s. good s \<longrightarrow>
     (\<exists>s' k'. calibrate (e_double env) (e_clocks env) k s = Some (Inr (s', k')) \<and> good s'))"

definition sleep_law :: "(nat \<Rightarrow> 'k \<Rightarrow> string) \<Rightarrow> (int \<Rightarrow> 'k \<Rightarrow> 'k) \<Rightarrow> bool" where
  "sleep_law files sleep_for \<longleftrightarrow> (\<forall>ns k fp. files fp (sleep_for ns k) = files fp k)"

lemma steady_poll_time:
  "steady_clock env good \<Longrightarrow> good (l_tscns b) \<Longrightarrow> \<exists>tsc. poll_time env b tsc"
  unfolding steady_clock_def poll_time_def by (metis surj_pair)

lemma steady_poll:
  assumes "run_inv env files sites text0 r xs hs lines" "file_law env files" "steady_clock env good"
    "good (l_tscns (run_backend r))"
  shows "\<exists>b' xs' hs' lines'. poll env force (run_backend r) = Some (Inr b') \<and> good (l_tscns b') \<and>
    l_outputFp b' = l_outputFp (run_backend r) \<and>
    run_inv env files sites text0 (r\<lparr>run_backend := b'\<rparr>) xs' hs' lines'"
proof -
  obtain tsc where "poll_time env (run_backend r) tsc"
    using steady_poll_time [OF assms(3,4)] by blast
  then obtain b' hs' lines' k where b': "poll env force (run_backend r) = Some (Inr b')"
    "run_inv env files sites text0 (r\<lparr>run_backend := b'\<rparr>) (younger tsc xs) (hs @ hs') (lines @ lines')"
    "l_outputFp b' = l_outputFp (run_backend r)"
    "calibrate (e_double env) (e_clocks env) (l_kern (run_backend r)) (l_tscns (run_backend r)) = Some (Inr (l_tscns b', k))"
    using run_inv_poll [OF assms(1,2)] by blast
  have "good (l_tscns b')"
    using assms(3,4) b'(4) unfolding steady_clock_def by (metis Pair_inject option.inject sum.inject(2))
  then show ?thesis
    using b'(1-3) by blast
qed

lemma run_inv_read:
  assumes "run_inv env files sites text0 r xs hs lines" "file_law env files"
  obtains tsc k ns where "rdtsc (e_clocks env) (l_kern (run_backend r)) = (tsc, k)"
    "tsc2ns (e_double env) tsc (l_tscns (run_backend r)) = Some ns"
    "\<forall>fp. files fp k = files fp (l_kern (run_backend r))"
proof -
  obtain tsc k where k: "rdtsc (e_clocks env) (l_kern (run_backend r)) = (tsc, k)" by fastforce
  obtain ns where "tsc2ns (e_double env) tsc (l_tscns (run_backend r)) = Some ns"
    using tsc2ns_Some run_invD(1) [OF assms(1)] unfolding backend_ok_def by blast
  moreover have "\<forall>fp. files fp k = files fp (l_kern (run_backend r))"
    using assms(2) k by (metis file_law_def snd_conv)
  ultimately show thesis
    using that k by blast
qed

text \<open>
  However many rounds it makes before it is told to stop, the polling thread returns; all it does are polls,
  so that the state it leaves is one of a run.
\<close>

lemma polling_thread_runs:
  assumes "run_inv env files sites text0 r xs hs lines" "file_law env files" "steady_clock env good"
    "sleep_law files sleep_for" "good (l_tscns (run_backend r))"
  shows "\<exists>b'. polling_thread env sleep_for interval n (run_backend r) = Some (Inr b') \<and>
    run_reach env files sites r (r\<lparr>run_backend := b'\<rparr>) \<and> good (l_tscns b') \<and>
    l_outputFp b' = l_outputFp (run_backend r)"
  using assms(1,5)
proof (induction n arbitrary: r xs hs lines)
  case 0
  obtain b' where "poll env True (run_backend r) = Some (Inr b')" "good (l_tscns b')" "l_outputFp b' = l_outputFp (run_backend r)"
    using steady_poll [OF 0(1) assms(2,3) 0(2)] by blast
  then show ?case
    using run_reach.Step [OF run_reach.Start run_step.Poll] by fastforce
next
  case (Suc n)
  obtain tsc k1 ns where 1: "rdtsc (e_clocks env) (l_kern (run_backend r)) = (tsc, k1)"
    "tsc2ns (e_double env) tsc (l_tscns (run_backend r)) = Some ns"
    "\<forall>fp. files fp k1 = files fp (l_kern (run_backend r))"
    by (rule run_inv_read [OF Suc.prems(1) assms(2)])
  let ?r1 = "r\<lparr>run_backend := (run_backend r)\<lparr>l_kern := k1\<rparr>\<rparr>"
  note inv1 = run_inv_other [OF Suc.prems(1) 1(3)] and step1 = run_step.Other [OF 1(3), of env sites]
  obtain b1 xs' hs' lines' where b1: "poll env False (run_backend ?r1) = Some (Inr b1)"
    "run_inv env files sites text0 (?r1\<lparr>run_backend := b1\<rparr>) xs' hs' lines'" "good (l_tscns b1)"
    "l_outputFp b1 = l_outputFp (run_backend r)"
    using steady_poll [OF inv1 assms(2,3), of False] Suc.prems(2) by auto
  note step2 = run_step.Poll [OF b1(1), of files sites]
  obtain tsc' k2 now where 2: "rdtsc (e_clocks env) (l_kern b1) = (tsc', k2)"
    "tsc2ns (e_double env) tsc' (l_tscns b1) = Some now" "\<forall>fp. files fp k2 = files fp (l_kern b1)"
    using run_inv_read [OF b1(2) assms(2)] by auto
  define k3 where "k3 = (if now - ns < interval then sleep_for (interval - (now - ns)) k2 else k2)"
  have k3: "\<forall>fp. files fp k3 = files fp (l_kern (run_backend (?r1\<lparr>run_backend := b1\<rparr>)))"
    using assms(4) 2(3) by (simp add: k3_def sleep_law_def)
  note inv3 = run_inv_other [OF b1(2) k3] and step3 = run_step.Other [OF k3, of env sites]
  obtain b' where b': "polling_thread env sleep_for interval n (b1\<lparr>l_kern := k3\<rparr>) = Some (Inr b')"
    "run_reach env files sites (r\<lparr>run_backend := b1\<lparr>l_kern := k3\<rparr>\<rparr>) (r\<lparr>run_backend := b'\<rparr>)" "good (l_tscns b')"
    "l_outputFp b' = l_outputFp (run_backend r)"
    using Suc.IH [OF inv3] b1(3,4) by auto
  have "polling_thread env sleep_for interval (Suc n) (run_backend r) = Some (Inr b')"
    using 1(1,2) b1(1) 2(1,2) b'(1) by (simp add: Let_def k3_def)
  moreover have "run_reach env files sites r (r\<lparr>run_backend := b1\<lparr>l_kern := k3\<rparr>\<rparr>)"
    using run_reach.Step [OF run_reach.Step [OF run_reach.Step [OF run_reach.Start step1] step2] step3] by simp
  ultimately show ?case
    using run_reach_trans [OF b'(2)] b'(3,4) by blast
qed

lemma stopPollingThread_runs:
  assumes "run_inv env files sites text0 r xs hs lines" "file_law env files" "steady_clock env good"
    "sleep_law files sleep_for" "good (l_tscns (run_backend r))"
  shows "\<exists>p' b'. stopPollingThread env sleep_for n p (run_backend r) = Some (Inr (p', b')) \<and> \<not> threadRunning p' \<and>
    run_reach env files sites r (r\<lparr>run_backend := b'\<rparr>) \<and> good (l_tscns b') \<and>
    l_outputFp b' = l_outputFp (run_backend r)"
proof (cases "threadRunning p \<and> thr p \<noteq> None")
  case True
  then obtain interval where "thr p = Some interval" by blast
  then show ?thesis
    using True polling_thread_runs [OF assms, of interval n] by (auto simp: stopPollingThread_def)
next
  case False
  have "r\<lparr>run_backend := run_backend r\<rparr> = r" by simp
  then show ?thesis
    using False assms(5) by (auto simp: stopPollingThread_def run_reach.Start)
qed

section \<open>What is written and what waits\<close>

text \<open>Where the messages of a buffer are: written, each as its line, or waiting in the queue.\<close>

definition entries_of :: "nat \<Rightarrow> (nat \<times> log_msg_bytes \<times> string) list \<Rightarrow> (nat \<times> log_msg_bytes \<times> string) list" where
  "entries_of u es = filter (\<lambda>e. fst e = u) es"

definition written_as :: "nat \<times> log_msg_bytes \<times> string \<Rightarrow> string \<Rightarrow> bool" where
  "written_as e line \<longleftrightarrow> (\<exists>header. line = header @ snd (snd e) @ [CHR 0x0A])"

definition entry_for :: "('k, 'f) log_env \<Rightarrow> static_info list \<Rightarrow> nat \<times> log_msg_bytes \<Rightarrow> nat \<times> log_msg_bytes \<times> string" where
  "entry_for env infos p = (fst p, snd p, projr (msg_body env (infos ! unat (fst (snd p))) (snd (snd p))))"

lemma entry_for_msg [simp]:
  "entry_ok env infos e \<Longrightarrow> entry_for env infos (entry_msg e) = e" "entry_msg (entry_for env infos p) = p"
  by (auto simp: entry_for_def entry_msg_def entry_ok_def split: prod.splits)

lemma entries_of_map:
  "entries_of u (map (entry_for env infos) ps) = map (\<lambda>x. entry_for env infos (u, x)) (handled_of u ps)"
  by (induction ps) (auto simp: entries_of_def entry_for_def)

lemma run_inv_written:
  assumes inv: "run_inv env files sites text0 r xs hs lines"
  shows "\<exists>written. list_all2 written_as written lines \<and>
    (\<forall>u. \<exists>waiting. entries_of u (run_logged r) = entries_of u written @ waiting \<and>
       map (snd \<circ> entry_msg) waiting = xs u)"
proof -
  note i = run_invD [OF inv]
  let ?f = "entry_for env (l_bgLogInfos (poll_collect (run_backend r)))"
  have "map ?f (map entry_msg (run_logged r)) = run_logged r"
    using i(6) by (simp add: map_idI)
  then have "entries_of u (run_logged r) = map (\<lambda>x. ?f (u, x)) (handled_of u hs @ xs u)" for u
    using entries_of_map [of u _ _ "map entry_msg (run_logged r)"] i(3) by metis
  then have "entries_of u (run_logged r) = entries_of u (map ?f hs) @ map (\<lambda>x. ?f (u, x)) (xs u)" for u
    by (simp add: entries_of_map)
  moreover have "list_all2 written_as (map ?f hs) lines"
    using i(4) by (auto simp: list_all2_map1 line_of_def written_as_def entry_for_def elim: list_all2_mono)
  moreover have "map (snd \<circ> entry_msg) (map (\<lambda>x. ?f (u, x)) (xs u)) = xs u" for u
    by (simp add: comp_def)
  ultimately show ?thesis by blast
qed

lemma mset_entries:
  assumes "\<And>u. entries_of u as = entries_of u bs"
  shows "mset as = mset bs"
proof (rule multiset_eqI)
  fix e
  have "count (mset cs) e = count (mset (entries_of (fst e) cs)) e" for cs
    by (simp add: entries_of_def)
  then show "count (mset as) e = count (mset bs) e"
    using assms by metis
qed

lemma run_written_by_poll:
  assumes "run_start env r0" "run_reach env files sites r0 r" "file_law env files"
    and "poll_time env (run_backend r) tsc" "\<forall>(u, x, tx) \<in> set (run_logged r). tsc_of x < tsc"
  shows "\<exists>b' written lines. poll env True (run_backend r) = Some (Inr b') \<and>
    log_text files b' = log_text files (run_backend r0) @ concat lines \<and> l_outputFp b' = l_outputFp (run_backend r) \<and>
    (polled b' \<noteq> {} \<longrightarrow> l_membuf b' = []) \<and> list_all2 written_as written lines \<and>
    mset written = mset (run_logged r) \<and> (\<forall>u. entries_of u written = entries_of u (run_logged r))"
proof -
  obtain xs hs lines where inv: "run_inv env files sites (log_text files (run_backend r0)) r xs hs lines"
    using run_reach_inv [OF assms(2,1,3)] by blast
  obtain b' hs' lines' where p: "poll env True (run_backend r) = Some (Inr b')"
    "run_inv env files sites (log_text files (run_backend r0)) (r\<lparr>run_backend := b'\<rparr>) (younger tsc xs)
       (hs @ hs') (lines @ lines')" "polled b' \<noteq> {} \<longrightarrow> l_membuf b' = []" "l_outputFp b' = l_outputFp (run_backend r)"
    using run_inv_poll [OF inv assms(3,4), of True] by blast
  have none: "younger tsc xs u = []" for u
    using waiting_logged [OF inv, of _ u] assms(5) by (fastforce simp: younger_def filter_empty_conv)
  obtain written where w: "list_all2 written_as written (lines @ lines')"
    "\<And>u. entries_of u (run_logged r) = entries_of u written"
    using run_inv_written [OF p(2)] none by auto
  have "mset written = mset (run_logged r)"
    using w(2) by (intro mset_entries) simp
  then show ?thesis
    using p(1,3,4) run_invD(5) [OF p(2)] w
    by (intro exI [of _ b'] exI [of _ written] exI [of _ "lines @ lines'"]) simp
qed

section \<open>The constructor\<close>

text \<open>The characters the formatting library lets a name begin with.\<close>

definition usual_start :: "char \<Rightarrow> bool" where
  "usual_start c \<longleftrightarrow> (CHR ''A'' \<le> c \<and> c \<le> CHR ''Z'') \<or> (CHR ''a'' \<le> c \<and> c \<le> CHR ''z'') \<or> c = CHR ''_''"

definition names_as_usual :: "('k, 'f) log_env \<Rightarrow> bool" where
  "names_as_usual env \<longleftrightarrow> (\<forall>c. e_name_start env c = usual_start c)"

definition default_fields :: "(string \<times> string) list" where
  "default_fields = [(''HMSf'', ''} ''), (''s'', '':<16} ''), (''l'', ''}[''), (''t'', '':<6}] '')]"

lemma default_fields_ok:
  "\<forall>f \<in> set default_fields. field_ok usual_start f \<and> fst f \<in> set header_names" "distinct (map fst default_fields)"
  "length default_fields < parttenArgSize" "render_fields default_fields = ''{HMSf} {s:<16} {l}[{t:<6}] ''"
  by code_simp+

lemma set_default_pattern:
  assumes "names_as_usual env"
  shows "\<exists>h ro. set_header_pattern env ''{HMSf} {s:<16} {l}[{t:<6}] '' b = Inr (b\<lparr>l_headerPattern := h, l_reorderIdx := ro\<rparr>)"
proof -
  have ns: "e_name_start env = usual_start"
    using assms by (simp add: names_as_usual_def fun_eq_iff)
  obtain h ro args where "setHeaderPattern usual_start ''{HMSf} {s:<16} {l}[{t:<6}] ''
      (replicate parttenArgSize ([] :: string)) (replicate parttenArgSize []) = Inr (h, ro, args)"
    using setHeaderPattern_fields [OF default_fields_ok(1-3), of "[]" "replicate parttenArgSize []"
        "replicate parttenArgSize ([] :: string)"]
    by (auto simp: default_fields_ok(4))
  then show ?thesis
    by (intro exI [of _ h] exI [of _ ro]) (simp add: set_header_pattern_def ns)
qed

lemma tscns_init_even:
  "tscns_init d c init_ns interval k s = Some (s', k') \<Longrightarrow> even (param_seq s) \<Longrightarrow> seq_even s'"
  by (auto simp: tscns_init_def seq_even_def saveParam_def Let_def split: prod.splits option.splits)

definition run_new :: "('k, 'f) log_backend \<Rightarrow> ('k, 'f) log_run" where
  "run_new b = \<lparr>run_backend = b, run_owner = (\<lambda>t. None), run_ids = (\<lambda>s. 0), run_limits = (\<lambda>s. 0), run_logged = []\<rparr>"

lemma run_new_simps [simp]:
  "run_backend (run_new b) = b" "run_owner (run_new b) = (\<lambda>t. None)" "run_ids (run_new b) = (\<lambda>s. 0)"
  "run_limits (run_new b) = (\<lambda>s. 0)" "run_logged (run_new b) = []"
  by (simp_all add: run_new_def)

lemma backend_new_starts:
  assumes init: "tscns_init (e_double env) (e_clocks env) 20000000 (3 * NsPerSec) (l_kern m) ((l_tscns m)\<lparr>param_seq := 0\<rparr>) =
      Some (tn, k)"
    and names: "names_as_usual env"
  shows "\<exists>b. log_backend_new env std_out m = Some (Inr b) \<and> run_start env (run_new b) \<and> l_membuf b = [] \<and>
    l_outputFp b = Some std_out"
proof -
  have even: "seq_even tn" using tscns_init_even [OF init] by simp
  let ?b1 = "(initial_members m)\<lparr>l_tscns := tn, l_kern := k\<rparr>"
  have e1: "seq_even (l_tscns ?b1)" using even by simp
  obtain tsc k1 where "rdtsc (e_clocks env) k = (tsc, k1)" by fastforce
  moreover obtain ns where "tsc2ns (e_double env) tsc (l_tscns ?b1) = Some ns"
    using tsc2ns_Some [OF e1] by blast
  moreover obtain tm midnight where "e_localtime env (ns div 1000000000) = (tm, midnight)" by fastforce
  ultimately obtain b2 where b2: "resetDate env ?b1 = Some b2" "l_tscns b2 = tn" "l_manageFp b2 = False" "l_membuf b2 = []"
    "l_threadBuffers b2 = []" "l_bgThreadBuffers b2 = []" "l_logInfos b2 = []" "l_buffers b2 = (\<lambda>t. None)"
    by (simp add: resetDate_def initial_members_def)
  let ?b3 = "b2\<lparr>l_fpos := 0, l_outputFp := Some std_out, l_manageFp := False\<rparr>"
  have b3: "setLogFile_fp env std_out False b2 = Inr ?b3"
    using b2 by (simp add: setLogFile_fp_def closeLogFile_def Let_def)
  obtain h ro where b4: "set_header_pattern env ''{HMSf} {s:<16} {l}[{t:<6}] '' ?b3 =
      Inr (?b3\<lparr>l_headerPattern := h, l_reorderIdx := ro\<rparr>)"
    using set_default_pattern [OF names] by blast
  let ?b = "?b3\<lparr>l_headerPattern := h, l_reorderIdx := ro, l_bgLogInfos := map level_info [L_DBG, L_INF, L_WRN, L_ERR]\<rparr>"
  have "log_backend_new env std_out m = Some (Inr ?b)"
    using init b2(1) b3 b4 by (simp add: log_backend_new_def Let_def initial_members_def)
  moreover have "run_start env (run_new ?b)"
    using b2 even levels_known_new
    by (simp add: run_start_def run_new_def backend_ok_def queues_ok_def collected_nodes polled_def)
  ultimately show ?thesis
    using b2(4) by (intro exI [of _ ?b]) simp
qed

end
