(* ===== verification/Life_Props.thy ===== *)
theory Life_Props
  imports Log_Props Log_Life
begin

text \<open>
  The properties of the logger over its whole life: every interleaving of log statements, settings, polls
  and ends of threads, from the constructor on. Each comes with an instance.
\<close>

section \<open>A logger that runs\<close>

text \<open>The small logger again, before any thread has logged, and one statement.\<close>

definition empty_backend :: "(nat \<times> string, int) log_backend" where
  "empty_backend = demo_backend\<lparr>l_buffers := (\<lambda>t. None), l_next_buffer := 0, l_threadBuffers := []\<rparr>"

definition demo_site :: log_site where
  "demo_site = \<lparr>site_loc = ''app/xfly.cpp:20'', site_level = L_INF, site_format = ''{} {n} {}'',
     site_types = map type_of demo_args\<rparr>"

lemma demo_levels: "levels_known (map once_info [L_DBG, L_INF, L_WRN, L_ERR])"
  by (simp add: levels_known_def once_info_def eval_nat_numeral All_less_Suc)

lemma empty_start: "run_start demo_log_env (run_new empty_backend)"
  using demo_levels by (simp add: run_start_def run_new_def backend_ok_def queues_ok_def collected_nodes polled_def
      empty_backend_def demo_backend_def seq_even_def demo_clock_def)

lemma demo_args_ok: "\<forall>a \<in> set demo_args. arg_ok a" "sum_list (map arg_size demo_args) = 7"
  by (simp_all add: demo_args_def)

lemma demo_site_format:
  "unNameFormat (e_name_start demo_log_env) False (site_format demo_site) [] (map type_name (site_types demo_site)) =
     Inr (''{} {1} {}'', [])"
  unfolding demo_log_env_def demo_site_def demo_args_def by code_simp

lemma demo_tsc: "fst (rdtsc (e_clocks demo_log_env) (l_kern empty_backend)) = 1000"
  by (simp add: demo_log_env_def empty_backend_def demo_backend_def)

lemma demo_allowed:
  "log_allowed demo_log_env demo_files demo_site (run_new empty_backend) 4711 1000 demo_args ''{} {1} {}'' (\<lambda>k. k)"
  using demo_tsc demo_args_ok demo_site_format
  by (simp add: log_allowed_def thread_allowed_def demo_site_def dec_of_nat.simps) (simp add: collected_nodes empty_backend_def demo_backend_def)

lemma demo_logged:
  "\<exists>r. run_reach demo_log_env demo_files (\<lambda>s. demo_site) (run_new empty_backend) r \<and>
     (\<exists>u x. run_logged r = [(u, x, ''{} {1} {}'')] \<and> tsc_of x = 1000) \<and>
     l_kern (run_backend r) = (1, []) \<and> l_tscns (run_backend r) = demo_clock"
proof -
  let ?r = "run_new empty_backend"
  have lvl: "checkLogLevel L_DBG (site_level demo_site)" "run_owner ?r 4711 = None"
    "sum_list (map arg_size demo_args) + 23 < 2 ^ 19"
    using demo_args_ok(2) by (simp_all add: demo_site_def checkLogLevel_def less_eq_log_level_def level_num_def)
  obtain ok logId own' b' where l: "FMTLOG demo_log_env 4711 (run_owner ?r 4711) (\<lambda>k. k) L_DBG (run_ids ?r 0)
      (site_loc demo_site) (site_level demo_site) (site_format demo_site) demo_args (run_backend ?r) =
      Inr (ok, logId, own', b')" "ok"
    using run_inv_log [OF run_inv_start [OF empty_start, of demo_files "\<lambda>s. demo_site"] demo_file_law demo_allowed,
        where current = L_DBG and s = 0] lvl
    by blast
  note log = l(1) [unfolded eqTrueI [OF l(2)]]
  note step = run_step.Log [where sites = "\<lambda>s. demo_site" and s = 0, OF demo_allowed log]
  have shown: "fmt_body demo_log_env f vals = f" "sint (of_int 1000 :: u64) = 1000" for f vals
    by (simp_all add: demo_log_env_def)
  have clock: "l_kern b' = (1, [])" "l_tscns b' = demo_clock"
    using FMTLOG_frame [OF log] by (simp_all add: demo_log_env_def empty_backend_def demo_backend_def)
  show ?thesis
    by (rule exI, rule conjI, rule run_reach.Step [OF run_reach.Start step])
       (simp add: run_stored_def shown clock)
qed

section \<open>The logger stays in order\<close>

text \<open>A logger in order: the queues are, and every thread's buffer and statement's log id are known.\<close>

definition logger_wf :: "('k, 'f) log_env \<Rightarrow> (nat \<Rightarrow> log_site) \<Rightarrow> ('k, 'f) log_run \<Rightarrow> bool" where
  "logger_wf env sites r \<longleftrightarrow>
     (\<exists>xs. backend_ok all_idle env (run_backend r) xs) \<and> owners_ok (run_backend r) (run_owner r) \<and>
     (\<forall>u \<in> polled (run_backend r). u < l_next_buffer (run_backend r)) \<and>
     levels_known (l_bgLogInfos (poll_collect (run_backend r))) \<and>
     (\<forall>s. run_ids r s \<noteq> 0 \<longrightarrow>
        site_known env (l_bgLogInfos (poll_collect (run_backend r))) (sites s) (run_ids r s))"

lemma run_inv_wf:
  assumes "run_inv env files sites text0 r xs hs lines"
  shows "logger_wf env sites r"
  unfolding logger_wf_def using run_invD(1,2,8-10) [OF assms] by blast

text \<open>
  C12: The logger is well formed from its constructor on. When the clock advances, the constructor returns
  a logger, and after any number of log statements of any threads (those that log always, at intervals or
  once), names and options set, polls and ends of threads, in any order, each queue is an intact ring of
  readable messages in order of time, each thread's buffer is alive and no other thread's, each new buffer
  will be a fresh one, the first four log ids stand for the levels, and each statement's log id stands for
  the format and the argument types of that statement.
\<close>

theorem logger_well_formed:
  assumes "tscns_init (e_double env) (e_clocks env) 20000000 (3 * NsPerSec) (l_kern m) ((l_tscns m)\<lparr>param_seq := 0\<rparr>) =
      Some (tn, k)"
    and "names_as_usual env" "file_law env files"
  shows "\<exists>b. log_backend_new env std_out m = Some (Inr b) \<and>
    (\<forall>r. run_reach env files sites (run_new b) r \<longrightarrow> logger_wf env sites r)"
proof -
  obtain b where "log_backend_new env std_out m = Some (Inr b)" "run_start env (run_new b)"
    using backend_new_starts [OF assms(1,2)] by blast
  then show ?thesis
    using run_reach_inv [OF _ _ assms(3)] run_inv_wf by blast
qed

text \<open>Memory that is not initialised, and clocks that advance by 30 ms with each reading of the second one.\<close>

definition jumping_env :: "(nat \<times> string, int) log_env" where
  "jumping_env = demo_log_env\<lparr>e_clocks :=
     \<lparr>rdtsc = (\<lambda>k. (1000 + int (fst k), (Suc (fst k), snd k))),
      rdsysns = (\<lambda>k. (30000000 * int (fst k), (Suc (fst k), snd k)))\<rparr>\<rparr>"

lemma jumping_ok: "names_as_usual jumping_env" "file_law jumping_env demo_files"
  by (simp_all add: names_as_usual_def usual_start_def demo_name_start_def jumping_env_def demo_log_env_def
      file_law_def demo_files_def)

lemma wait_until_over: "fst (rdsysns c k) \<ge> e \<Longrightarrow> wait_until c e k = Some (snd (rdsysns c k))"
  by (subst wait_until.simps) (simp add: split_beta)

lemma jumping_init:
  "\<exists>tn k. tscns_init (e_double jumping_env) (e_clocks jumping_env) 20000000 (3 * NsPerSec) (0, []) s = Some (tn, k)"
proof -
  obtain b_tsc b_ns k1 where sync: "syncTime (e_clocks jumping_env) (0, []) = ((b_tsc, b_ns), k1)" by (metis surj_pair)
  have "snd (fst (syncTime (e_clocks jumping_env) (0, []))) + 20000000 \<le>
      fst (rdsysns (e_clocks jumping_env) (snd (syncTime (e_clocks jumping_env) (0, []))))"
    unfolding jumping_env_def demo_log_env_def by code_simp
  then have "wait_until (e_clocks jumping_env) (b_ns + 20000000) k1 = Some (snd (rdsysns (e_clocks jumping_env) k1))"
    unfolding sync by (intro wait_until_over) simp
  then show ?thesis
    by (simp add: tscns_init_def sync Let_def split: prod.splits)
qed

theorem logger_well_formed_witness:
  "\<exists>b. log_backend_new jumping_env 1 demo_backend = Some (Inr b) \<and>
     (\<forall>r. run_reach jumping_env demo_files (\<lambda>s. demo_site) (run_new b) r \<longrightarrow> logger_wf jumping_env (\<lambda>s. demo_site) r)"
proof -
  have "l_kern demo_backend = (0, [])" by (simp add: demo_backend_def)
  then obtain tn k where "tscns_init (e_double jumping_env) (e_clocks jumping_env) 20000000 (3 * NsPerSec)
      (l_kern demo_backend) ((l_tscns demo_backend)\<lparr>param_seq := 0\<rparr>) = Some (tn, k)"
    using jumping_init by metis
  then show ?thesis
    using logger_well_formed [OF _ jumping_ok] by blast
qed

text \<open>
  C8: Every message is in exactly one place. In every state the logger reaches, what the file and the memory
  buffer hold together is what they held at first and one line for each message written; a line is a header,
  the text of a message that was logged, and the end of the line; and for each thread's buffer, the messages
  written, in that order, are the first of those that were logged to it, and the rest of them wait in its
  queue, the queue of a buffer the polling thread still has: of the buffers of ended threads that were
  dropped, every message was written. So no message is lost, written twice, written before an earlier one of
  its thread, or made up. (Statements, thread ends and polls are single steps of these runs.)
\<close>

theorem every_message_in_one_place:
  assumes "run_start env r0" "run_reach env files sites r0 r" "file_law env files"
  shows "\<exists>written lines xs. backend_ok all_idle env (run_backend r) xs \<and>
    log_text files (run_backend r) = log_text files (run_backend r0) @ concat lines \<and>
    list_all2 written_as written lines \<and>
    (\<forall>u. \<exists>waiting. entries_of u (run_logged r) = entries_of u written @ waiting \<and>
       map (snd \<circ> entry_msg) waiting = xs u) \<and>
    (\<forall>u. u \<notin> polled (run_backend r) \<longrightarrow> xs u = [])"
proof -
  obtain xs hs lines where inv: "run_inv env files sites (log_text files (run_backend r0)) r xs hs lines"
    using run_reach_inv [OF assms(2,1,3)] by blast
  then show ?thesis
    using run_inv_written [OF inv] run_invD(1,5,11) [OF inv] by blast
qed

lemma demo_text: "log_text demo_files empty_backend = []"
  by (simp add: log_text_def empty_backend_def demo_backend_def demo_files_def)

theorem every_message_in_one_place_witness:
  "\<exists>(r :: (nat \<times> string, int) log_run) u x written lines xs. run_logged r = [(u, x, ''{} {1} {}'')] \<and>
     log_text demo_files (run_backend r) = concat lines \<and> list_all2 written_as written lines \<and>
     (\<exists>waiting. entries_of u (run_logged r) = entries_of u written @ waiting \<and> map (snd \<circ> entry_msg) waiting = xs u)"
proof -
  obtain r u x where r: "run_reach demo_log_env demo_files (\<lambda>s. demo_site) (run_new empty_backend) r"
    "run_logged r = [(u, x, ''{} {1} {}'')]"
    using demo_logged by blast
  obtain written lines xs where
    "log_text demo_files (run_backend r) = log_text demo_files (run_backend (run_new empty_backend)) @ concat lines"
    "list_all2 written_as written lines"
    "\<exists>waiting. entries_of u (run_logged r) = entries_of u written @ waiting \<and> map (snd \<circ> entry_msg) waiting = xs u"
    using every_message_in_one_place [OF empty_start r(1) demo_file_law] by blast
  moreover have "log_text demo_files (run_backend (run_new empty_backend)) = []" using demo_text by simp
  ultimately show ?thesis
    using r(2) by (metis append_Nil)
qed

text \<open>
  C9: Everything logged is written. In every state the logger reaches, a forced poll at a time later than
  all messages logged returns, and then there is exactly one line for each message ever logged, those of each
  thread's buffer in their order; and nothing of it is left in memory, if there still is a thread's buffer.
\<close>

theorem forced_poll_writes_everything:
  assumes "run_start env r0" "run_reach env files sites r0 r" "file_law env files"
    and "poll_time env (run_backend r) tsc" "\<forall>(u, x, tx) \<in> set (run_logged r). tsc_of x < tsc"
  shows "\<exists>b' written lines. poll env True (run_backend r) = Some (Inr b') \<and>
    log_text files b' = log_text files (run_backend r0) @ concat lines \<and>
    list_all2 written_as written lines \<and> mset written = mset (run_logged r) \<and>
    (\<forall>u. entries_of u written = entries_of u (run_logged r)) \<and> (polled b' \<noteq> {} \<longrightarrow> l_membuf b' = [])"
  using run_written_by_poll [OF assms] by blast

lemma demo_poll_time:
  assumes "l_kern b = (1, [])" "l_tscns b = demo_clock"
  shows "poll_time demo_log_env b 1002"
  using assms by (simp add: poll_time_def calibrate_def demo_log_env_def demo_clock_def)

theorem forced_poll_writes_everything_witness:
  "\<exists>(r :: (nat \<times> string, int) log_run) b' header. length (run_logged r) = 1 \<and> poll demo_log_env True (run_backend r) = Some (Inr b') \<and>
     log_text demo_files b' = header @ ''{} {1} {}'' @ [CHR 0x0A]"
proof -
  obtain r u x where r: "run_reach demo_log_env demo_files (\<lambda>s. demo_site) (run_new empty_backend) r"
    "run_logged r = [(u, x, ''{} {1} {}'')]" "tsc_of x = 1000"
    "l_kern (run_backend r) = (1, [])" "l_tscns (run_backend r) = demo_clock"
    using demo_logged by blast
  have "\<forall>(u, x, tx) \<in> set (run_logged r). tsc_of x < 1002" using r(2,3) by simp
  then obtain b' written lines where p: "poll demo_log_env True (run_backend r) = Some (Inr b')"
    "log_text demo_files b' = concat lines" "list_all2 written_as written lines" "mset written = mset (run_logged r)"
    using forced_poll_writes_everything [OF empty_start r(1) demo_file_law demo_poll_time [OF r(4,5)]]
    by (auto simp: demo_text)
  have "written = [(u, x, ''{} {1} {}'')]" using p(4) r(2) by simp
  then obtain header where "lines = [header @ ''{} {1} {}'' @ [CHR 0x0A]]"
    using p(3) by (auto simp: list_all2_Cons1 written_as_def)
  then have "log_text demo_files b' = header @ ''{} {1} {}'' @ [CHR 0x0A]" using p(2) by simp
  moreover have "length (run_logged r) = 1" using r(2) by simp
  ultimately show ?thesis using p(1) by blast
qed

text \<open>The clock of the examples: no calibration is due before it stops.\<close>

lemma demo_steady: "steady_clock demo_log_env (\<lambda>s. s = demo_clock)"
  by (simp add: steady_clock_def calibrate_def demo_log_env_def demo_clock_def min_def)

lemma demo_sleep: "sleep_law demo_files (\<lambda>ns k. k)"
  by (simp add: sleep_law_def)

definition demo_control :: poll_control where
  "demo_control = \<lparr>threadRunning = True, thr = Some 1000000\<rparr>"

lemma demo_control_ok: "poll_control_ok demo_control"
  by (simp add: demo_control_def poll_control_ok_def)

text \<open>
  C11: The logger never faults. In every state it reaches, a poll returns, provided that the calibration of
  the clock does; every thread that is allowed to log gets an answer from its log statement, be it one that
  logs always, at intervals or once, and its first message is stored; every thread that has logged can end;
  and the polling thread, with a clock that can be calibrated again and again, can be started and ends when
  it is told to stop, after any number of rounds.
\<close>

theorem logger_never_faults:
  assumes "run_start env r0" "run_reach env files sites r0 r" "file_law env files"
  shows "(\<forall>now force. poll_time env (run_backend r) now \<longrightarrow> (\<exists>b'. poll env force (run_backend r) = Some (Inr b'))) \<and>
    (\<forall>s tid tsc args unnamed full current. log_allowed env files (sites s) r tid tsc args unnamed full \<longrightarrow>
       (\<exists>ok logId own' b'. FMTLOG env tid (run_owner r tid) full current (run_ids r s) (site_loc (sites s))
          (site_level (sites s)) (site_format (sites s)) args (run_backend r) = Inr (ok, logId, own', b') \<and>
          (checkLogLevel current (site_level (sites s)) \<and> run_owner r tid = None \<and>
             sum_list (map arg_size args) + 23 < 2 ^ 19 \<longrightarrow> ok)) \<and>
       (\<forall>interval. \<exists>ok logId limitNs own' b'. FMTLOG_LIMIT env tid (run_owner r tid) full current interval (run_ids r s)
          (run_limits r s) (site_loc (sites s)) (site_level (sites s)) (site_format (sites s)) args (run_backend r) =
          Some (Inr (ok, logId, limitNs, own', b')))) \<and>
    (\<forall>tid tsc level format args full current loc_addr.
       once_allowed env files r tid tsc level (fmt_body env format (map arg_val args)) full \<longrightarrow>
       (\<exists>ok own' b'. FMTLOG_ONCE env tid (run_owner r tid) full current loc_addr level format args (run_backend r) =
          Inr (ok, own', b'))) \<and>
    (\<forall>tid u. run_owner r tid = Some u \<longrightarrow> (\<exists>b'. thread_exit u (run_backend r) = Inr b')) \<and>
    (\<forall>good sleep_for interval n p. steady_clock env good \<longrightarrow> good (l_tscns (run_backend r)) \<longrightarrow>
       sleep_law files sleep_for \<longrightarrow> poll_control_ok p \<longrightarrow>
       (\<exists>b'. stopPollingThread env sleep_for n p (run_backend r) = Some (Inr (poll_control_new, b'))) \<and>
       (\<exists>p' b'. startPollingThread env sleep_for n interval p (run_backend r) = Some (Inr (p', b')) \<and>
          poll_control_ok p' \<and> thr p' = Some interval))"
proof -
  obtain xs hs lines where inv: "run_inv env files sites (log_text files (run_backend r0)) r xs hs lines"
    using run_reach_inv [OF assms(2,1,3)] by blast
  have "\<exists>b'. poll env force (run_backend r) = Some (Inr b')" if "poll_time env (run_backend r) now" for now force
    using run_inv_poll [OF inv assms(3) that, of force] by blast
  moreover have "\<exists>ok logId own' b'. FMTLOG env tid (run_owner r tid) full current (run_ids r s) (site_loc (sites s))
      (site_level (sites s)) (site_format (sites s)) args (run_backend r) = Inr (ok, logId, own', b') \<and>
      (checkLogLevel current (site_level (sites s)) \<and> run_owner r tid = None \<and>
         sum_list (map arg_size args) + 23 < 2 ^ 19 \<longrightarrow> ok)"
    if "log_allowed env files (sites s) r tid tsc args unnamed full" for s tid tsc args unnamed full current
    using run_inv_log [OF inv assms(3) that, of current] by blast
  moreover have "\<exists>ok logId limitNs own' b'. FMTLOG_LIMIT env tid (run_owner r tid) full current interval (run_ids r s)
      (run_limits r s) (site_loc (sites s)) (site_level (sites s)) (site_format (sites s)) args (run_backend r) =
      Some (Inr (ok, logId, limitNs, own', b'))"
    if "log_allowed env files (sites s) r tid tsc args unnamed full" for s tid tsc args unnamed full current interval
    using run_inv_limit [OF inv assms(3) that, of current interval] by blast
  moreover have "\<exists>ok own' b'. FMTLOG_ONCE env tid (run_owner r tid) full current loc_addr level format args (run_backend r) =
      Inr (ok, own', b')"
    if "once_allowed env files r tid tsc level (fmt_body env format (map arg_val args)) full"
    for tid tsc level format args full current loc_addr
    using run_inv_once [OF inv assms(3) that refl, of current loc_addr] by blast
  moreover have "\<exists>b'. thread_exit u (run_backend r) = Inr b'" if "run_owner r tid = Some u" for tid u
    using run_inv_exit [OF inv that] by blast
  moreover have stop: "\<exists>b'. stopPollingThread env sleep_for n p (run_backend r) = Some (Inr (poll_control_new, b'))"
    if "steady_clock env good" "good (l_tscns (run_backend r))" "sleep_law files sleep_for" "poll_control_ok p"
    for good sleep_for n p
    using stopPollingThread_runs [OF inv assms(3) that(1,3,2), of n p] stopPollingThread_ok [OF _ that(4)] by blast
  moreover have "\<exists>p' b'. startPollingThread env sleep_for n interval p (run_backend r) = Some (Inr (p', b')) \<and>
      poll_control_ok p' \<and> thr p' = Some interval"
    if "steady_clock env good" "good (l_tscns (run_backend r))" "sleep_law files sleep_for" "poll_control_ok p"
    for good sleep_for interval n p
    using stop [OF that] startPollingThread_ok [OF _ that(4)] by blast
  ultimately show ?thesis by (intro conjI allI impI)
qed

theorem logger_never_faults_witness:
  "\<exists>(r :: (nat \<times> string, int) log_run) b' b''. length (run_logged r) = 1 \<and>
     poll demo_log_env False (run_backend r) = Some (Inr b') \<and>
     stopPollingThread demo_log_env (\<lambda>ns k. k) 3 demo_control (run_backend r) = Some (Inr (poll_control_new, b''))"
proof -
  obtain r u x where r: "run_reach demo_log_env demo_files (\<lambda>s. demo_site) (run_new empty_backend) r"
    "run_logged r = [(u, x, ''{} {1} {}'')]"
    "l_kern (run_backend r) = (1, [])" "l_tscns (run_backend r) = demo_clock"
    using demo_logged by blast
  note never = logger_never_faults [OF empty_start r(1) demo_file_law]
  have "\<exists>b'. poll demo_log_env False (run_backend r) = Some (Inr b')"
    by (rule never [THEN conjunct1, rule_format, OF demo_poll_time [OF r(3,4)]])
  moreover have "\<exists>b''. stopPollingThread demo_log_env (\<lambda>ns k. k) 3 demo_control (run_backend r) =
      Some (Inr (poll_control_new, b''))"
    using never [THEN conjunct2, THEN conjunct2, THEN conjunct2, THEN conjunct2, rule_format, OF demo_steady r(4)
        demo_sleep demo_control_ok] by blast
  moreover have "length (run_logged r) = 1" using r(2) by simp
  ultimately show ?thesis by blast
qed

section \<open>A forced poll that flushes nothing\<close>

text \<open>
  C36: A forced poll does not always flush. When all threads that logged have ended and their queues are
  empty, the poll drops their buffers and returns early, and the lines that an earlier poll left in the
  memory buffer stay there, although \<open>poll\<close> is documented to flush it when it is forced.
\<close>

theorem forced_poll_without_buffers:
  assumes "backend_ok ph env b xs" "file_law env files"
    and "calibrate (e_double env) (e_clocks env) (l_kern b) (l_tscns b) = Some (Inr (tn, k1))"
    and "\<forall>t \<in> polled b. tb_dead (l_buffers b) xs t"
  shows "\<exists>b'. poll env True b = Some (Inr b') \<and> l_membuf b' = l_membuf b \<and> l_outputFp b' = l_outputFp b \<and>
    (\<forall>fp. files fp (l_kern b') = files fp (l_kern b))"
  using poll_no_buffers [OF assms] .

definition ended_buffer :: thread_buffer where
  "ended_buffer = \<lparr>tb_varq = varq_new, shouldDeallocate = True, tb_name = ''1'', nameSize = 1\<rparr>"

definition left_backend :: "(nat \<times> string, int) log_backend" where
  "left_backend = empty_backend\<lparr>l_buffers := [0 \<mapsto> ended_buffer], l_next_buffer := 1, l_membuf := ''a line'',
     l_bgThreadBuffers := [\<lparr>node_tb = 0, node_header = None\<rparr>]\<rparr>"

theorem forced_poll_without_buffers_witness:
  "\<exists>b'. poll demo_log_env True left_backend = Some (Inr b') \<and> l_membuf b' = ''a line''"
proof -
  have f: "l_kern left_backend = (0, [])" "l_tscns left_backend = demo_clock" "l_membuf left_backend = ''a line''"
    "l_outputFp left_backend = Some 0" "polled left_backend = {0}" "l_buffers left_backend = [0 \<mapsto> ended_buffer]"
    "l_bgThreadBuffers (poll_collect left_backend) = [\<lparr>node_tb = 0, node_header = None\<rparr>]"
    by (simp_all add: left_backend_def empty_backend_def demo_backend_def polled_def collected_nodes)
  have "backend_ok all_idle demo_log_env left_backend (\<lambda>t. [])"
    using ring_inv_new
    by (simp add: backend_ok_def f seq_even_def demo_clock_def queues_ok_def node_ok_def ended_buffer_def all_idle_def)
  moreover have "calibrate (e_double demo_log_env) (e_clocks demo_log_env) (l_kern left_backend) (l_tscns left_backend) =
      Some (Inr (demo_clock, (1, [])))"
    by (simp add: f calibrate_def demo_log_env_def demo_clock_def)
  moreover have "\<forall>t \<in> polled left_backend. tb_dead (l_buffers left_backend) (\<lambda>t. []) t"
    by (simp add: f tb_dead_def tb_ended_def ended_buffer_def)
  ultimately show ?thesis
    using forced_poll_without_buffers [OF _ demo_file_law] f(3) by metis
qed

end
