(* ===== verification/Log_Start.thy ===== *)
theory Log_Start
  imports Life_Props Scenario
begin

text \<open>
  The logger in the server: \<open>initLog\<close> and \<open>freeSource\<close> of \<open>app/xfly.cpp\<close> on the logger itself. The
  process model (\<open>Xfly_Process\<close>) knows of the logger only its level and the list of what was logged; here
  its \<open>initLog\<close> is shown to agree with the logger's, and what was logged is followed to the log file,
  from the start of the program to the destructor of the logger.
\<close>

section \<open>Starting and stopping\<close>

definition initLog_logger ::
  "('k, 'f) log_env \<Rightarrow> ConfigItem list \<Rightarrow> ('k, 'f) log_backend \<Rightarrow> (log_level \<times> ('k, 'f) log_backend) res" where
  "initLog_logger env items b =
     (let logFile = getString items ''Log'';
          level = getIntDefault items ''LogLevel'' 1
      in case logFile of
           None \<Rightarrow> Inl (Fault Null_deref)
         | Some f \<Rightarrow>
             bind_res (setLogFile env f False b) (\<lambda>b1.
               if 0 \<le> level \<and> level < int (length toLevel)
               then bind_res (set_header_pattern env ''{HMS} {s:<16} {l} '' b1) (\<lambda>b2.
                      Inr (toLevel ! nat level, b2))
               else Inl (Fault Out_of_bounds)))"

definition freeSource :: "('k, 'f) log_env \<Rightarrow> ('k, 'f) log_backend \<Rightarrow> ('k, 'f) log_backend res" where
  "freeSource env b = closeLogFile env b"

definition server_fields :: "(string \<times> string) list" where
  "server_fields = [(''HMS'', ''} ''), (''s'', '':<16} ''), (''l'', ''} '')]"

lemma server_fields_ok:
  "\<forall>f \<in> set server_fields. field_ok usual_start f \<and> fst f \<in> set header_names" "distinct (map fst server_fields)"
  "length server_fields < parttenArgSize" "render_fields server_fields = ''{HMS} {s:<16} {l} ''"
  "unnamed_fields server_fields = ''{} {:<16} {} ''"
  by code_simp+

lemma set_server_pattern:
  assumes "names_as_usual env"
  shows "\<exists>ro. set_header_pattern env ''{HMS} {s:<16} {l} '' b =
    Inr (b\<lparr>l_headerPattern := ''{} {:<16} {} '', l_reorderIdx := ro\<rparr>)"
proof -
  have ns: "e_name_start env = usual_start"
    using assms by (simp add: names_as_usual_def fun_eq_iff)
  obtain ro args where "setHeaderPattern usual_start ''{HMS} {s:<16} {l} ''
      (replicate parttenArgSize ([] :: string)) (replicate parttenArgSize []) = Inr (''{} {:<16} {} '', ro, args)"
    using setHeaderPattern_fields [OF server_fields_ok(1-3), of "[]" "replicate parttenArgSize []"
        "replicate parttenArgSize ([] :: string)"]
    by (auto simp: server_fields_ok(4,5))
  then show ?thesis
    by (intro exI [of _ ro]) (simp add: set_header_pattern_def ns)
qed

lemma setLogFile_fresh:
  assumes "l_membuf b = []" "l_manageFp b = False"
  shows "setLogFile env f trunc b =
    (case fst (e_fopen env f trunc (l_kern b)) of
       None \<Rightarrow> Inl (Fault Uncaught)
     | Some fp \<Rightarrow>
         let k = e_setbuf env fp (snd (e_fopen env f trunc (l_kern b)))
         in Inr (b\<lparr>l_kern := k, l_fpos := e_ftell env fp k, l_outputFp := Some fp, l_manageFp := True\<rparr>))"
  using assms by (simp add: setLogFile_def closeLogFile_def Let_def split_beta split: option.split)

text \<open>A new logger is still one that no thread has logged to after \<open>initLog\<close>.\<close>

definition log_opened :: "('k, 'f) log_env \<Rightarrow> ConfigItem list \<Rightarrow> ('k, 'f) log_backend \<Rightarrow> ('k, 'f) log_backend \<Rightarrow> bool" where
  "log_opened env items b b' \<longleftrightarrow>
     (\<exists>f fp. getString items ''Log'' = Some f \<and> fst (e_fopen env f False (l_kern b)) = Some fp \<and>
        l_outputFp b' = Some fp) \<and>
     run_start env (run_new b') \<and> l_manageFp b' \<and> l_membuf b' = [] \<and> l_headerPattern b' = ''{} {:<16} {} ''"

lemma initLog_logger_opens:
  assumes start: "run_start env (run_new b)" and fresh: "l_membuf b = []" "l_manageFp b = False"
    and names: "names_as_usual env"
    and f: "getString items ''Log'' = Some f" "fst (e_fopen env f False (l_kern b)) = Some fp"
    and level: "0 \<le> getIntDefault items ''LogLevel'' 1" "getIntDefault items ''LogLevel'' 1 < int (length toLevel)"
  shows "\<exists>b'. initLog_logger env items b = Inr (toLevel ! nat (getIntDefault items ''LogLevel'' 1), b') \<and>
    log_opened env items b b'"
proof -
  let ?k = "e_setbuf env fp (snd (e_fopen env f False (l_kern b)))"
  let ?b1 = "b\<lparr>l_kern := ?k, l_fpos := e_ftell env fp ?k, l_outputFp := Some fp, l_manageFp := True\<rparr>"
  obtain ro where pat: "set_header_pattern env ''{HMS} {s:<16} {l} '' ?b1 =
      Inr (?b1\<lparr>l_headerPattern := ''{} {:<16} {} '', l_reorderIdx := ro\<rparr>)"
    using set_server_pattern [OF names] by blast
  have opened: "setLogFile env f False b = Inr ?b1"
    using f(2) fresh by (simp add: setLogFile_fresh Let_def)
  let ?b2 = "?b1\<lparr>l_headerPattern := ''{} {:<16} {} '', l_reorderIdx := ro\<rparr>"
  have "run_start env (run_new ?b2)"
    using start by (simp add: run_start_def backend_ok_def collected_nodes polled_def queues_ok_def)
  then have "log_opened env items b ?b2"
    using f fresh by (simp add: log_opened_def)
  moreover have "initLog_logger env items b = Inr (toLevel ! nat (getIntDefault items ''LogLevel'' 1), ?b2)"
    using f level opened pat by (simp add: initLog_logger_def)
  ultimately show ?thesis by blast
qed

text \<open>
  C19: The process model's \<open>initLog\<close> is an abstraction of the logger's. With a new logger, and a system in
  which both models open the same files, the one fails exactly when the other does and in the same way: no
  \<open>Log\<close> item, a file that cannot be opened, or a \<open>LogLevel\<close> outside of the array of levels. Otherwise both
  set the same level, and the logger is one no thread has logged to yet, that writes to the configured file
  with the header of time, place and level.
\<close>

theorem initLog_refines:
  assumes "run_start env (run_new b)" "l_membuf b = []" "l_manageFp b = False" "names_as_usual env"
    and "\<forall>f. fst (sys_fopen_append pos f (pkern p)) \<longleftrightarrow> fst (e_fopen env f False (l_kern b)) \<noteq> None"
  shows "(\<forall>e. initLog pos p = Inl e \<longleftrightarrow> initLog_logger env (m_configItemList p) b = Inl e) \<and>
    (\<forall>p'. initLog pos p = Inr p' \<longrightarrow> (\<exists>b'. initLog_logger env (m_configItemList p) b = Inr (currentLogLevel p', b') \<and>
       log_opened env (m_configItemList p) b b'))"
proof (cases "getString (m_configItemList p) ''Log''")
  case None
  then show ?thesis by (simp add: initLog_def initLog_logger_def)
next
  case (Some f)
  let ?level = "getIntDefault (m_configItemList p) ''LogLevel'' 1"
  obtain ok k where k: "sys_fopen_append pos f (pkern p) = (ok, k)" by fastforce
  note call = pcall_eq [of "sys_fopen_append pos f", OF k]
  show ?thesis
  proof (cases "fst (e_fopen env f False (l_kern b))")
    case None
    then have "\<not> ok" using assms(5) k by (metis fst_conv)
    then show ?thesis
      using Some None k assms(2,3) by (auto simp: initLog_def initLog_logger_def call setLogFile_fresh)
  next
    case fp: (Some fp)
    then have ok: "ok" using assms(5) k by (metis fst_conv option.distinct(1))
    show ?thesis
    proof (cases "0 \<le> ?level \<and> ?level < int (length toLevel)")
      case True
      then have "initLog pos p = Inr ((set_pkern k p)\<lparr>currentLogLevel := toLevel ! nat ?level\<rparr>)"
        using Some ok by (simp add: initLog_def call)
      then show ?thesis
        using initLog_logger_opens [OF assms(1-4) Some fp] True by auto
    next
      case False
      then have "initLog pos p = Inl (Fault Out_of_bounds)" "initLog_logger env (m_configItemList p) b = Inl (Fault Out_of_bounds)"
        using Some ok fp assms(2,3)
        by (auto simp: initLog_def initLog_logger_def call setLogFile_fresh Let_def)
      then show ?thesis by simp
    qed
  qed
qed

theorem initLog_refines_witness:
  "\<exists>b'. initLog demo_proc_os (demo_proc demo_pkernel0 demo_log_conf) = Inr (demo_proc demo_pkernel0 demo_log_conf) \<and>
     initLog_logger demo_log_env demo_log_conf (empty_backend\<lparr>l_manageFp := False\<rparr>) = Inr (L_INF, b') \<and>
     l_headerPattern b' = ''{} {:<16} {} ''"
proof -
  let ?p = "demo_proc demo_pkernel0 demo_log_conf" and ?b = "empty_backend\<lparr>l_manageFp := False\<rparr>"
  have "run_start demo_log_env (run_new ?b)"
    using empty_start by (simp add: run_start_def backend_ok_def collected_nodes polled_def queues_ok_def)
  moreover have "l_membuf ?b = []" by (simp add: empty_backend_def demo_backend_def)
  moreover have "names_as_usual demo_log_env"
    by (simp add: names_as_usual_def usual_start_def demo_name_start_def demo_log_env_def)
  moreover have "\<forall>f. fst (sys_fopen_append demo_proc_os f (pkern ?p)) \<longleftrightarrow> fst (e_fopen demo_log_env f False (l_kern ?b)) \<noteq> None"
    by (simp add: demo_log_env_def)
  moreover have run: "initLog demo_proc_os ?p = Inr ?p"
    by (simp add: initLog_def demo_proc_def demo_log_lookup pcall_def toLevel_def set_pkern_def pkern_def CSocket_new_def)
  moreover have "m_configItemList ?p = demo_log_conf" "currentLogLevel ?p = L_INF"
    by (simp_all add: demo_proc_def)
  ultimately show ?thesis
    using initLog_refines [of demo_log_env ?b demo_proc_os ?p] by (auto simp: log_opened_def)
qed

section \<open>The end of the logger\<close>

text \<open>What the C library promises of closing a file, and of the callback for a full queue nothing is asked.\<close>

definition fclose_law :: "('k, 'f) log_env \<Rightarrow> (nat \<Rightarrow> 'k \<Rightarrow> string) \<Rightarrow> bool" where
  "fclose_law env files \<longleftrightarrow> (\<forall>fp fp' k. files fp' (e_fclose env fp k) = files fp' k)"

lemma closeLogFile_text:
  assumes "l_outputFp b = Some fp" "file_law env files" "fclose_law env files"
  shows "\<exists>b'. closeLogFile env b = Inr b' \<and> files fp (l_kern b') = log_text files b \<and> l_outputFp b' = None \<and>
    l_membuf b' = []"
  using assms
  by (auto simp: closeLogFile_def flushLogFile_def file_law_def fclose_law_def log_text_def Let_def)

text \<open>The final poll and the closing of the file, when the polling thread is gone.\<close>

lemma destroy_writes:
  assumes "run_start env r0" "run_reach env files sites r0 r" "file_law env files" "fclose_law env files"
    and "poll_time env (run_backend r) tsc" "\<forall>(u, x, tx) \<in> set (run_logged r). tsc_of x < tsc"
  shows "\<exists>b' fp written lines. log_backend_destroy env (run_backend r) = Some (Inr b') \<and>
    l_outputFp (run_backend r) = Some fp \<and> l_outputFp b' = None \<and>
    files fp (l_kern b') = log_text files (run_backend r0) @ concat lines \<and>
    list_all2 written_as written lines \<and> mset written = mset (run_logged r) \<and>
    (\<forall>u. entries_of u written = entries_of u (run_logged r))"
proof -
  obtain b1 written lines where b1: "poll env True (run_backend r) = Some (Inr b1)"
    "log_text files b1 = log_text files (run_backend r0) @ concat lines" "l_outputFp b1 = l_outputFp (run_backend r)"
    and w: "list_all2 written_as written lines" "mset written = mset (run_logged r)"
      "\<forall>u. entries_of u written = entries_of u (run_logged r)"
    using run_written_by_poll [OF assms(1-3,5,6)] by blast
  obtain fp where fp: "l_outputFp (run_backend r) = Some fp"
    using run_reach_inv [OF assms(2,1,3)] run_invD(1) by (fastforce simp: backend_ok_def)
  then obtain b' where "closeLogFile env b1 = Inr b'" "files fp (l_kern b') = log_text files b1" "l_outputFp b' = None"
    using closeLogFile_text [OF _ assms(3,4), of b1 fp] b1(3) by auto
  then show ?thesis
    using b1(1,2) fp w by (intro exI [of _ b'] exI [of _ fp] exI [of _ written] exI [of _ lines])
      (simp add: log_backend_destroy_def)
qed

text \<open>
  C10: Nothing is lost at the end. From every state the logger reaches, its destructor stops the polling
  thread, if there is one and however many rounds it still makes, polls, flushes and closes the log file; and
  if that final poll is at a time later than all messages logged, then the file holds what it held at first
  and exactly one line for each message ever logged, those of each thread's buffer in their order.
\<close>

theorem destructor_writes_everything:
  assumes "run_start env r0" "run_reach env files sites r0 r" "file_law env files" "fclose_law env files"
    and "steady_clock env good" "good (l_tscns (run_backend r))" "sleep_law files sleep_for"
    and late: "\<forall>p1 b1 tsc. stopPollingThread env sleep_for n p (run_backend r) = Some (Inr (p1, b1)) \<longrightarrow>
      poll_time env b1 tsc \<longrightarrow> (\<forall>(u, x, tx) \<in> set (run_logged r). tsc_of x < tsc)"
  shows "\<exists>b' fp written lines. fmtlogDetail_destroy env sleep_for n p (run_backend r) = Some (Inr b') \<and>
    l_outputFp (run_backend r) = Some fp \<and> l_outputFp b' = None \<and>
    files fp (l_kern b') = log_text files (run_backend r0) @ concat lines \<and>
    list_all2 written_as written lines \<and> mset written = mset (run_logged r) \<and>
    (\<forall>u. entries_of u written = entries_of u (run_logged r))"
proof -
  obtain xs hs lines where inv: "run_inv env files sites (log_text files (run_backend r0)) r xs hs lines"
    using run_reach_inv [OF assms(2,1,3)] by blast
  obtain p1 b1 where stop: "stopPollingThread env sleep_for n p (run_backend r) = Some (Inr (p1, b1))"
    "run_reach env files sites r (r\<lparr>run_backend := b1\<rparr>)" "good (l_tscns b1)"
    "l_outputFp b1 = l_outputFp (run_backend r)"
    using stopPollingThread_runs [OF inv assms(3,5,7,6)] by blast
  obtain tsc where tsc: "poll_time env b1 tsc"
    using steady_poll_time [OF assms(5) stop(3)] by blast
  have "\<forall>(u, x, tx) \<in> set (run_logged r). tsc_of x < tsc"
    using late stop(1) tsc by blast
  then show ?thesis
    using destroy_writes [OF assms(1) run_reach_trans [OF stop(2) assms(2)] assms(3,4), of tsc] tsc stop(1,4)
    by (simp add: fmtlogDetail_destroy_def)
qed

theorem destructor_writes_everything_witness:
  "\<exists>(r :: (nat \<times> string, int) log_run) b' header. length (run_logged r) = 1 \<and>
     fmtlogDetail_destroy demo_log_env (\<lambda>ns k. k) 0 poll_control_new (run_backend r) = Some (Inr b') \<and>
     demo_files 0 (l_kern b') = header @ ''{} {1} {}'' @ [CHR 0x0A]"
proof -
  obtain r u x where r: "run_reach demo_log_env demo_files (\<lambda>s. demo_site) (run_new empty_backend) r"
    "run_logged r = [(u, x, ''{} {1} {}'')]" "tsc_of x = 1000"
    "l_kern (run_backend r) = (1, [])" "l_tscns (run_backend r) = demo_clock"
    using demo_logged by blast
  have "tsc = 1002" if "poll_time demo_log_env (run_backend r) tsc" for tsc
    using that r(4,5) by (auto simp: poll_time_def calibrate_def demo_log_env_def demo_clock_def)
  then have late: "\<forall>p1 b1 tsc. stopPollingThread demo_log_env (\<lambda>ns k. k) 0 poll_control_new (run_backend r) = Some (Inr (p1, b1)) \<longrightarrow>
      poll_time demo_log_env b1 tsc \<longrightarrow> (\<forall>(u, x, tx) \<in> set (run_logged r). tsc_of x < tsc)"
    using r(2,3) by (fastforce simp: stopPollingThread_def poll_control_new_def)
  have "fclose_law demo_log_env demo_files"
    by (simp add: fclose_law_def demo_log_env_def)
  then obtain b' fp written lines where p:
    "fmtlogDetail_destroy demo_log_env (\<lambda>ns k. k) 0 poll_control_new (run_backend r) = Some (Inr b')"
    "demo_files fp (l_kern b') = concat lines" "list_all2 written_as written lines" "mset written = mset (run_logged r)"
    using destructor_writes_everything [OF empty_start r(1) demo_file_law _ demo_steady r(5) demo_sleep late]
    by (auto simp: demo_text)
  have "written = [(u, x, ''{} {1} {}'')]" using p(4) r(2) by simp
  then obtain header where "lines = [header @ ''{} {1} {}'' @ [CHR 0x0A]]"
    using p(3) by (auto simp: list_all2_Cons1 written_as_def)
  then have "demo_files 0 (l_kern b') = header @ ''{} {1} {}'' @ [CHR 0x0A]"
    using p(2) by (simp add: demo_files_def)
  moreover have "length (run_logged r) = 1" using r(2) by simp
  ultimately show ?thesis using p(1) by blast
qed

end
