(* ===== verification/Singletons.thy ===== *)
theory Singletons
  imports Xfly_Conf
begin

text \<open>
  The singletons \<open>Config\<close> (\<open>_include/xfly_conf.h\<close>) and \<open>Memory\<close> (\<open>_include/xfly_memory.h\<close>): both
  classes have the same \<open>getInstance\<close> and the same nested \<open>GCClass\<close>, whose static object is constructed
  with the first instance and destroyed when the program ends. \<open>'a\<close> is the type of the object.
\<close>

record 'a singleton =
  m_instance :: "'a option"
  gc_constructed :: bool
  instances_deleted :: "'a list"

definition no_instance :: "'a singleton" where
  "no_instance = \<lparr>m_instance = None, gc_constructed = False, instances_deleted = []\<rparr>"

definition getInstance :: "'a \<Rightarrow> 'a singleton \<Rightarrow> 'a \<times> 'a singleton" where
  "getInstance new s =
     (case m_instance s of
        None \<Rightarrow> (new, s\<lparr>m_instance := Some new, gc_constructed := True\<rparr>)
      | Some i \<Rightarrow> (i, s))"

text \<open>\<open>~GCClass\<close>, when the program ends; a static object that was not constructed is not destroyed.\<close>

definition GCClass_destroy :: "'a singleton \<Rightarrow> 'a singleton" where
  "GCClass_destroy s =
     (if gc_constructed s
      then (case m_instance s of
              None \<Rightarrow> s
            | Some i \<Rightarrow> s\<lparr>m_instance := None, instances_deleted := instances_deleted s @ [i]\<rparr>)
      else s)"

text \<open>\<open>~Config\<close>: the result are the items deleted, in this order, and the items that are left.\<close>

definition Config_destroy :: "ConfigItem list \<Rightarrow> ConfigItem list \<times> ConfigItem list" where
  "Config_destroy items = (items, [])"

text \<open>However often the object is asked for, there is one, and it is deleted once.\<close>

primrec get_instances :: "'a list \<Rightarrow> 'a singleton \<Rightarrow> 'a list \<times> 'a singleton" where
  "get_instances [] s = ([], s)"
| "get_instances (new # news) s =
     (let (i, s1) = getInstance new s; (is, s2) = get_instances news s1 in (i # is, s2))"

lemma get_instances_existing:
  "m_instance s = Some i \<Longrightarrow> get_instances news s = (replicate (length news) i, s)"
  by (induction news) (simp_all add: getInstance_def)

lemma one_instance:
  "get_instances (new # news) no_instance =
     (replicate (Suc (length news)) new, no_instance\<lparr>m_instance := Some new, gc_constructed := True\<rparr>)"
  "instances_deleted (GCClass_destroy (snd (get_instances (new # news) no_instance))) = [new]"
  "m_instance (GCClass_destroy (snd (get_instances (new # news) no_instance))) = None"
  by (simp_all add: getInstance_def GCClass_destroy_def no_instance_def get_instances_existing)

end
