(* ===== verification/Spec2Isabelle.thy ===== *)
theory Spec2Isabelle
  imports Scenario Log_Start Singletons
begin

text \<open>
  The xfly server, verified: a TCP server for packages with an 8-byte header, its configuration,
  its processes and signals, and the asynchronous logger it is built with. This header says what is
  modelled, where, and what the theorems show. Paths are relative to the repository's \<open>src/\<close>.

  \<^bold>\<open>The program.\<close> \<open>app/xfly.cpp\<close> reads the configuration (\<open>app/xfly_conf.cpp\<close>), opens the log,
  installs the signal handlers (\<open>signal/xfly_signal.cpp\<close>), opens the listening sockets
  (\<open>CSocket::Initialize\<close>), may become a daemon (\<open>proc/xfly_daemon.cpp\<close>) and enters the master's loop
  (\<open>proc/xfly_process.cpp\<close>), which forks the workers. A worker builds its connection pool
  (\<open>CSocket::epoll_init\<close>) and then handles one batch of epoll events after the other
  (\<open>net/xfly_socket.cpp\<close>, \<open>proc/xfly_event.cpp\<close>): events of a listening socket accept a client
  (\<open>net/xfly_socket_accept.cpp\<close>), events of a client read from it
  (\<open>net/xfly_socket_request.cpp\<close>). Complete packages go to a message queue in memory blocks of
  \<open>misc/xfly_memory.cpp\<close>. Every part logs through \<open>log/fmtlog.h\<close>: a statement puts its arguments into
  its thread's queue, and \<open>poll\<close> (\<open>log/fmtlog-inl.h\<close>) formats them into the log file.

  \<^bold>\<open>How code becomes definitions.\<close> An operation is a function from state to \<open>'a res\<close>
  (\<open>Prelude\<close>): \<open>Inr\<close> its results and the new state, or \<open>Inl\<close> the way the process ends, which is
  undefined behaviour the model detects (\<open>Fault\<close>), an exception nobody catches, or \<open>exit\<close>. Structs are
  records with the members' names, machine integers are words where they can wrap, memory blocks are
  finite maps from addresses to cells that may be uninitialised. What is not in the repository is a
  parameter: the system calls (records \<open>os\<close> and \<open>proc_os\<close> over a kernel state of any type), and for the
  logger the record \<open>log_env\<close> with the clocks, the processor's \<open>double\<close> operations, files, calendar and
  the formatting library. What is relied on of them is stated by named hypotheses:
  \<open>kernel_ok\<close>, \<open>stream_socket\<close>, \<open>always_ready\<close>, \<open>pool_placed\<close>, \<open>waitpid_law\<close>, \<open>forks_law\<close>, \<open>listen_law\<close>, \<open>file_law\<close>,
  \<open>names_as_usual\<close>, \<open>log_allowed\<close>, \<open>once_allowed\<close>, \<open>fclose_law\<close>, \<open>steady_clock\<close>, \<open>sleep_law\<close>;
  \<open>Scenario\<close>, \<open>Log_Props\<close> and \<open>Life_Props\<close> instantiate them with concrete functions in the witnesses.

  \<^bold>\<open>Theories of the server.\<close>
  \<^item> \<open>Prelude\<close>: results, bytes and little-endian words, iteration, the collections \<open>res_simps\<close>,
    \<open>mem_simps\<close> and \<open>frame_simps\<close>, and the locale \<open>safe_loop\<close>.
  \<^item> \<open>Xfly_Comm\<close>: \<open>_include/xfly_comm.h\<close>, the package header and the limits. \<open>Xfly_Memory\<close>:
    \<open>misc/xfly_memory.cpp\<close> and its contract, the locale \<open>block_allocator\<close>.
  \<^item> \<open>Xfly_Func\<close>: \<open>app/xfly_func.cpp\<close>. \<open>Xfly_Conf\<close>: \<open>app/xfly_conf.cpp\<close>; \<open>Conf_Spec\<close>: what a
    configuration text means, and that loading computes it. \<open>Singletons\<close>: \<open>getInstance\<close> of \<open>Config\<close> and
    \<open>Memory\<close>.
  \<^item> \<open>Socket_State\<close>: the structs of \<open>_include/xfly_socket.h\<close> and the record \<open>csocket\<close> (the object with
    the heap, the log and the kernel it acts on). \<open>Socket_Conn\<close>: the connection pool and its contract,
    the locale \<open>free_pool\<close>. \<open>Socket_Event\<close>: tagged pointers and \<open>epoll_add_event\<close>.
  \<^item> \<open>Socket_Request\<close>: the receive machine and the message queue; \<open>Framing\<close>: the abstract
    specification \<open>deframe\<close>, which cuts a byte stream into packages; \<open>Socket_Inv\<close>: the invariant
    \<open>sock_inv\<close> (pool, ownership of memory blocks, the state of every receive machine);
    \<open>Socket_Recv\<close> and \<open>Socket_Stream\<close>: each call, and all calls on a connection, refine \<open>deframe\<close>.
  \<^item> \<open>Socket_Accept\<close>, \<open>Socket_Epoll\<close>, \<open>Socket_Listen\<close>: accepting, the event loop, and the listening
    sockets with the object's constructor and destructor; \<open>Socket_Worker\<close>: \<open>worker_inv\<close> is established
    by \<open>epoll_init\<close> and kept by every batch of events; \<open>Worker_Events\<close>: what single events do, stale
    ones included.
  \<^item> \<open>Proc_State\<close>, \<open>Xfly_Signal\<close>, \<open>Xfly_Process\<close>: the process, signals and reaping, daemon, master and
    workers, \<open>main\<close>. \<open>Scenario\<close>: a small kernel in which the theorems are exercised.

  \<^bold>\<open>Theories of the logger.\<close>
  \<^item> \<open>Log_Queue\<close>: the single-producer single-consumer queue (\<open>SPSCVarQueueOPT\<close>) on the bytes of its
    array. \<open>Log_Ring\<close>: producer and consumer as step functions over the shared queue, interleaved at
    every single store or load of a size or index (the bytes of a message move in one step), with the reachable states \<open>log_reach\<close> and the
    invariant \<open>ring_inv\<close>. \<open>Log_Fifo\<close>: the contract \<open>log_fifo\<close> that the polling side relies on.
  \<^item> \<open>Log_Args\<close>: \<open>getArgSizes\<close>, \<open>encodeArgs\<close>, \<open>decodeArgs\<close>, \<open>destructArgs\<close> and \<open>formatTo\<close> as
    functions over argument lists.
    \<open>Log_Text\<close>, \<open>Log_Pattern\<close>: digits, locations, format strings with names, the header pattern.
  \<^item> \<open>Log_Clock\<close>: \<open>TSCNS\<close>, its calibration and its sequence lock (\<open>seq_reach\<close>).
  \<^item> \<open>Log_Heap\<close>: the binary heap of thread buffers. \<open>Log_Backend\<close>: log file, registration, formatting a
    message and \<open>poll\<close>; \<open>Log_Poll\<close> and \<open>Log_Scan\<close>: what a poll writes. \<open>Log_Front\<close>: \<open>log\<close>, \<open>logOnce\<close>,
    the macros, the logger's constructor and destructor, and the polling thread with its start and stop.
    \<open>Log_Life\<close>: all runs of the logger.
    \<open>Log_Start\<close>: the server's \<open>initLog\<close> and \<open>freeSource\<close> on the logger. \<open>Log_Props\<close>, \<open>Life_Props\<close> and
    \<open>Log_Start\<close> hold the properties.

  \<^bold>\<open>What the theorems show.\<close> The receive path: C1--C3, C28, C40. The event loop and the pool: C4,
  C13--C16, C32, C34. Listening and configuration: C18, C27, C30, C33, C38, C39. Start-up, processes and
  signals: C19--C21, C25, C26. The logger: C5--C12, C17, C22--C24, C29, C31, C35--C37. C6 composes the
  logger's two sides: from the execution of a statement to its line in the file. C8--C12 are about every
  run of the logger, any number of threads that log (always, at intervals or once), name themselves and
  end, options that are set, and a thread that polls, from its constructor to its destructor, which stops the
  polling thread first (the step relation \<open>run_step\<close> and the invariant \<open>run_inv\<close> of \<open>Log_Life\<close>). C19 ties the
  process model, which only lists what is logged, to the logger.

  \<^bold>\<open>Loops.\<close> No fuel is used. A loop that ends is a function with a measure (\<open>deframe\<close>,
  \<open>event_accept\<close>, \<open>clearMsgRecvQueue\<close>, \<open>adjustHeap\<close>, \<open>scan_buffers\<close>, \<open>unName_loop\<close>); one that need not
  end is a \<open>partial_function (option)\<close> whose value \<open>None\<close> is not returning (\<open>load_loop\<close>, \<open>clean_loop\<close>,
  \<open>tsc2ns\<close>, \<open>wait_until\<close>, \<open>poll_loop\<close>), and theorems say when it returns (C7, C9--C11, C18, C21)
  or does not (C35, C38). The endless loops of worker and master are all their finite numbers of rounds.

  \<^bold>\<open>Not modelled, and why.\<close> The formatting library, the C library and the kernel are not in the
  repository. Interruption: a signal handler runs to its end between two steps of the program, except
  in C35, which is about the interruption itself. Threads: the log queue and the sequence lock
  interleave at their single loads and stores of sizes, indices and parameters, which take effect in
  program order (the code uses volatile accesses and acquire/release operations for that); during a modelled poll (C7) each logging
  thread may stand anywhere in a statement, but does not move; in the runs of C8--C12 statements and
  polls are single steps, so that a thread that stores a message and ends while a poll is between its look
  at the queue and its look at \<open>shouldDeallocate\<close> is outside of these runs. The program's components log
  by adding to a list of log entries; that these entries reach the file is what the logger's
  theorems are about. \<open>freeSource\<close> of \<open>app/xfly.cpp\<close> is modelled, but \<open>main\<close> never gets there: it
  follows a loop that never ends. How many rounds the polling thread makes until it sees that it is to stop
  is a parameter of \<open>stopPollingThread\<close>, and the theorems hold for any number. The clock's arithmetic is on
  unbounded integers where the code has 64 bits, memory is not exhausted, and \<open>steady_clock\<close> is about clocks
  that can be calibrated from every state. Code for other compilers and systems, tests and
  build files are left out.

  \<^bold>\<open>What modelling showed.\<close> A one-bit instance misses stale events after two reuses (C34); comment lines
  of a configuration are not skipped (\<open>comment_lines_are_not_skipped\<close>), long keys overflow (C39), loading
  hangs on a read error (C38), the configured log level indexes an array unchecked (C19), a negative number of connections ends the
  worker (C13, C20); ports are cut to
  16 bits (\<open>port_is_truncated\<close>); error paths leak a descriptor (\<open>setsockopt_failure_leaks_descriptor\<close>) or
  are dead (\<open>setnonblocking_misses_failure\<close>); the destructor leaks half-received packages (C40); a poll
  from a signal handler can hang (C35), a forced poll does not flush when the threads that logged have
  ended (C36), a string argument with a NUL shifts the arguments after it (C37), and a message of half the
  queue can be refused although the queue is empty (C23).
\<close>

section \<open>The receive path\<close>

text \<open>
  C1: On a socket whose reads do not fail (no \<open>EAGAIN\<close>, no \<open>EINTR\<close>, no other error before the end of the
  stream), every package a client sends is received exactly once, unchanged and in order, however the kernel
  fragments the stream. A connection in use that has nothing pending reads a stream that is the
  concatenation of well-formed packages; after enough calls of the read handler (one more than the stream
  has bytes suffices) the handler has not faulted, the end of the stream has closed the connection and
  returned it to the pool, and the invariant holds (so no block is leaked). The message queue ends with
  what it held and then the packages, each behind its message header, less a number of the oldest entries,
  which the limit of the queue drops: none if all together are fewer than 1000, and otherwise only when at
  least the newest 500 are kept.
\<close>

theorem packages_received_in_order:
  assumes "sock_inv fl qs s" "i \<in> used fl s" "pending (heap s) (pool s ! i) = []"
    and "stream_socket os (c_fd (pool s ! i)) stream" "always_ready os (c_fd (pool s ! i))"
    and "stream (kern s) = concat ps" "\<forall>p \<in> set ps. package_ok p"
    and "length (stream (kern s)) < n"
  shows "\<exists>s' qs' dropped. rx_calls os i n s = Inr s' \<and>
     queue_msgs s' = drop dropped (queue_msgs s @
       map (\<lambda>p. msg_header (m_pconnections s) i (c_iCurrsequence (pool s ! i)) @ p) ps) \<and>
     (length (queue_msgs s) + length ps < 1000 \<longrightarrow> dropped = 0) \<and>
     (dropped \<noteq> 0 \<longrightarrow> 500 \<le> length (queue_msgs s')) \<and>
     c_fd (pool s' ! i) = -1 \<and> sock_inv (i # fl) qs' s'"
proof -
  let ?base = "m_pconnections s" and ?sq = "c_iCurrsequence (pool s ! i)"
  obtain p where rx: "rx_state (m_pconnections s) (heap s) i (pool s ! i) p"
    using sock_inv_parts(3) [OF assms(1,2)] by blast
  then have "p = []"
    using rx_state_pending [OF rx] assms(3) by simp
  then obtain s' w where run: "rx_calls os i n s = Inr s'" "rx_progress stream fl i s [] w s'"
    "c_fd (pool s' ! i) = -1"
    using rx_calls_progress [OF assms(1,2) rx assms(4), of n] assms(5,8) by auto
  then have "w = concat ps" and inv: "\<exists>qs'. sock_inv (i # fl) qs' s'"
    using assms(6) by (auto simp: rx_progress_def)
  then have q: "queue_msgs s' = deliver_all ?base i ?sq ps (queue_msgs s)"
    using run deframe_concat [OF assms(7)] by (auto simp: rx_progress_def)
  obtain d where "queue_msgs s' = drop d (queue_msgs s @ map (\<lambda>p. msg_header ?base i ?sq @ p) ps)"
    "length (queue_msgs s) + length ps < 1000 \<longrightarrow> d = 0" "d \<noteq> 0 \<longrightarrow> 500 \<le> length (queue_msgs s')"
  proof (cases "length (queue_msgs s) + length ps < 1000")
    case True
    then show ?thesis using that [of 0] deliver_all_small [OF True] q by simp
  next
    case False
    then show ?thesis using that deliver_all_suffix [of ?base i ?sq ps "queue_msgs s"] q by metis
  qed
  then show ?thesis
    using run(1,3) inv by blast
qed

theorem packages_received_in_order_witness:
  "\<exists>s' qs'. rx_calls demo_os 0 20 (demo_worker (demo_package @ demo_empty_package)) = Inr s' \<and>
     queue_msgs s' = [msg_header 4096 0 1 @ demo_package, msg_header 4096 0 1 @ demo_empty_package] \<and>
     sock_inv [0, 1] qs' s'"
proof -
  let ?s = "demo_worker (demo_package @ demo_empty_package)"
  have pend: "pending (heap ?s) (pool ?s ! 0) = []" and used: "0 \<in> used [1] ?s"
    using demo_worker_used [of "demo_package @ demo_empty_package"]
    by (simp_all add: pending_def demo_worker_def fresh_connection_def)
  have stream: "k_incoming (kern ?s) = concat [demo_package, demo_empty_package]"
    "length (k_incoming (kern ?s)) < 20" "queue_msgs ?s = []" "m_pconnections ?s = 4096"
    "c_iCurrsequence (pool ?s ! 0) = 1"
    by (simp_all add: demo_worker_def queue_msgs_def demo_package_def demo_empty_package_def
        fresh_connection_def zero_connection_def)
  have "\<forall>p \<in> set [demo_package, demo_empty_package]. package_ok p"
    using demo_packages_ok by simp
  then show ?thesis
    using packages_received_in_order [OF demo_worker_inv used pend demo_stream_socket demo_always_ready
        stream(1) _ stream(2)] stream(3-5)
    by fastforce
qed

text \<open>
  C2: One call of the read handler on any connection in use, in any state of its receive machine
  and whatever \<open>recv\<close> returns (data, end of stream, any error), neither faults nor exits; the
  invariant of pool, heap ownership and receive machines holds afterwards, no other connection
  changes, and the connection is either still in use, in its role, or back in the pool.
\<close>

theorem wait_request_handler_safe:
  assumes "sock_inv fl qs s" "i \<in> used fl s" "recv_bounded os"
  shows "\<exists>s' fl' qs'. wait_request_handler os i s = Inr s' \<and> sock_inv fl' qs' s' \<and>
           (fl' = fl \<or> fl' = i # fl) \<and> frame_conn i s s' \<and>
           (fl' = fl \<longrightarrow> same_role (pool s ! i) (pool s' ! i))"
  using handler_preserves [OF assms] by blast

theorem wait_request_handler_safe_witness:
  "\<exists>s' fl' qs'. wait_request_handler demo_os 0 (demo_worker demo_package) = Inr s' \<and>
     sock_inv fl' qs' s' \<and> (fl' = [1] \<or> fl' = [0, 1]) \<and> frame_conn 0 (demo_worker demo_package) s'"
proof -
  have "0 \<in> used [1] (demo_worker demo_package)"
    using demo_worker_used [of demo_package] by simp
  from wait_request_handler_safe [OF demo_worker_inv this demo_recv_bounded]
  show ?thesis by blast
qed

text \<open>
  C3: On an arbitrary byte stream, malformed headers included, and for any number of handler calls
  and any fragmentation, interruptions (\<open>EAGAIN\<close>, \<open>EINTR\<close>) included, the receive path refines the
  framing specification \<open>deframe\<close>: the queue has received exactly the packages \<open>deframe\<close> finds in
  the bytes consumed, in order (trimmed as the queue is), and while the connection is open the
  bytes it holds are exactly the residue \<open>deframe\<close> leaves.
\<close>

theorem receive_refines_deframe:
  assumes "sock_inv fl qs s" "i \<in> used fl s"
    and "stream_socket os (c_fd (pool s ! i)) stream"
  shows "\<exists>s' w. rx_calls os i n s = Inr s' \<and>
     queue_msgs s' = deliver_all (m_pconnections s) i (c_iCurrsequence (pool s ! i))
       (fst (deframe (pending (heap s) (pool s ! i) @ w))) (queue_msgs s) \<and>
     (if c_fd (pool s' ! i) = -1 then stream (kern s) = w
      else stream (kern s) = w @ stream (kern s') \<and>
           pending (heap s') (pool s' ! i) = snd (deframe (pending (heap s) (pool s ! i) @ w)))"
proof -
  obtain p where rx: "rx_state (m_pconnections s) (heap s) i (pool s ! i) p"
    using sock_inv_parts(3) [OF assms(1,2)] by blast
  then have "pending (heap s) (pool s ! i) = p"
    by (rule rx_state_pending)
  then show ?thesis
    using rx_calls_progress [OF assms(1,2) rx assms(3), of n] unfolding rx_progress_def by metis
qed

text \<open>The witness makes three calls on a stream that begins with a header that announces 65535 bytes.\<close>

theorem receive_refines_deframe_witness:
  "\<exists>s' w. rx_calls demo_os 0 3 (demo_worker ([255, 255, 0, 0, 0, 0, 0, 0] @ demo_package)) = Inr s' \<and>
     queue_msgs s' = deliver_all 4096 0 1 (fst (deframe w)) []"
proof -
  let ?s = "demo_worker ([255, 255, 0, 0, 0, 0, 0, 0] @ demo_package)"
  have used: "0 \<in> used [1] ?s" using demo_worker_used by blast
  have p: "pending (heap ?s) (pool ?s ! 0) = []"
    by (simp add: pending_def demo_worker_def fresh_connection_def)
  have c: "m_pconnections ?s = 4096" "c_iCurrsequence (pool ?s ! 0) = 1" "queue_msgs ?s = []"
    by (simp_all add: demo_worker_def fresh_connection_def zero_connection_def queue_msgs_def)
  show ?thesis
    using receive_refines_deframe [OF demo_worker_inv used demo_stream_socket, of 3]
    unfolding p c append_Nil by blast
qed

section \<open>The worker process\<close>

text \<open>
  C4: A worker whose \<open>epoll_init\<close> returned runs for ever: any number of rounds of its loop returns
  without a fault and without leaving through \<open>exit\<close>, whatever events, clients, data and errors
  the kernel produces within its documented contract, and the invariant holds after each. In
  particular no stale or forged pointer is followed, no null handler is called, no block is used
  after it is freed, and the message queue stays below 1000 messages.
\<close>

theorem worker_never_faults:
  assumes "socket_ready s" "kernel_ok os reg" "reg (kern s) = {}"
    and "pool_placed base (nat (m_worker_connections s))" "0 \<le> m_worker_connections s"
    and "epoll_init os base garbage s = Inr (r, s1)"
  shows "\<exists>s' fl qs. worker_rounds os n s1 = Inr s' \<and> worker_inv reg fl qs s' \<and>
           length (m_MsgRecvQueue s') < 1000"
proof -
  have "\<exists>fl qs. worker_inv reg fl qs s1"
    using epoll_init_inv [OF assms(1-5), of garbage] assms(6) by auto
  then obtain s' fl qs where "worker_rounds os n s1 = Inr s'" "worker_inv reg fl qs s'"
    using wl.rounds_ok [of os reg s1 n] assms(2) by (auto simp: worker_rounds_def)
  moreover from this have "length (m_MsgRecvQueue s') < 1000"
    by (auto simp: worker_inv_but_def sock_inv_def own_inv_def)
  ultimately show ?thesis by blast
qed

theorem worker_never_faults_witness:
  "\<exists>s1 s' fl qs. epoll_init demo_os 4096 (\<lambda>i. zero_connection) demo_boot = Inr (1, s1) \<and>
     worker_rounds demo_os 10 s1 = Inr s' \<and> worker_inv demo_regs fl qs s'"
proof -
  obtain s1 where s1: "epoll_init demo_os 4096 (\<lambda>i. zero_connection) demo_boot = Inr (1, s1)"
    using demo_boot_init by blast
  show ?thesis
    using worker_never_faults [OF demo_boot_ready(1) demo_kernel_ok demo_boot_ready(2-4) s1, of 10] s1
    by blast
qed

text \<open>
  C13: With a configured number of connections that is not negative, \<open>epoll_init\<close> either ends the process
  with status 2 or builds a worker in order: the pool has \<open>m_worker_connections\<close> connections, the \<open>k\<close>-th
  listening socket and the \<open>k\<close>-th connection point at each other with \<open>event_accept\<close> as read handler, the
  other connections form the free list in ascending order, and the invariant holds. A negative number is
  not checked anywhere: unless \<open>epoll_create\<close> fails first, \<open>new\<close> throws and nobody catches it. (That there
  is memory for the pool is assumed: \<open>pool_placed\<close> says where it lies.)
\<close>

theorem epoll_init_establishes:
  assumes "socket_ready s" "kernel_ok os reg" "reg (kern s) = {}"
    and "pool_placed base (nat (m_worker_connections s))"
  shows "(m_worker_connections s < 0 \<longrightarrow> epoll_init os base garbage s =
      (if fst (sys_epoll_create os (m_worker_connections s) (kern s)) = -1 then Inl (Exit 2)
       else Inl (Fault Bad_alloc))) \<and>
    (0 \<le> m_worker_connections s \<longrightarrow> epoll_init os base garbage s = Inl (Exit 2) \<or>
      (\<exists>s'. epoll_init os base garbage s = Inr (1, s') \<and>
         worker_inv reg [length (m_listenSocketList s)..<nat (m_worker_connections s)] [] s' \<and>
         length (pool s') = nat (m_worker_connections s) \<and>
         length (m_listenSocketList s) \<le> nat (m_worker_connections s) \<and>
         (\<forall>p < length (m_listenSocketList s). listener_conn s' p p)))"
  using epoll_init_negative epoll_init_inv [OF assms] by blast

theorem epoll_init_establishes_witness:
  "\<exists>s'. epoll_init demo_os 4096 (\<lambda>i. zero_connection) demo_boot = Inr (1, s') \<and>
     worker_inv demo_regs [1..<2] [] s' \<and> listener_conn s' 0 0"
proof -
  have "length (m_listenSocketList demo_boot) = 1" "m_worker_connections demo_boot = 2"
    by (simp_all add: demo_boot_def CSocket_new_def)
  moreover obtain s1 where "epoll_init demo_os 4096 (\<lambda>i. zero_connection) demo_boot = Inr (1, s1)"
    using demo_boot_init by blast
  ultimately show ?thesis
    using epoll_init_establishes [OF demo_boot_ready(1) demo_kernel_ok demo_boot_ready(2,3),
      of "\<lambda>i. zero_connection"] by auto
qed

section \<open>Accepting clients\<close>

text \<open>
  C14: A client accepted with \<open>accept4\<close> is given the first free connection, completely initialised:
  its descriptor and address, the listening object of the connection it came through, the flipped
  instance bit, the next sequence number, an empty receive machine and the request handler; it
  leaves the free list, and its tagged address is registered for reading. Nothing else changes.
\<close>

theorem event_accept_admits_client:
  assumes "pool_wf (i # fl) s" "use_accept4 s" "oldc < length (pool s)" "oldc \<noteq> i"
    and "sys_accept4 os (c_fd (pool s ! oldc)) (kern s) = (Accepted sock addr, k1)" "length addr = 16"
    and "sys_epoll_ctl os (m_epollhandle s) EPOLL_CTL_ADD sock
        \<lparr>ev_events = EPOLLIN OR EPOLLRDHUP,
         ev_data = tag_ptr (conn_addr (m_pconnections s) i) (\<not> c_instance (pool s ! i))\<rparr> k1 = (r, k2)"
    and "r \<noteq> -1"
  shows "event_accept os oldc s =
    Inr (s\<lparr>kern := k2, m_pfree_connections := c_data (pool s ! i),
           m_free_connection_n := int (length fl),
           pool := (pool s)[i := zero_connection
             \<lparr>c_fd := sock, c_listening := c_listening (pool s ! oldc),
              c_instance := \<not> c_instance (pool s ! i),
              c_iCurrsequence := c_iCurrsequence (pool s ! i) + 1, c_sockaddr := addr, w_ready := 1,
              rhandler := Some Wait_request_handler, curStat := PKG_HD_INIT,
              precvbuf := Head_buf i 0, irecvlen := 8\<rparr>]\<rparr>)"
proof -
  have "pool_wf (i # fl) (s\<lparr>kern := k1\<rparr>)"
    using assms(1) by (simp add: pool_wf_def)
  from accept_connection_success [OF this, of oldc addr os sock r k2] show ?thesis
    using event_accept_accept4 [OF assms(3,2,5)] assms(2-4,6-8)
    by (simp add: fresh_connection_def zero_connection_def)
qed

theorem event_accept_admits_client_witness:
  "\<exists>s'. event_accept demo_os 0 ((demo_worker [])\<lparr>kern := demo_kernel0\<lparr>k_clients := [7]\<rparr>\<rparr>) = Inr s' \<and>
     c_fd (pool s' ! 1) = 7 \<and> m_free_connection_n s' = 0"
proof -
  let ?s = "(demo_worker [])\<lparr>kern := demo_kernel0\<lparr>k_clients := [7]\<rparr>\<rparr>"
  have wf: "pool_wf (1 # []) ?s"
    using demo_worker_inv [of "[]"] by (simp add: sock_inv_def own_inv_def pool_wf_def)
  have f: "use_accept4 ?s" "0 < length (pool ?s)" "(0::nat) \<noteq> 1"
    "c_fd (pool ?s ! 0) = 5" "length (replicate 16 (0 :: byte)) = 16"
    by (simp_all add: demo_worker_def fresh_connection_def)
  have "length (pool ?s) = 2" by (simp add: demo_worker_def)
  moreover have "sys_accept4 demo_os (c_fd (pool ?s ! 0)) (kern ?s) = (Accepted 7 (replicate 16 0), demo_kernel0)"
    by (simp add: demo_kernel0_def)
  ultimately show ?thesis
    using event_accept_admits_client [OF wf f(1-3) _ f(5) demo_calls(5)] by simp
qed

text \<open>
  C15: When the pool is empty the client is refused: its descriptor is closed, the failure is logged,
  and pool, heap and queue stay as they are.
\<close>

theorem event_accept_refuses_when_full:
  assumes "pool_wf [] s" "use_accept4 s" "oldc < length (pool s)"
    and "sys_accept4 os (c_fd (pool s ! oldc)) (kern s) = (Accepted sock addr, k1)"
    and "sys_close os sock k1 = (r, k2)" "r \<noteq> -1"
  shows "event_accept os oldc s = Inr (s\<lparr>kern := k2, logs := logs s @ [Log L_ERR Get_connection_null]\<rparr>)"
proof -
  have "pool_wf [] (s\<lparr>kern := k1\<rparr>)"
    using assms(1) by (simp add: pool_wf_def)
  from accept_connection_full [OF this, of os sock r k2 oldc addr] show ?thesis
    using event_accept_accept4 [OF assms(3,2,4)] assms(5,6) by (simp add: put_log_def)
qed

theorem event_accept_refuses_when_full_witness:
  "\<exists>s. pool_wf [] s \<and> event_accept demo_os 0 s =
     Inr (s\<lparr>kern := demo_kernel0, logs := [Log L_ERR Get_connection_null]\<rparr>)"
proof -
  let ?s = "(demo_worker [])\<lparr>kern := demo_kernel0\<lparr>k_clients := [7]\<rparr>,
      pool := [fresh_connection 0 5 zero_connection], m_pfree_connections := None,
      m_connection_n := 1, m_free_connection_n := 0\<rparr>"
  have wf: "pool_wf [] ?s"
    by (simp add: pool_wf_def fresh_connection_def)
  have "use_accept4 ?s" "0 < length (pool ?s)"
    by (simp_all add: demo_worker_def)
  moreover have "sys_accept4 demo_os (c_fd (pool ?s ! 0)) (kern ?s) = (Accepted 7 (replicate 16 0), demo_kernel0)"
    by (simp add: demo_kernel0_def)
  ultimately have "event_accept demo_os 0 ?s =
      Inr (?s\<lparr>kern := demo_kernel0, logs := logs ?s @ [Log L_ERR Get_connection_null]\<rparr>)"
    using event_accept_refuses_when_full [OF wf _ _ _ demo_close, of 0 7 "replicate 16 0" demo_kernel0]
    by simp
  moreover have "logs ?s = []" by (simp add: demo_worker_def)
  ultimately show ?thesis using wf by (intro exI [of _ ?s]) simp
qed

text \<open>
  On a kernel without \<open>accept4\<close> the first call falls back to \<open>accept\<close> within the same event, and
  from then on \<open>accept4\<close> is not called again: its behaviour has no influence any more.
\<close>

theorem accept4_fallback_is_final:
  assumes "oldc < length (pool s)" "use_accept4 s"
    and "sys_accept4 os (c_fd (pool s ! oldc)) (kern s) = (Accept_err ENOSYS, k)"
  shows "event_accept os oldc s = event_accept (os\<lparr>sys_accept4 := f\<rparr>) oldc (s\<lparr>kern := k, use_accept4 := False\<rparr>)"
  using event_accept_fallback [OF assms] event_accept_no_accept4 [of "s\<lparr>kern := k, use_accept4 := False\<rparr>"]
  by simp

theorem accept4_fallback_is_final_witness:
  "\<exists>k. event_accept (demo_os\<lparr>sys_accept4 := \<lambda>fd k. (Accept_err ENOSYS, k)\<rparr>) 0 (demo_worker []) =
     event_accept demo_os 0 ((demo_worker [])\<lparr>kern := k, use_accept4 := False\<rparr>)"
proof -
  let ?os = "demo_os\<lparr>sys_accept4 := \<lambda>fd k. (Accept_err ENOSYS, k)\<rparr>"
  have "0 < length (pool (demo_worker []))" "use_accept4 (demo_worker [])"
    by (simp_all add: demo_worker_def)
  from accept4_fallback_is_final [OF this, of ?os _ "sys_accept4 demo_os"]
  have "event_accept ?os 0 (demo_worker []) = event_accept (?os\<lparr>sys_accept4 := sys_accept4 demo_os\<rparr>) 0
      ((demo_worker [])\<lparr>kern := kern (demo_worker []), use_accept4 := False\<rparr>)"
    by simp
  moreover have "?os\<lparr>sys_accept4 := sys_accept4 demo_os\<rparr> = demo_os" by simp
  ultimately show ?thesis by metis
qed

section \<open>Stale events\<close>

text \<open>
  C16: An event that was registered for a connection does nothing once that connection was closed, and
  nothing either after it was handed to the next client: the instance bit in the event no longer
  matches.
\<close>

theorem stale_event_ignored:
  assumes "worker_inv reg fl qs s" "i \<in> used fl s" "kernel_ok os reg" "fd \<noteq> -1"
    and "ev_data ev = tag_ptr (conn_addr (m_pconnections s) i) (c_instance (pool s ! i))"
  shows "\<exists>s1 s2. close_connection os i s = Inr s1 \<and> process_event os ev s1 = Inr s1 \<and>
     get_connection fd s1 = Inr (Some i, s2) \<and> process_event os ev s2 = Inr s2"
  using assms by (rule stale_after_reuse)

theorem stale_event_ignored_witness:
  "\<exists>s1 s2. close_connection demo_os 0 (demo_worker []) = Inr s1 \<and>
     process_event demo_os \<lparr>ev_events = 1, ev_data = 4096\<rparr> s1 = Inr s1 \<and>
     get_connection 9 s1 = Inr (Some 0, s2) \<and>
     process_event demo_os \<lparr>ev_events = 1, ev_data = 4096\<rparr> s2 = Inr s2"
proof -
  have u: "0 \<in> used [1] (demo_worker [])" using demo_worker_used [of "[]"] by simp
  have "ev_data \<lparr>ev_events = 1, ev_data = 4096\<rparr> =
      tag_ptr (conn_addr (m_pconnections (demo_worker [])) 0) (c_instance (pool (demo_worker []) ! 0))"
    by (simp add: demo_worker_def conn_addr_def tag_ptr_def fresh_connection_def)
  from stale_event_ignored [OF demo_worker_worker u demo_kernel_ok _ this, of 9] show ?thesis
    by simp
qed

text \<open>
  C34: The instance bit has two values only. After the connection was closed and handed out twice, a
  still undelivered event of the first client passes both tests and the handler runs for the third
  client, although the sequence number of the connection has advanced by four.
\<close>

theorem stale_event_missed_after_two_reuses:
  assumes "worker_inv reg fl qs s" "i \<in> used fl s" "kernel_ok os reg" "fd1 \<noteq> -1" "fd2 \<noteq> -1"
    and "ev_data ev = tag_ptr (conn_addr (m_pconnections s) i) (c_instance (pool s ! i))"
    and "ev_events ev AND (EPOLLIN OR EPOLLERR OR EPOLLHUP) \<noteq> 0"
  shows "\<exists>s1 s2 s3 s4. close_connection os i s = Inr s1 \<and> get_connection fd1 s1 = Inr (Some i, s2) \<and>
     close_connection os i s2 = Inr s3 \<and> get_connection fd2 s3 = Inr (Some i, s4) \<and>
     c_iCurrsequence (pool s4 ! i) = c_iCurrsequence (pool s ! i) + 4 \<and>
     (\<forall>h s5. s5 = upd_conn i (\<lambda>c. c\<lparr>rhandler := Some h\<rparr>) s4 \<longrightarrow>
        process_event os ev s5 = call_handler os h i s5)"
  using assms by (rule stale_after_two_reuses)

theorem stale_event_missed_after_two_reuses_witness:
  "\<exists>s1 s2 s3 s4. close_connection demo_os 0 (demo_worker []) = Inr s1 \<and>
     get_connection 9 s1 = Inr (Some 0, s2) \<and> close_connection demo_os 0 s2 = Inr s3 \<and>
     get_connection 10 s3 = Inr (Some 0, s4) \<and> c_iCurrsequence (pool s4 ! 0) = 5"
proof -
  have u: "0 \<in> used [1] (demo_worker [])" using demo_worker_used [of "[]"] by simp
  have ev: "ev_data \<lparr>ev_events = 1, ev_data = 4096\<rparr> =
      tag_ptr (conn_addr (m_pconnections (demo_worker [])) 0) (c_instance (pool (demo_worker []) ! 0))"
    by (simp add: demo_worker_def conn_addr_def tag_ptr_def fresh_connection_def)
  have "ev_events \<lparr>ev_events = 1, ev_data = 4096\<rparr> AND (EPOLLIN OR EPOLLERR OR EPOLLHUP) \<noteq> 0"
    by simp
  moreover have "c_iCurrsequence (pool (demo_worker []) ! 0) = 1"
    by (simp add: demo_worker_def fresh_connection_def zero_connection_def)
  ultimately show ?thesis
    using stale_event_missed_after_two_reuses [OF demo_worker_worker u demo_kernel_ok _ _ ev, of 9 10]
    by auto
qed

section \<open>Pool, queue and object life\<close>

text \<open>Taking a connection for each of a list of descriptors.\<close>

primrec get_connections :: "int list \<Rightarrow> 'k csocket \<Rightarrow> (nat option list \<times> 'k csocket) res" where
  "get_connections [] s = Inr ([], s)"
| "get_connections (fd # fds) s =
     bind_res (get_connection fd s) (\<lambda>(r, s1).
     bind_res (get_connections fds s1) (\<lambda>(rs, s2). Inr (r # rs, s2)))"

lemma get_connections_eq: "get_connections = fp.get_all"
proof (intro ext)
  fix fds and s :: "'k csocket"
  show "get_connections fds s = fp.get_all fds s"
    by (induction fds arbitrary: s) simp_all
qed

text \<open>
  C32: The pool hands out every free connection exactly once, in the order of the free list, and the
  next request fails: no connection is ever given to two clients.
\<close>

theorem pool_hands_out_each_once:
  assumes "sock_inv fl qs s" "-1 \<notin> set fds" "length fds = length fl"
  shows "\<exists>s1 s2. get_connections fds s = Inr (map Some fl, s1) \<and> distinct fl \<and>
           get_connection fd s1 = Inr (None, s2)"
  using fp.get_all_exhausts [of fl s fds fd] fp.wf_distinct [of fl s] assms
  unfolding get_connections_eq by blast

theorem pool_hands_out_each_once_witness:
  "\<exists>s1 s2. get_connections [8] (demo_worker []) = Inr ([Some 1], s1) \<and>
     get_connection 9 s1 = Inr (None, s2)"
  using pool_hands_out_each_once [OF demo_worker_inv, of "[8]" "[]" 9] by auto

text \<open>
  C28: Queueing a finished message appends it; only when the queue reaches 1000 messages are the
  oldest dropped, each freed exactly once, so that the newest 500 remain.
\<close>

theorem queue_keeps_newest:
  assumes "m_MsgRecvQueue s = map Some qs" "distinct (qs @ [a])" "set (qs @ [a]) \<subseteq> dom (heap s)"
  shows "inMsgRecvQueue (Some a) s =
    Inr (let n = (if length qs < 999 then 0 else length qs - 499)
         in s\<lparr>m_MsgRecvQueue := map Some (drop n (qs @ [a])),
              heap := heap s |` (- set (take n (qs @ [a]))),
              logs := logs s @ [Log L_INF Package_complete]\<rparr>)"
proof -
  have "trim_count (length (qs @ [a])) = (if length qs < 999 then 0 else length qs - 499)"
    by (simp add: trim_count_def)
  then show ?thesis
    using tmpoutMsgRecvQueue_eq [of "s\<lparr>m_MsgRecvQueue := map Some (qs @ [a])\<rparr>" "qs @ [a]"] assms
    by (simp add: inMsgRecvQueue_def put_log_def trim_def Let_def)
qed

theorem queue_keeps_newest_witness:
  "\<exists>s' :: demo_kernel csocket. inMsgRecvQueue (Some 1000)
      ((demo_worker [])\<lparr>heap := \<lambda>a. Some [], m_MsgRecvQueue := map Some [0..<999]\<rparr>) = Inr s' \<and>
    m_MsgRecvQueue s' = map Some ([500..<999] @ [1000])"
proof -
  let ?s = "(demo_worker [])\<lparr>heap := \<lambda>a. Some [], m_MsgRecvQueue := map Some [0..<999]\<rparr>"
  have "m_MsgRecvQueue ?s = map Some [0..<999]" "distinct ([0..<999] @ [1000])"
    "set ([0..<999] @ [1000]) \<subseteq> dom (heap ?s)"
    by (simp_all add: dom_def del: upt_rec_numeral)
  from queue_keeps_newest [OF this] show ?thesis
    by (simp add: Let_def del: upt_rec_numeral)
qed

text \<open>
  C40: The destructor empties the queue and frees each queued message exactly once, without a fault;
  the blocks left behind are exactly those that connections were still receiving into.
\<close>

theorem destructor_leaks_partial_messages_only:
  assumes "sock_inv fl qs s"
  shows "\<exists>s'. CSocket_destroy s = Inr s' \<and> m_MsgRecvQueue s' = [] \<and> m_listenSocketList s' = [] \<and>
           dom (heap s') = ran (buf_of fl s)"
  using assms by (rule CSocket_destroy_leak)

theorem destructor_leaks_partial_messages_only_witness:
  "\<exists>s'. CSocket_destroy (demo_worker []) = Inr s' \<and> dom (heap s') = ran (buf_of [1] (demo_worker []))"
  using destructor_leaks_partial_messages_only [OF demo_worker_inv, of "[]"] by blast





definition demo_conf :: "ConfigItem list" where
  "demo_conf = [\<lparr>ItemName = ''ListenPort0'', ItemContent = ''75536''\<rparr>]"




text \<open>
  A configured port outside 0..65535 is cut to 16 bits when it is bound, while the log and the
  listening object keep the configured number: with 75536 configured, the server listens on 10000.
\<close>

theorem port_is_truncated:
  assumes "conf_port conf i = 75536"
    and "sys_socket os (kern s) = (fd, k1)" "fd \<noteq> -1"
    and "sys_setsockopt_reuseaddr os fd k1 = (r1, k2)" "r1 \<noteq> -1"
    and "sys_ioctl_fionbio os fd k2 = (r2, k3)" "r2 \<noteq> 1"
    and "sys_bind os fd 10000 k3 = (r3, k4)" "r3 \<noteq> -1"
    and "sys_listen os fd XFLY_LISTEN_BACKLOG k4 = (r4, k5)" "r4 \<noteq> -1"
  shows "open_listening_socket os conf i s =
    (True, s\<lparr>kern := k5, logs := logs s @ [Log L_INF (Listening_on 75536)],
       m_listenSocketList := m_listenSocketList s @
         [\<lparr>l_port = 75536, l_fd = fd, l_connection = None\<rparr>]\<rparr>)"
proof -
  have "(of_int (conf_port conf i) :: u16) = 10000"
    unfolding assms(1) by simp
  then have "sys_bind os fd (of_int (conf_port conf i)) k3 = (r3, k4)"
    using assms(8) by (simp only:)
  from open_listening_socket_ok [OF assms(2-7) this assms(9-11)] show ?thesis
    by (simp add: assms(1))
qed

theorem port_is_truncated_witness:
  "\<exists>s. open_listening_socket demo_os demo_conf 0 (CSocket_new 0 0 demo_kernel0) = (True, s) \<and>
     logs s = [Log L_INF (Listening_on 75536)]"
proof -
  have "conf_port demo_conf 0 = 75536"
    by code_simp
  from port_is_truncated [OF this demo_calls(7) _ demo_calls(8) _ demo_calls(3) _ demo_calls(9) _ demo_calls(10)]
  show ?thesis
    by (simp add: CSocket_new_def)
qed

text \<open>
  When \<open>setsockopt\<close> fails, the loop gives up without closing the descriptor it has just opened:
  the kernel sees no call after the failed one. (The other error paths close it.)
\<close>

theorem setsockopt_failure_leaks_descriptor:
  assumes "sys_socket os (kern s) = (fd, k1)" "fd \<noteq> -1"
    and "sys_setsockopt_reuseaddr os fd k1 = (-1, k2)"
  shows "open_listening_socket os conf i s =
    (False, s\<lparr>kern := k2, logs := logs s @ [Log L_ERR Setsockopt_error]\<rparr>)"
  using open_listening_socket_setsockopt_error [OF assms] by (simp add: put_log_def)

theorem setsockopt_failure_leaks_descriptor_witness:
  "\<exists>s'. open_listening_socket (demo_os\<lparr>sys_setsockopt_reuseaddr := \<lambda>fd k. (-1, k)\<rparr>) [] 0
      (CSocket_new 0 0 demo_kernel0) = (False, s') \<and> kern s' = demo_kernel0"
proof -
  let ?os = "demo_os\<lparr>sys_setsockopt_reuseaddr := \<lambda>fd k. (-1, k)\<rparr>"
  have "sys_socket ?os (kern (CSocket_new 0 0 demo_kernel0)) = (4, demo_kernel0)"
    "sys_setsockopt_reuseaddr ?os 4 demo_kernel0 = (-1, demo_kernel0)"
    by (simp_all add: CSocket_new_def)
  from setsockopt_failure_leaks_descriptor [OF this(1) _ this(2)] show ?thesis by simp
qed

text \<open>
  \<open>setnonblocking\<close> does not notice that \<open>ioctl\<close> failed: on the error result \<open>-1\<close> it reports
  success, because it compares with 1.
\<close>

theorem setnonblocking_misses_failure:
  assumes "sys_ioctl_fionbio os fd (kern s) = (-1, k)"
  shows "setnonblocking os fd s = (True, s\<lparr>kern := k\<rparr>)"
  using assms by (simp add: setnonblocking_def)

theorem setnonblocking_misses_failure_witness:
  "fst (setnonblocking (demo_os\<lparr>sys_ioctl_fionbio := \<lambda>fd k. (-1, k)\<rparr>) 4 (demo_worker [])) = True"
proof -
  have "sys_ioctl_fionbio (demo_os\<lparr>sys_ioctl_fionbio := \<lambda>fd k. (-1, k)\<rparr>) 4 (kern (demo_worker [])) =
      (-1, kern (demo_worker []))"
    by simp
  from setnonblocking_misses_failure [OF this] show ?thesis by simp
qed

section \<open>Configuration\<close>

text \<open>
  C18: Loading a configuration file terminates and appends exactly the items of its text, in order: of
  each line with an \<open>=\<close>, the part before the first and the part after it, both stripped of white
  space. The text holds no NUL, reading it ends regularly, and no key is longer than 50 characters.
\<close>

theorem load_conf_refines_text:
  assumes "\<not> f_bad f" "\<not> f_eof f" "NUL \<notin> set (f_data f)" "keys_fit (f_data f)"
  shows "\<exists>new. load_conf (Some f) items = Some (Inr (True, items @ new)) \<and>
           map item_view new = conf_items (f_data f)"
  using load_loop_text [OF assms, of items] by (auto simp: load_conf_def)

theorem load_conf_refines_text_witness:
  "\<exists>new. load_conf (Some \<lparr>f_data = '' Daemon = 0 '', f_eof = False, f_bad = False\<rparr>) [] =
       Some (Inr (True, new)) \<and> map item_view new = [(''Daemon'', ''0'')]"
proof -
  have "keys_fit '' Daemon = 0 ''" "conf_items '' Daemon = 0 '' = [(''Daemon'', ''0'')]"
    by code_simp+
  then show ?thesis
    using load_conf_refines_text [of "\<lparr>f_data = '' Daemon = 0 '', f_eof = False, f_bad = False\<rparr>" "[]"]
    by simp
qed

text \<open>
  C27: A configuration written as \<open>key=value\<close> lines is read back: after loading it, looking up a name
  finds the value of the first key equal to it up to case, and nothing if there is none.
\<close>

theorem conf_roundtrip:
  assumes "\<forall>kv \<in> set kvs. item_ok kv"
  shows "\<exists>items. load_conf (Some \<lparr>f_data = concat (map render_item kvs), f_eof = False, f_bad = False\<rparr>) [] =
       Some (Inr (True, items)) \<and>
     map item_view items = kvs \<and>
     (\<forall>name. getString items name = lookup kvs (c_str name))"
proof -
  let ?f = "\<lparr>f_data = concat (map render_item kvs), f_eof = False, f_bad = False\<rparr>"
  have "NUL \<notin> set (f_data ?f)"
    using render_no_NUL [OF assms] by simp
  then obtain new where "load_loop ?f [] = Some (Inr new)" "map item_view new = kvs"
    using load_loop_text [of ?f "[]"] keys_fit_render [OF assms] conf_items_render [OF assms] by auto
  then show ?thesis
    using getString_lookup by (auto simp: load_conf_def)
qed

theorem conf_roundtrip_witness:
  "\<exists>items. load_conf (Some \<lparr>f_data = concat (map render_item [(''Log'', ''log.txt'')]),
        f_eof = False, f_bad = False\<rparr>) [] = Some (Inr (True, items)) \<and>
     getString items ''LOG'' = Some ''log.txt''"
proof -
  have "\<forall>kv \<in> set [(''Log'', ''log.txt'')]. item_ok kv" by code_simp
  moreover have "lookup [(''Log'', ''log.txt'')] (c_str ''LOG'') = Some ''log.txt''" by code_simp
  ultimately show ?thesis
    using conf_roundtrip [of "[(''Log'', ''log.txt'')]"] by metis
qed

text \<open>
  C33: Numbers survive: a 32-bit number written in decimal as the value of a key is what
  \<open>getIntDefault\<close> returns for that key after loading.
\<close>

theorem conf_int_roundtrip:
  assumes "item_ok (key, dec_of_int n)" "- (2 ^ 31) \<le> n" "n < 2 ^ 31"
  shows "\<exists>items. load_conf (Some \<lparr>f_data = render_item (key, dec_of_int n), f_eof = False, f_bad = False\<rparr>) [] =
       Some (Inr (True, items)) \<and> getIntDefault items key d = n"
proof -
  let ?kvs = "[(key, dec_of_int n)]"
  let ?f = "\<lparr>f_data = render_item (key, dec_of_int n), f_eof = False, f_bad = False\<rparr>"
  have ok: "\<forall>kv \<in> set ?kvs. item_ok kv" using assms(1) by simp
  have "NUL \<notin> set (f_data ?f)"
    using assms(1) by (auto simp: render_item_def item_ok_def)
  then obtain new where new: "load_loop ?f [] = Some (Inr new)" "map item_view new = ?kvs"
    using load_loop_text [of ?f "[]"] keys_fit_render [OF ok] conf_items_render [OF ok] by auto
  have "c_str key = key"
    using assms(1) by (intro c_str_id) (simp add: item_ok_def)
  then have "getIntDefault new key d = n"
    using getIntDefault_lookup [of new key d] new(2) atoi_dec_of_int [OF assms(2,3)]
    by (simp add: lookup_def)
  then show ?thesis
    using new(1) by (simp add: load_conf_def)
qed

theorem conf_int_roundtrip_witness:
  "\<exists>items. load_conf (Some \<lparr>f_data = render_item (''LogLevel'', dec_of_int (-12)), f_eof = False, f_bad = False\<rparr>) [] =
       Some (Inr (True, items)) \<and> getIntDefault items ''LogLevel'' 1 = -12"
proof -
  have "item_ok (''LogLevel'', dec_of_int (-12))" by code_simp
  then show ?thesis using conf_int_roundtrip [of "''LogLevel''" "-12" 1] by simp
qed

text \<open>
  No line is skipped as a comment: the characters \<open>lineInvalid\<close> means to test begin with a NUL, so
  for \<open>strchr\<close> their string is empty and only an empty line is skipped.
\<close>

theorem comment_lines_are_not_skipped:
  assumes "NUL \<notin> set line"
  shows "lineInvalid (line @ [NUL]) = Inr (line = [])"
  using assms by (rule lineInvalid_eq)

theorem comment_lines_are_not_skipped_witness: "lineInvalid (''#Daemon=1'' @ [NUL]) = Inr False"
  using comment_lines_are_not_skipped [of "''#Daemon=1''"] by simp

text \<open>
  C38: On a file whose reading fails at once (a directory, for one), \<open>load\<close> never returns: \<open>fgets\<close>
  keeps failing and \<open>feof\<close> stays false.
\<close>

theorem load_hangs_on_read_error:
  assumes "f_data f = []" "f_bad f" "\<not> f_eof f"
  shows "load_conf (Some f) items = None"
proof (cases "load_loop f items")
  case None
  then show ?thesis by (simp add: load_conf_def)
next
  case (Some r)
  then show ?thesis using load_loop_bad [OF Some] assms by simp
qed

theorem load_hangs_on_read_error_witness:
  "load_conf (Some \<lparr>f_data = [], f_eof = False, f_bad = True\<rparr>) [] = None"
  using load_hangs_on_read_error [of "\<lparr>f_data = [], f_eof = False, f_bad = True\<rparr>" "[]"] by simp

text \<open>
  C39: A key of 52 characters or more is copied beyond the end of \<open>ItemName\<close>: the copy has no bound but
  the position of the \<open>=\<close>.
\<close>

theorem long_key_overflows:
  assumes "NUL \<notin> set line" "CHR ''='' \<in> set line"
    and "51 < length (takeWhile (\<lambda>c. c \<noteq> CHR ''='') line)"
  shows "load_line (line @ [NUL]) items = Inl (Fault Out_of_bounds)"
proof -
  have "line \<noteq> []" using assms(2) by auto
  then show ?thesis
    using lineInvalid_eq [OF assms(1)] strchr_pos_eq [OF assms(1), of "CHR ''=''"] assms(2,3)
    by (simp add: load_line_def strncpy_def)
qed

theorem long_key_overflows_witness:
  "load_line ((replicate 60 (CHR ''k'') @ ''=1'') @ [NUL]) [] = Inl (Fault Out_of_bounds)"
proof (rule long_key_overflows)
  show "51 < length (takeWhile (\<lambda>c. c \<noteq> CHR ''='') (replicate 60 (CHR ''k'') @ ''=1''))"
    by (simp add: takeWhile_append)
qed simp_all

text \<open>
  \<open>lStrip\<close> and \<open>rStrip\<close> on any buffer that holds a C string stay inside it and leave the string
  without its leading, respectively trailing, white space; after both it has neither.
\<close>

theorem strip_functions_strip:
  assumes "NUL \<in> set buf"
  shows "(\<exists>b. lStrip (Some buf) = Inr (Some b) \<and> length b = length buf \<and>
              c_str b = dropWhile blank (c_str buf)) \<and>
         (\<exists>b. rStrip (Some buf) = Inr (Some b) \<and> length b = length buf \<and>
              c_str b = rev (dropWhile blank (rev (c_str buf)))) \<and>
         (\<exists>b. bind_res (lStrip (Some buf)) rStrip = Inr (Some b) \<and> trimmed (c_str b))"
  using lStrip_spec [OF assms] rStrip_spec [OF assms] strip_both_spec [OF assms]
    trimmed_stripped [of "c_str buf"]
  by (auto simp: lstripped_def rstripped_def)

theorem strip_functions_strip_witness:
  "\<exists>b. bind_res (lStrip (Some (''  hello '' @ [NUL]))) rStrip = Inr (Some b) \<and> trimmed (c_str b)"
  using strip_functions_strip [of "''  hello '' @ [NUL]"] by simp

section \<open>The wire format\<close>

text \<open>
  A client that stores the package length with \<open>htons\<close> in a \<open>COMM_PKG_HEADER\<close> and sends the bytes
  of the struct is understood: the length the server reads from those bytes is the one stored,
  and it is the number its first two bytes spell, most significant byte first.
\<close>

theorem header_length_roundtrip:
  "e_pkgLen_of (bytes_of_header (h\<lparr>pkgLen := htons n\<rparr>)) = unat n \<and>
   256 * unat (bytes_of_header (h\<lparr>pkgLen := htons n\<rparr>) ! 0) +
     unat (bytes_of_header (h\<lparr>pkgLen := htons n\<rparr>) ! 1) = unat n"
proof -
  let ?b = "bytes_of_header (h\<lparr>pkgLen := htons n\<rparr>)"
  have "e_pkgLen_of ?b = unat n"
    by (simp add: e_pkgLen_of_def header_roundtrip ntohs_htons)
  moreover have "e_pkgLen_of ?b = 256 * unat (?b ! 0) + unat (?b ! 1)"
    by (rule e_pkgLen_of_be) (simp add: sizeof_COMM_PKG_HEADER_def)
  ultimately show ?thesis by simp
qed

text \<open>
  The tagged pointer that is registered for a connection leads back to exactly that connection
  and its instance bit, for every connection of a pool placed as \<open>new[]\<close> places it.
\<close>

theorem event_pointer_roundtrip:
  assumes "pool_placed base n" "i < n"
  shows "ptr_conn base n (ptr_untag (tag_ptr (conn_addr base i) b)) = Inr i \<and>
    ptr_instance (tag_ptr (conn_addr base i) b) = of_bool b"
  using tag_roundtrip [OF assms] by simp

theorem event_pointer_roundtrip_witness:
  "ptr_conn 4096 2 (ptr_untag (tag_ptr (conn_addr 4096 1) True)) = Inr 1"
  using event_pointer_roundtrip [of 4096 2 1 True] by (simp add: pool_placed_def sizeof_connection_def)

section \<open>The processes\<close>

text \<open>
  C20: A worker that \<open>main\<close> forks with a number of connections that is not negative runs for ever: unless
  \<open>epoll_init\<close> ends it with status 2, every number of rounds of its loop returns without a fault. This joins
  start-up (log, signals, listening sockets, daemon, fork) and event loop: what \<open>Initialize\<close> leaves in
  \<open>g_socket\<close> reaches \<open>epoll_init\<close> unchanged. With a negative \<open>worker_connections\<close> in the configuration,
  which nothing rejects, the worker ends in \<open>epoll_init\<close>, with status 2 or by an exception.
\<close>

theorem forked_worker_runs_forever:
  assumes "main_configured os pos p = Inr (In_worker i w)"
    and "g_socket p = CSocket_new cn fn k0" "kernel_ok os reg"
    and "pool_placed base (nat (getIntDefault (m_configItemList p) ''worker_connections'' 1))"
    and "reg (snd (sys_sigprocmask_set pos [] (pkern w))) = {}"
  shows "(0 \<le> getIntDefault (m_configItemList p) ''worker_connections'' 1 \<longrightarrow>
      workerProcessCycle os pos base garbage i w = Inl (Exit 2) \<or>
      (\<exists>w'. workerProcessCycle os pos base garbage i w = Inr w' \<and> processType w' = WorkerProcess \<and>
         (\<forall>n. \<exists>s. worker_rounds os n (g_socket w') = Inr s))) \<and>
    (getIntDefault (m_configItemList p) ''worker_connections'' 1 < 0 \<longrightarrow>
      workerProcessCycle os pos base garbage i w \<in> {Inl (Exit 2), Inl (Fault Bad_alloc)})"
  using main_worker_runs [OF assms(1-3) _ assms(4,5)] main_worker_negative [OF assms(1,2)] by blast

lemma demo_main_forks:
  "\<exists>w. main_configured demo_pos_os demo_proc_os (demo_proc (demo_pkernel0\<lparr>k_forks := [0]\<rparr>) demo_log_conf) =
     Inr (In_worker 0 w) \<and> demo_regs (k_net (pkern w)) = {}"
proof -
  let ?k = "demo_pkernel0\<lparr>k_forks := [0]\<rparr>"
  let ?p = "demo_proc ?k demo_log_conf"
  have "initLog demo_proc_os ?p = Inr (?p\<lparr>currentLogLevel := L_INF\<rparr>)"
    by (simp add: initLog_def demo_proc_def demo_log_lookup pcall_def toLevel_def set_pkern_def
        pkern_def CSocket_new_def)
  moreover have "initSignals demo_proc_os p = Inr (True, p)" for p
    by (simp add: initSignals_def signals_def pcall_def set_pkern_def pkern_def)
  moreover obtain s where "Initialize demo_pos_os demo_log_conf (CSocket_new 0 0 ?k) = Inr (True, s)" "kern s = ?k"
    by (simp add: Initialize_def open_listening_sockets_def readConf_def CSocket_new_def demo_log_lookup
        open_listening_socket_def setnonblocking_def demo_pos_os_def on_net_def put_poll_def put_log_def
        Let_def demo_log_lookup(7) [simplified])
  ultimately show ?thesis
    by (simp add: main_configured_def demo_proc_def demo_log_lookup masterProcessCycle_def
        startWorkProcess_def spawnProcess_def pcall_def pkern_def set_pkern_def plog_def ppoll_def
        demo_pkernel0_def demo_kernel0_def demo_regs_def Let_def)
qed

theorem forked_worker_runs_forever_witness:
  "\<exists>w. main_configured demo_pos_os demo_proc_os (demo_proc (demo_pkernel0\<lparr>k_forks := [0]\<rparr>) demo_log_conf) =
     Inr (In_worker 0 w) \<and>
   (workerProcessCycle demo_pos_os demo_proc_os 4096 (\<lambda>i. zero_connection) 0 w = Inl (Exit 2) \<or>
    (\<exists>w'. workerProcessCycle demo_pos_os demo_proc_os 4096 (\<lambda>i. zero_connection) 0 w = Inr w' \<and>
       processType w' = WorkerProcess \<and> (\<forall>n. \<exists>s. worker_rounds demo_pos_os n (g_socket w') = Inr s)))"
proof -
  let ?p = "demo_proc (demo_pkernel0\<lparr>k_forks := [0]\<rparr>) demo_log_conf"
  obtain w where w: "main_configured demo_pos_os demo_proc_os ?p = Inr (In_worker 0 w)"
    "demo_regs (k_net (pkern w)) = {}"
    using demo_main_forks by blast
  have "g_socket ?p = CSocket_new 0 0 (demo_pkernel0\<lparr>k_forks := [0]\<rparr>)" "m_configItemList ?p = demo_log_conf"
    by (simp_all add: demo_proc_def)
  then show ?thesis
    using forked_worker_runs_forever [OF w(1) _ demo_pos_kernel_ok, of 0 0 _ 4096 "\<lambda>i. zero_connection"] w
    by (simp add: demo_log_lookup pool_placed_def sizeof_connection_def)
qed

text \<open>
  C25: The master forks exactly the configured number of times; a worker is the child of fork number
  \<open>i\<close> with \<open>0 \<le> i < n\<close> and never forks itself.
\<close>

theorem workers_are_forked_once:
  assumes "forks_law pos forks"
  shows "case startWorkProcess pos n p of
      In_parent ok p' \<Rightarrow> forks (pkern p') = forks (pkern p) + nat n
    | In_worker i p' \<Rightarrow> 0 \<le> i \<and> i < n \<and> forks (pkern p') = forks (pkern p) + nat (i + 1)"
  using spawn_from_forks [OF assms, where a = 0 and b = "nat n" and p = p]
  by (auto simp: startWorkProcess_def split: forked.splits if_splits)

theorem workers_are_forked_once_witness:
  "\<exists>p'. startWorkProcess demo_proc_os 3 (demo_proc (demo_pkernel0\<lparr>k_forks := [11, 0]\<rparr>) []) = In_worker 1 p' \<and>
     k_fork_count (pkern p') = 2"
proof -
  let ?p = "demo_proc (demo_pkernel0\<lparr>k_forks := [11, 0]\<rparr>) []"
  obtain p' where p': "startWorkProcess demo_proc_os 3 ?p = In_worker 1 p'"
    by (simp add: startWorkProcess_def spawnProcess_def pcall_def pkern_def set_pkern_def demo_proc_def
        demo_pkernel0_def CSocket_new_def numeral_3_eq_3 upt_rec Let_def)
  moreover have "k_fork_count (pkern ?p) = 0"
    by (simp add: pkern_def demo_proc_def CSocket_new_def demo_pkernel0_def)
  ultimately show ?thesis
    using workers_are_forked_once [OF demo_forks, where n = 3 and p = ?p] by simp
qed

text \<open>
  C21: On \<open>SIGCHLD\<close> the handler returns, however often \<open>waitpid\<close> is interrupted, having reaped every
  child that had ended and logged each exactly once with its signal or exit status; in the master
  it also notes the loss of a child.
\<close>

theorem sigchld_reaps_every_child:
  assumes "waitpid_law pos dead alive intr"
  shows "\<exists>p'. signalHandler pos SIGCHLD siginfo p = Some (Inr p') \<and> dead (pkern p') = [] \<and>
     processType p' = processType p \<and>
     invalidProcess p' = (if processType p = MasterProcess then 1 else invalidProcess p) \<and>
     plogs p' = plogs p @ PLog L_INF (received_msg ''SIGCHLD'' siginfo) # map exit_msg (dead (pkern p)) @
       (if dead (pkern p) = [] \<and> \<not> alive (pkern p) then [PLog L_INF Waitpid_failed] else []) @ [PPoll True]"
  using assms by (rule signalHandler_chld)

theorem sigchld_reaps_every_child_witness:
  "\<exists>p'. signalHandler demo_proc_os SIGCHLD None
       (demo_proc (demo_pkernel0\<lparr>k_dead := [(11, 0), (12, 9)], k_interrupts := 3\<rparr>) []) = Some (Inr p') \<and>
     plogs p' = [PLog L_INF (Signal_received ''SIGCHLD''), PLog L_INF (Exited_with_code 11 0),
                 PLog L_INF (Exited_on_signal 12 9), PPoll True]"
proof -
  let ?p = "demo_proc (demo_pkernel0\<lparr>k_dead := [(11, 0), (12, 9)], k_interrupts := 3\<rparr>) []"
  have p: "plogs ?p = []" "k_dead (pkern ?p) = [(11, 0), (12, 9)]"
    by (simp_all add: demo_proc_def pkern_def CSocket_new_def)
  have m: "received_msg ''SIGCHLD'' None = Signal_received ''SIGCHLD''"
    "exit_msg (11, 0) = PLog L_INF (Exited_with_code 11 0)"
    "exit_msg (12, 9) = PLog L_INF (Exited_on_signal 12 9)"
    by (simp_all add: received_msg_def exit_msg_def WTERMSIG_def WEXITSTATUS_def)
  from sigchld_reaps_every_child [OF demo_waitpid, where siginfo = None and p = ?p] show ?thesis
    unfolding p m by (auto simp: m)
qed

text \<open>
  C26: \<open>createDaemon\<close> returns 0 exactly when it is in the forked child and every call has succeeded, and then
  the kernel is in the state these calls leave: a session of its own, standard input and output on
  \<open>/dev/null\<close>, and the extra descriptor closed. It returns 1 exactly in the parent. In every other case it
  returns \<open>-1\<close> after exactly one logged error and a poll that does not force a flush.
\<close>

theorem daemon_outcome:
  assumes "createDaemon pos p = (r, p')"
  shows "r \<in> {-1, 0, 1} \<and> (r = -1 \<longrightarrow> (\<exists>m. plogs p' = plogs p @ [PLog L_ERR m, PPoll False])) \<and>
     (r \<noteq> -1 \<longrightarrow> plogs p' = plogs p) \<and>
     (r = 1 \<longleftrightarrow> fst (sys_fork pos (pkern p)) \<notin> {0, -1}) \<and>
     (r = 0 \<longleftrightarrow> (\<exists>k. daemonised pos (pkern p) k)) \<and> (r = 0 \<longrightarrow> daemonised pos (pkern p) (pkern p'))"
  using assms by (rule createDaemon_outcome)

theorem daemon_outcome_witness:
  "\<exists>p'. createDaemon demo_proc_os (demo_proc (demo_pkernel0\<lparr>k_forks := [0]\<rparr>) []) = (0, p') \<and>
     daemonised demo_proc_os (demo_pkernel0\<lparr>k_forks := [0]\<rparr>) (pkern p')"
proof -
  let ?p = "demo_proc (demo_pkernel0\<lparr>k_forks := [0]\<rparr>) []"
  obtain p' where p': "createDaemon demo_proc_os ?p = (0, p')"
    by (simp add: createDaemon_def pcall_def pkern_def set_pkern_def demo_proc_def demo_pkernel0_def
        CSocket_new_def Let_def)
  moreover have "pkern ?p = demo_pkernel0\<lparr>k_forks := [0]\<rparr>"
    by (simp add: pkern_def demo_proc_def CSocket_new_def)
  ultimately show ?thesis
    using daemon_outcome [OF p'] by simp
qed

end
